(* ===== verification/Cfg_Prelude.thy ===== *)
theory Cfg_Prelude
  imports Main "HOL-Library.Word"
begin

text \<open>
  Shared vocabulary of the development: the ways a worker process can be stopped by the
  code (failed \<open>AN\<close>/\<open>AZ\<close>/\<open>assert\<close>, a NULL dereference, an out-of-range access, a division by zero, a
  script error outside any protected call, a thread that waits alone for ever, a use of freed memory), the
  result type that carries them, and the C string functions (\<open>strcmp\<close>, \<open>strncmp\<close>,
  \<open>isspace\<close>, \<open>strchr\<close>) the components call, on strings without NUL bytes.
\<close>

named_theorems res_simps \<open>evaluation of results\<close>

named_theorems cstr_simps \<open>C string functions\<close>

section \<open>Results\<close>

datatype panic = Assert_Failed | Null_Deref | Out_Of_Bounds | Division_By_Zero | Unprotected_Error | Blocked | Use_After_Free

type_synonym 'a res = "panic + 'a"

definition res_bind :: "'e + 'a \<Rightarrow> ('a \<Rightarrow> 'e + 'b) \<Rightarrow> 'e + 'b" where
  "res_bind m f = (case m of Inl e \<Rightarrow> Inl e | Inr x \<Rightarrow> f x)"

lemma res_bind_simps [simp, res_simps]:
  "res_bind (Inl e) f = Inl e"
  "res_bind (Inr x) f = f x"
  by (simp_all add: res_bind_def)

lemma res_bind_eq_Inr_iff [res_simps]:
  "res_bind m f = Inr y \<longleftrightarrow> (\<exists>x. m = Inr x \<and> f x = Inr y)"
  by (cases m) simp_all

lemma res_bind_eq_Inl_iff:
  "res_bind m f = Inl e \<longleftrightarrow> m = Inl e \<or> (\<exists>x. m = Inr x \<and> f x = Inl e)"
  by (cases m) simp_all

lemma res_bind_cong [fundef_cong]:
  "m = m' \<Longrightarrow> (\<And>x. m' = Inr x \<Longrightarrow> f x = f' x) \<Longrightarrow> res_bind m f = res_bind m' f'"
  by (cases m') simp_all

lemma res_bind_assoc:
  "res_bind (res_bind m f) g = res_bind m (\<lambda>x. res_bind (f x) g)"
  by (cases m) simp_all

definition returns :: "'a res \<Rightarrow> bool" where
  "returns m \<longleftrightarrow> (\<exists>x. m = Inr x)"

lemma returns_simps [simp]: "returns (Inr x)" "\<not> returns (Inl e)"
  by (simp_all add: returns_def)

text \<open>\<open>AN(e)\<close>, \<open>AZ(e)\<close> and \<open>assert(e)\<close>: go on when the condition holds, abort otherwise.\<close>

definition must :: "bool \<Rightarrow> 'a res \<Rightarrow> 'a res" where
  "must b m = (if b then m else Inl Assert_Failed)"

lemma must_simps [simp, res_simps]:
  "must True m = m"
  "must False m = Inl Assert_Failed"
  by (simp_all add: must_def)

lemma must_eq_Inr_iff [res_simps]: "must b m = Inr x \<longleftrightarrow> b \<and> m = Inr x"
  by (simp add: must_def)

text \<open>A loop over a list whose body may abort.\<close>

fun res_fold :: "('x \<Rightarrow> 's \<Rightarrow> 'e + 's) \<Rightarrow> 'x list \<Rightarrow> 's \<Rightarrow> 'e + 's" where
  "res_fold f [] s = Inr s"
| "res_fold f (x # xs) s = res_bind (f x s) (res_fold f xs)"

lemma res_fold_append: "res_fold f (xs @ ys) s = res_bind (res_fold f xs s) (res_fold f ys)"
  by (induction xs arbitrary: s) (auto simp: res_bind_assoc intro!: res_bind_cong)

lemma res_bind_Inr [simp]: "res_bind m Inr = m"
  by (cases m) simp_all

lemma res_fold_Nil_ext: "res_fold f [] = Inr"
  by (simp add: fun_eq_iff)

lemma res_fold_snoc: "res_fold f (xs @ [x]) s = res_bind (res_fold f xs s) (f x)"
proof -
  have "res_fold f [x] = f x"
    by (simp add: fun_eq_iff res_fold_Nil_ext)
  then show ?thesis by (simp only: res_fold_append)
qed

lemma res_fold_map: "res_fold f (map g xs) s = res_fold (\<lambda>x. f (g x)) xs s"
  by (induction xs arbitrary: s) (auto intro!: res_bind_cong)

lemma res_fold_cong [fundef_cong]:
  assumes "xs = ys" "s = t" "\<And>x u. x \<in> set ys \<Longrightarrow> f x u = g x u"
  shows "res_fold f xs s = res_fold g ys t"
proof -
  have "\<forall>x \<in> set ys. f x = g x"
    using assms(3) by (simp add: fun_eq_iff)
  then have "res_fold f ys t = res_fold g ys t"
    by (induction ys arbitrary: t) (auto intro!: res_bind_cong)
  then show ?thesis using assms(1,2) by simp
qed

text \<open>Total correctness: a sequence returns when each of its steps does.\<close>

named_theorems returns_intros \<open>rules to show that a computation returns\<close>

lemma returns_bindI [returns_intros]: "returns m \<Longrightarrow> (\<And>x. m = Inr x \<Longrightarrow> returns (f x)) \<Longrightarrow> returns (res_bind m f)"
  by (auto simp: returns_def)

lemma returns_mustI [returns_intros]: "b \<Longrightarrow> returns m \<Longrightarrow> returns (must b m)"
  by simp

lemma returnsE: "returns m \<Longrightarrow> (\<And>x. m = Inr x \<Longrightarrow> P) \<Longrightarrow> P"
  by (auto simp: returns_def)

text \<open>A computation returns, and what it returns satisfies a predicate.\<close>

definition ends :: "'a res \<Rightarrow> ('a \<Rightarrow> bool) \<Rightarrow> bool" where
  "ends m Q \<longleftrightarrow> (\<exists>x. m = Inr x \<and> Q x)"

lemma ends_Inr [simp]: "ends (Inr x) Q \<longleftrightarrow> Q x" "\<not> ends (Inl e) Q"
  by (simp_all add: ends_def)

lemma ends_returns: "returns m \<Longrightarrow> (\<And>x. m = Inr x \<Longrightarrow> Q x) \<Longrightarrow> ends m Q"
  by (auto simp: ends_def returns_def)

lemma ends_returnsD: "ends m Q \<Longrightarrow> returns m" "ends m Q \<Longrightarrow> m = Inr x \<Longrightarrow> Q x"
  by (auto simp: ends_def returns_def)

lemma ends_mono: "ends m P \<Longrightarrow> (\<And>x. m = Inr x \<Longrightarrow> P x \<Longrightarrow> Q x) \<Longrightarrow> ends m Q"
  by (auto simp: ends_def)

lemma ends_bind: "ends m P \<Longrightarrow> (\<And>x. m = Inr x \<Longrightarrow> P x \<Longrightarrow> ends (f x) Q) \<Longrightarrow> ends (res_bind m f) Q"
  by (auto simp: ends_def)

lemma ends_must: "b \<Longrightarrow> ends m Q \<Longrightarrow> ends (must b m) Q"
  by simp

lemma ends_fold:
  assumes "I s" "\<And>x s. x \<in> set xs \<Longrightarrow> I s \<Longrightarrow> ends (f x s) I"
  shows "ends (res_fold f xs s) I"
  using assms
proof (induction xs arbitrary: s)
  case (Cons x xs)
  have "ends (f x s) I" by (rule Cons.prems(2)[OF _ Cons.prems(1)]) simp
  moreover have "ends (res_fold f xs s') I" if "I s'" for s'
    by (rule Cons.IH[OF that]) (rule Cons.prems(2), simp_all)
  ultimately show ?case by (auto intro: ends_bind)
qed simp

lemma res_fold_inv:
  assumes "I s" and "\<And>x s s'. x \<in> set xs \<Longrightarrow> I s \<Longrightarrow> f x s = Inr s' \<Longrightarrow> I s'"
    and "res_fold f xs s = Inr s'"
  shows "I s'"
  using assms
proof (induction xs arbitrary: s)
  case (Cons x xs)
  then show ?case
    by (auto simp: res_bind_eq_Inr_iff)
qed simp

section \<open>C strings\<close>

abbreviation NUL :: char where
  "NUL \<equiv> CHR 0x00"

abbreviation byte :: "char \<Rightarrow> nat" where
  "byte c \<equiv> of_char c"

text \<open>What a C function sees of a byte buffer: everything before the first NUL.\<close>

definition c_string :: "string \<Rightarrow> string" where
  "c_string s = takeWhile (\<lambda>c. c \<noteq> NUL) s"

lemma c_string_id: "NUL \<notin> set s \<Longrightarrow> c_string s = s"
  unfolding c_string_def by (rule takeWhile_eq_all_conv[THEN iffD2]) auto

lemma c_string_no_nul [simp]: "NUL \<notin> set (c_string s)"
  unfolding c_string_def by (auto dest: set_takeWhileD)

lemma c_string_idem [simp]: "c_string (c_string s) = c_string s"
  by (simp add: c_string_id)

text \<open>
  \<open>strcmp\<close>. The C library promises the sign only: the first bytes that differ decide, read
  as unsigned characters, and the end of a string is below every byte.
\<close>

fun strcmp :: "string \<Rightarrow> string \<Rightarrow> int" where
  "strcmp [] [] = 0"
| "strcmp [] (d # ds) = - int (byte d) - 1"
| "strcmp (c # cs) [] = int (byte c) + 1"
| "strcmp (c # cs) (d # ds) =
     (if c = d then strcmp cs ds else int (byte c) - int (byte d))"

lemma byte_eq_iff: "(byte c = byte d) = (c = d)"
  by (simp add: of_char_eq_iff)

lemma strcmp_eq_0_iff [simp, cstr_simps]: "strcmp s t = 0 \<longleftrightarrow> s = t"
  by (induction s t rule: strcmp.induct) (auto simp: byte_eq_iff)

lemma strcmp_antisym: "strcmp s t > 0 \<longleftrightarrow> strcmp t s < 0"
  by (induction s t rule: strcmp.induct) auto

lemma strcmp_trans: "strcmp s t < 0 \<Longrightarrow> strcmp t u < 0 \<Longrightarrow> strcmp s u < 0"
proof (induction s t arbitrary: u rule: strcmp.induct)
  case (2 d ds)
  then show ?case by (cases u) auto
next
  case (4 c cs d ds)
  then show ?case by (cases u) (auto split: if_splits)
qed auto

text \<open>\<open>strncmp(s, prefix, strlen(prefix)) == 0\<close>.\<close>

fun has_prefix :: "string \<Rightarrow> string \<Rightarrow> bool" where
  "has_prefix s [] = True"
| "has_prefix [] (p # ps) = False"
| "has_prefix (c # cs) (p # ps) = (c = p \<and> has_prefix cs ps)"

lemma has_prefix_iff [cstr_simps]: "has_prefix s p \<longleftrightarrow> take (length p) s = p"
  by (induction s p rule: has_prefix.induct) auto

lemma has_prefix_append [simp]: "has_prefix (p @ s) p"
  by (simp add: has_prefix_iff)

text \<open>\<open>isspace\<close> in the C locale: space, \<open>\t\<close>, \<open>\n\<close>, \<open>\v\<close>, \<open>\f\<close> and \<open>\r\<close>.\<close>

definition isspace :: "char \<Rightarrow> bool" where
  "isspace c \<longleftrightarrow> c = CHR '' '' \<or> 9 \<le> byte c \<and> byte c \<le> 13"

definition lskip :: "string \<Rightarrow> string" where
  "lskip s = dropWhile isspace s"

definition rstrip :: "string \<Rightarrow> string" where
  "rstrip s = rev (dropWhile isspace (rev s))"

lemma lskip_Cons [cstr_simps]: "lskip (c # cs) = (if isspace c then lskip cs else c # cs)"
  by (simp add: lskip_def)

lemma lskip_Nil [simp]: "lskip [] = []"
  by (simp add: lskip_def)

lemma rstrip_Nil [simp]: "rstrip [] = []"
  by (simp add: rstrip_def)

lemma rstrip_snoc [cstr_simps]: "rstrip (s @ [c]) = (if isspace c then rstrip s else s @ [c])"
  by (simp add: rstrip_def)

lemma length_lskip_le: "length (lskip s) \<le> length s"
  by (simp add: lskip_def length_dropWhile_le)

lemma length_rstrip_le: "length (rstrip s) \<le> length s"
  unfolding rstrip_def using length_dropWhile_le[of isspace "rev s"] by simp

lemma lskip_id: "s = [] \<or> \<not> isspace (hd s) \<Longrightarrow> lskip s = s"
  by (cases s) (auto simp: lskip_def)

lemma rstrip_id: "s = [] \<or> \<not> isspace (last s) \<Longrightarrow> rstrip s = s"
  by (cases s rule: rev_cases) (auto simp: rstrip_def)

text \<open>Assigning a VCL integer (64 bits, signed) to an \<open>unsigned\<close> field keeps its low 32 bits.\<close>

type_synonym uint32 = "32 word"

definition to_unsigned :: "int \<Rightarrow> uint32" where
  "to_unsigned i = word_of_int i"

lemma uint_to_unsigned: "uint (to_unsigned i) = i mod 2 ^ 32"
  by (simp add: to_unsigned_def unsigned_of_int take_bit_eq_mod)

section \<open>Searching a string\<close>

text \<open>\<open>strchr\<close>, as the offset of the byte found.\<close>

fun strchr :: "string \<Rightarrow> char \<Rightarrow> nat option" where
  "strchr [] c = None"
| "strchr (d # ds) c = (if d = c then Some 0 else map_option Suc (strchr ds c))"

lemma strchr_None_iff [simp, cstr_simps]: "strchr s c = None \<longleftrightarrow> c \<notin> set s"
  by (induction s) auto

lemma strchr_append: "c \<notin> set s \<Longrightarrow> strchr (s @ c # t) c = Some (length s)"
  by (induction s) auto

lemma strchr_Some:
  "strchr s c = Some i \<Longrightarrow> i < length s \<and> s ! i = c \<and> c \<notin> set (take i s)
     \<and> s = take i s @ c # drop (Suc i) s"
  by (induction s arbitrary: i) (auto split: if_splits)

end
