(* ===== verification/Vtree.thy ===== *)
theory Vtree
  imports Cfg_Prelude
begin

text \<open>
  The red-black tree macros of \<open>vtree.h\<close> (\<open>VRBT_INSERT\<close>, \<open>VRBT_FIND\<close>, \<open>VRBT_REMOVE\<close>,
  \<open>VRBT_MINMAX\<close>, \<open>VRBT_NEXT\<close>, \<open>VRBT_FOREACH\<close>). The C nodes carry a parent pointer; here a
  node inside a tree is a pair of its subtree and the path of its ancestors, nearest first,
  so following \<open>VRBT_PARENT\<close> is taking the head of the path. A macro that would follow a NULL
  pointer returns \<open>Inl Null_Deref\<close>.
\<close>

section \<open>Trees, nodes and parent paths\<close>

datatype color = Black | Red

datatype 'a vrbt = Leaf | Node color "'a vrbt" 'a "'a vrbt"

text \<open>
  \<open>LeftOf c y r\<close>: the node is the left child of a node \<open>y\<close> of colour \<open>c\<close> whose right child
  is \<open>r\<close>; \<open>RightOf c y l\<close> is the mirror image.
\<close>

datatype 'a crumb = LeftOf color 'a "'a vrbt" | RightOf color 'a "'a vrbt"

type_synonym 'a path = "'a crumb list"

type_synonym 'a loc = "'a vrbt \<times> 'a path"

fun fill :: "'a crumb \<Rightarrow> 'a vrbt \<Rightarrow> 'a vrbt" where
  "fill (LeftOf c y r) t = Node c t y r"
| "fill (RightOf c y l) t = Node c l y t"

fun plug :: "'a vrbt \<Rightarrow> 'a path \<Rightarrow> 'a vrbt" where
  "plug t [] = t"
| "plug t (k # p) = plug (fill k t) p"

fun crumb_color :: "'a crumb \<Rightarrow> color" where
  "crumb_color (LeftOf c y r) = c"
| "crumb_color (RightOf c y l) = c"

fun is_red :: "'a vrbt \<Rightarrow> bool" where
  "is_red (Node Red l x r) = True"
| "is_red t = False"

fun paint :: "color \<Rightarrow> 'a vrbt \<Rightarrow> 'a vrbt" where
  "paint c Leaf = Leaf"
| "paint c (Node d l x r) = Node c l x r"

fun rotate_left :: "'a vrbt \<Rightarrow> 'a vrbt res" where
  "rotate_left (Node c l x (Node d m y r)) = Inr (Node d (Node c l x m) y r)"
| "rotate_left t = Inl Null_Deref"

fun rotate_right :: "'a vrbt \<Rightarrow> 'a vrbt res" where
  "rotate_right (Node c (Node d l x m) y r) = Inr (Node d l x (Node c m y r))"
| "rotate_right t = Inl Null_Deref"

section \<open>Operations\<close>

text \<open>\<open>VRBT_FIND\<close>.\<close>

fun vrbt_find :: "('a \<Rightarrow> 'a \<Rightarrow> int) \<Rightarrow> 'a \<Rightarrow> 'a vrbt \<Rightarrow> 'a option" where
  "vrbt_find cmp x Leaf = None"
| "vrbt_find cmp x (Node c l y r) =
     (if cmp x y < 0 then vrbt_find cmp x l
      else if cmp x y > 0 then vrbt_find cmp x r
      else Some y)"

text \<open>\<open>VRBT_NFIND\<close>: \<open>res\<close> is the best candidate so far.\<close>

fun vrbt_nfind :: "('a \<Rightarrow> 'a \<Rightarrow> int) \<Rightarrow> 'a \<Rightarrow> 'a option \<Rightarrow> 'a vrbt \<Rightarrow> 'a option" where
  "vrbt_nfind cmp x res Leaf = res"
| "vrbt_nfind cmp x res (Node c l y r) =
     (if cmp x y < 0 then vrbt_nfind cmp x (Some y) l
      else if cmp x y > 0 then vrbt_nfind cmp x res r
      else Some y)"

text \<open>The descent of \<open>VRBT_INSERT\<close>: stops at a NULL child or at an equal node.\<close>

fun vrbt_descend :: "('a \<Rightarrow> 'a \<Rightarrow> int) \<Rightarrow> 'a \<Rightarrow> 'a vrbt \<Rightarrow> 'a path \<Rightarrow> 'a loc" where
  "vrbt_descend cmp x Leaf p = (Leaf, p)"
| "vrbt_descend cmp x (Node c l y r) p =
     (if cmp x y < 0 then vrbt_descend cmp x l (LeftOf c y r # p)
      else if cmp x y > 0 then vrbt_descend cmp x r (RightOf c y l # p)
      else (Node c l y r, p))"

text \<open>
  The rotating branch of \<open>VRBT_INSERT_COLOR\<close>: \<open>g\<close> is the grandparent, \<open>k\<close> the red parent,
  \<open>t\<close> the subtree of \<open>elm\<close>. The result is the rotated grandparent subtree.
\<close>

fun insert_rotate :: "'a crumb \<Rightarrow> 'a crumb \<Rightarrow> 'a vrbt \<Rightarrow> 'a vrbt res" where
  "insert_rotate (LeftOf gc gy uncle) k t =
     res_bind (case k of LeftOf c y sib \<Rightarrow> Inr (fill k t)
               | RightOf c y sib \<Rightarrow> rotate_left (fill k t))
       (\<lambda>parent. rotate_right (Node Red (paint Black parent) gy uncle))"
| "insert_rotate (RightOf gc gy uncle) k t =
     res_bind (case k of RightOf c y sib \<Rightarrow> Inr (fill k t)
               | LeftOf c y sib \<Rightarrow> rotate_right (fill k t))
       (\<lambda>parent. rotate_left (Node Red uncle gy (paint Black parent)))"

fun uncle_of :: "'a crumb \<Rightarrow> 'a vrbt" where
  "uncle_of (LeftOf c y r) = r"
| "uncle_of (RightOf c y l) = l"

fun with_uncle :: "'a vrbt \<Rightarrow> color \<Rightarrow> 'a crumb \<Rightarrow> 'a crumb" where
  "with_uncle u c (LeftOf c' y r) = LeftOf c y u"
| "with_uncle u c (RightOf c' y l) = RightOf c y u"

text \<open>
  \<open>VRBT_INSERT_COLOR\<close>. The loop test is the first \<open>if\<close>; a red uncle recolours and moves
  \<open>elm\<close> two levels up; otherwise the rotations leave a black parent and the loop ends. The
  root is painted black at the end.
\<close>

fun insert_color :: "'a vrbt \<Rightarrow> 'a path \<Rightarrow> 'a vrbt res" where
  "insert_color t [] = Inr (paint Black t)"
| "insert_color t [k] =
     (if crumb_color k \<noteq> Red then Inr (paint Black (plug t [k])) else Inl Null_Deref)"
| "insert_color t (k # g # p) =
     (if crumb_color k \<noteq> Red then Inr (paint Black (plug t (k # g # p)))
      else if is_red (uncle_of g)
      then insert_color (fill (with_uncle (paint Black (uncle_of g)) Red g) (paint Black (fill k t))) p
      else res_bind (insert_rotate g k t) (\<lambda>u. Inr (paint Black (plug u p))))"

text \<open>
  \<open>VRBT_INSERT\<close>: the equal node when there is one (the tree is unchanged), NULL otherwise.
  \<open>VRBT_SET\<close> makes the new node red and childless.
\<close>

definition vrbt_insert :: "('a \<Rightarrow> 'a \<Rightarrow> int) \<Rightarrow> 'a \<Rightarrow> 'a vrbt \<Rightarrow> ('a option \<times> 'a vrbt) res" where
  "vrbt_insert cmp x t =
     (case vrbt_descend cmp x t [] of
        (Node c l y r, p) \<Rightarrow> Inr (Some y, t)
      | (Leaf, p) \<Rightarrow> res_bind (insert_color (Node Red Leaf x Leaf) p) (\<lambda>t'. Inr (None, t')))"

text \<open>
  One turn of the loop of \<open>VRBT_REMOVE_COLOR\<close> below the red-sibling step: \<open>t\<close> is the subtree
  of \<open>elm\<close>, \<open>c\<close> and \<open>y\<close> its parent, \<open>sib\<close> the sibling \<open>tmp\<close>. \<open>Inl\<close> goes on one level up with
  the recoloured parent; \<open>Inr\<close> is the rebalanced parent subtree, after which the loop breaks
  with \<open>elm\<close> at the root.
\<close>

definition black_or_null :: "'a vrbt \<Rightarrow> bool" where
  "black_or_null t \<longleftrightarrow> \<not> is_red t"

fun break_left :: "color \<Rightarrow> 'a vrbt \<Rightarrow> 'a \<Rightarrow> 'a vrbt \<Rightarrow> 'a vrbt res" where
  "break_left c t y Leaf = Inl Null_Deref"
| "break_left c t y (Node d zl z zr) = rotate_left (Node Black t y (Node c zl z (paint Black zr)))"

fun break_right :: "color \<Rightarrow> 'a vrbt \<Rightarrow> 'a \<Rightarrow> 'a vrbt \<Rightarrow> 'a vrbt res" where
  "break_right c t y Leaf = Inl Null_Deref"
| "break_right c t y (Node d zl z zr) = rotate_right (Node Black (Node c (paint Black zl) z zr) y t)"

fun remove_fix_left :: "color \<Rightarrow> 'a vrbt \<Rightarrow> 'a \<Rightarrow> 'a vrbt \<Rightarrow> ('a vrbt + 'a vrbt) res" where
  "remove_fix_left c t y Leaf = Inl Null_Deref"
| "remove_fix_left c t y (Node d sl s sr) =
     (if black_or_null sl \<and> black_or_null sr
      then Inr (Inl (Node c t y (Node Red sl s sr)))
      else res_bind
             (if black_or_null sr then rotate_right (Node Red (paint Black sl) s sr)
              else Inr (Node d sl s sr))
             (\<lambda>tmp. res_bind (break_left c t y tmp) (\<lambda>u. Inr (Inr u))))"

fun remove_fix_right :: "color \<Rightarrow> 'a vrbt \<Rightarrow> 'a \<Rightarrow> 'a vrbt \<Rightarrow> ('a vrbt + 'a vrbt) res" where
  "remove_fix_right c t y Leaf = Inl Null_Deref"
| "remove_fix_right c t y (Node d sl s sr) =
     (if black_or_null sl \<and> black_or_null sr
      then Inr (Inl (Node c (Node Red sl s sr) y t))
      else res_bind
             (if black_or_null sl then rotate_left (Node Red sl s (paint Black sr))
              else Inr (Node d sl s sr))
             (\<lambda>tmp. res_bind (break_right c t y tmp) (\<lambda>u. Inr (Inr u))))"

text \<open>
  The whole loop body: a red sibling is rotated above the parent first, which leaves the
  parent red under a black node (one more crumb on the path).
\<close>

fun remove_step :: "'a vrbt \<Rightarrow> 'a crumb \<Rightarrow> 'a path \<Rightarrow> (('a vrbt + 'a vrbt) \<times> 'a path) res" where
  "remove_step t (LeftOf c y (Node Red sl s sr)) p =
     res_bind (remove_fix_left Red t y sl) (\<lambda>o'. Inr (o', LeftOf Black s sr # p))"
| "remove_step t (LeftOf c y sib) p =
     res_bind (remove_fix_left c t y sib) (\<lambda>o'. Inr (o', p))"
| "remove_step t (RightOf c y (Node Red sl s sr)) p =
     res_bind (remove_fix_right Red t y sr) (\<lambda>o'. Inr (o', RightOf Black s sl # p))"
| "remove_step t (RightOf c y sib) p =
     res_bind (remove_fix_right c t y sib) (\<lambda>o'. Inr (o', p))"

lemma remove_fix_left_shape: "remove_fix_left c t y sib = Inr (Inl u) \<Longrightarrow> is_red u = (c = Red)"
  by (cases sib; cases c) (auto split: if_splits simp: res_simps)

lemma remove_fix_right_shape: "remove_fix_right c t y sib = Inr (Inl u) \<Longrightarrow> is_red u = (c = Red)"
  by (cases sib; cases c) (auto split: if_splits simp: res_simps)

lemma remove_step_shape:
  "remove_step t k p = Inr (Inl u, p') \<Longrightarrow> p' = p \<or> length p' = Suc (length p) \<and> is_red u"
  by (induction t k p rule: remove_step.induct)
     (auto simp: res_simps dest: remove_fix_left_shape remove_fix_right_shape)

text \<open>\<open>VRBT_REMOVE_COLOR\<close>.\<close>

function (sequential) remove_color :: "'a vrbt \<Rightarrow> 'a path \<Rightarrow> 'a vrbt res" where
  "remove_color t [] = Inr (paint Black t)"
| "remove_color t (k # p) =
     (if is_red t then Inr (plug (paint Black t) (k # p))
      else case remove_step t k p of
        Inl e \<Rightarrow> Inl e
      | Inr (Inl u, p') \<Rightarrow> remove_color u p'
      | Inr (Inr u, p') \<Rightarrow> Inr (paint Black (plug u p')))"
  by pat_completeness auto
termination
  by (relation "measure (\<lambda>(t, p). 2 * length p + (if is_red t then 0 else 1))")
     (auto dest: remove_step_shape)

text \<open>The inner \<open>while\<close> of \<open>VRBT_REMOVE\<close>, \<open>VRBT_NEXT\<close> and \<open>VRBT_MINMAX\<close>.\<close>

fun leftmost :: "color \<Rightarrow> 'a vrbt \<Rightarrow> 'a \<Rightarrow> 'a vrbt \<Rightarrow> 'a path \<Rightarrow> 'a loc" where
  "leftmost c Leaf y r p = (Node c Leaf y r, p)"
| "leftmost c (Node d l x m) y r p = leftmost d l x m (LeftOf c y r # p)"

definition unlink :: "color \<Rightarrow> 'a vrbt \<Rightarrow> 'a path \<Rightarrow> 'a vrbt res" where
  "unlink c child p = (if c = Black then remove_color child p else Inr (plug child p))"

text \<open>
  \<open>VRBT_REMOVE\<close> on the node at a location. With two children the successor is unlinked and
  takes over the links and the colour of the removed node.
\<close>

fun remove_at :: "'a loc \<Rightarrow> 'a vrbt res" where
  "remove_at (Leaf, p) = Inl Null_Deref"
| "remove_at (Node c Leaf y r, p) = unlink c r p"
| "remove_at (Node c l y Leaf, p) = unlink c l p"
| "remove_at (Node c l y (Node d rl x rr), p) =
     (case leftmost d rl x rr [] of
        (Leaf, q) \<Rightarrow> Inl Null_Deref
      | (Node e _ s child, q) \<Rightarrow> unlink e child (q @ RightOf c s l # p))"

text \<open>
  The callers hold a pointer to the node, obtained from \<open>VRBT_FIND\<close> or from the traversal, so
  the node is the one that compares equal. Removing a node that is not in the tree is outside
  the macro's contract.
\<close>

definition vrbt_remove :: "('a \<Rightarrow> 'a \<Rightarrow> int) \<Rightarrow> 'a \<Rightarrow> 'a vrbt \<Rightarrow> 'a vrbt res" where
  "vrbt_remove cmp x t = remove_at (vrbt_descend cmp x t [])"

text \<open>
  Writing a field of the node a caller found: the node stays where it is.
\<close>

definition vrbt_assign :: "('a \<Rightarrow> 'a \<Rightarrow> int) \<Rightarrow> 'a \<Rightarrow> ('a \<Rightarrow> 'a) \<Rightarrow> 'a vrbt \<Rightarrow> 'a vrbt" where
  "vrbt_assign cmp x f t =
     (case vrbt_descend cmp x t [] of
        (Leaf, p) \<Rightarrow> t
      | (Node c l y r, p) \<Rightarrow> plug (Node c l (f y) r) p)"

text \<open>\<open>VRBT_MIN\<close> and \<open>VRBT_NEXT\<close>.\<close>

fun vrbt_min :: "'a vrbt \<Rightarrow> 'a loc option" where
  "vrbt_min Leaf = None"
| "vrbt_min (Node c l x r) = Some (leftmost c l x r [])"

fun climb :: "'a vrbt \<Rightarrow> 'a path \<Rightarrow> 'a loc option" where
  "climb t [] = None"
| "climb t (LeftOf c y r # p) = Some (Node c t y r, p)"
| "climb t (RightOf c y l # p) = climb (Node c l y t) p"

fun vrbt_next :: "'a loc \<Rightarrow> 'a loc option" where
  "vrbt_next (Leaf, p) = None"
| "vrbt_next (Node c l x Leaf, p) = climb (Node c l x Leaf) p"
| "vrbt_next (Node c l x (Node d rl y rr), p) =
     Some (leftmost d rl y rr (RightOf c x l # p))"

section \<open>Search order and balance\<close>

fun inorder :: "'a vrbt \<Rightarrow> 'a list" where
  "inorder Leaf = []"
| "inorder (Node c l x r) = inorder l @ x # inorder r"

fun before :: "'a path \<Rightarrow> 'a list" where
  "before [] = []"
| "before (LeftOf c y r # p) = before p"
| "before (RightOf c y l # p) = before p @ inorder l @ [y]"

fun after :: "'a path \<Rightarrow> 'a list" where
  "after [] = []"
| "after (LeftOf c y r # p) = y # inorder r @ after p"
| "after (RightOf c y l # p) = after p"

fun bheight :: "'a vrbt \<Rightarrow> nat" where
  "bheight Leaf = 0"
| "bheight (Node c l x r) = bheight l + (if c = Black then 1 else 0)"

fun rb :: "'a vrbt \<Rightarrow> bool" where
  "rb Leaf = True"
| "rb (Node c l x r) =
     (rb l \<and> rb r \<and> bheight l = bheight r \<and> (c = Red \<longrightarrow> \<not> is_red l \<and> \<not> is_red r))"

text \<open>A red node may stand below this path: its parent exists and is black.\<close>

fun red_ok :: "'a path \<Rightarrow> bool" where
  "red_ok [] = False"
| "red_ok (k # p) = (crumb_color k = Black)"

text \<open>The path is part of a red-black tree whose hole takes a subtree of black height \<open>h\<close>.\<close>

fun path_ok :: "'a path \<Rightarrow> nat \<Rightarrow> bool" where
  "path_ok [] h = True"
| "path_ok (k # p) h =
     (rb (uncle_of k) \<and> bheight (uncle_of k) = h
      \<and> (crumb_color k = Red \<longrightarrow> \<not> is_red (uncle_of k) \<and> red_ok p)
      \<and> path_ok p (h + (if crumb_color k = Black then 1 else 0)))"

fun loc_ok :: "'a loc \<Rightarrow> bool" where
  "loc_ok (t, p) = (rb t \<and> path_ok p (bheight t) \<and> (is_red t \<longrightarrow> red_ok p))"

definition rb_tree :: "'a vrbt \<Rightarrow> bool" where
  "rb_tree t \<longleftrightarrow> rb t \<and> \<not> is_red t"

lemma rb_tree_Leaf [simp]: "rb_tree Leaf"
  by (simp add: rb_tree_def)

lemma color_cases: "c = Black \<or> c = Red"
  by (cases c) auto

lemma not_Black [simp]: "(c \<noteq> Black) = (c = Red)" "(c \<noteq> Red) = (c = Black)"
  by (cases c; simp)+

lemma is_red_Node [simp]: "is_red (Node c l x r) = (c = Red)"
  by (cases c) auto

lemma is_red_iff: "is_red t \<longleftrightarrow> (\<exists>l x r. t = Node Red l x r)"
  by (cases t rule: is_red.cases) auto

lemma not_is_red_cases:
  "\<not> is_red t \<Longrightarrow> (t = Leaf \<Longrightarrow> P) \<Longrightarrow> (\<And>l x r. t = Node Black l x r \<Longrightarrow> P) \<Longrightarrow> P"
  by (cases t) (auto split: if_splits)

lemma inorder_paint [simp]: "inorder (paint c t) = inorder t"
  by (cases t) auto

lemma rb_paint_Black [simp]: "rb t \<Longrightarrow> rb (paint Black t)"
  by (cases t) auto

lemma not_red_paint_Black [simp]: "\<not> is_red (paint Black t)"
  by (cases t) auto

lemma paint_Black_id: "\<not> is_red t \<Longrightarrow> paint Black t = t"
  by (cases t) auto

lemma bheight_paint_Black: "bheight (paint Black t) = bheight t + (if is_red t then 1 else 0)"
  by (cases t) auto

lemma inorder_fill: "inorder (fill k t) = (case k of LeftOf c y r \<Rightarrow> inorder t @ y # inorder r
    | RightOf c y l \<Rightarrow> inorder l @ y # inorder t)"
  by (cases k) auto

lemma inorder_plug [simp]: "inorder (plug t p) = before p @ inorder t @ after p"
  by (induction p arbitrary: t rule: before.induct) auto

lemma before_append [simp]: "before (p @ q) = before q @ before p"
  by (induction p rule: before.induct) auto

lemma after_append [simp]: "after (p @ q) = after p @ after q"
  by (induction p rule: after.induct) auto

lemma plug_append [simp]: "plug t (p @ q) = plug (plug t p) q"
  by (induction p arbitrary: t) auto

text \<open>Rebalancing never adds or drops an element, whatever the colours are.\<close>

lemma rotate_inorder:
  "rotate_left t = Inr u \<Longrightarrow> inorder u = inorder t"
  "rotate_right t = Inr u \<Longrightarrow> inorder u = inorder t"
  by (cases t rule: rotate_left.cases; auto) (cases t rule: rotate_right.cases; auto)

lemma break_left_inorder: "break_left c t y s = Inr u \<Longrightarrow> inorder u = inorder t @ y # inorder s"
  by (cases s) auto

lemma break_right_inorder: "break_right c t y s = Inr u \<Longrightarrow> inorder u = inorder s @ y # inorder t"
  by (cases s) auto

abbreviation either_inorder :: "'a vrbt + 'a vrbt \<Rightarrow> 'a list" where
  "either_inorder o' \<equiv> (case o' of Inl u \<Rightarrow> inorder u | Inr u \<Rightarrow> inorder u)"

lemma remove_fix_left_inorder:
  "remove_fix_left c t y sib = Inr o' \<Longrightarrow> either_inorder o' = inorder t @ y # inorder sib"
  by (cases sib) (auto simp: res_simps dest!: rotate_inorder break_left_inorder split: if_splits)

lemma remove_fix_right_inorder:
  "remove_fix_right c t y sib = Inr o' \<Longrightarrow> either_inorder o' = inorder sib @ y # inorder t"
  by (cases sib) (auto simp: res_simps dest!: rotate_inorder break_right_inorder split: if_splits)

lemma remove_step_inorder:
  "remove_step t k p = Inr (o', p') \<Longrightarrow>
     before p' @ either_inorder o' @ after p' = before (k # p) @ inorder t @ after (k # p)"
  by (induction t k p rule: remove_step.induct)
     (auto simp: res_simps simp del: remove_fix_left.simps remove_fix_right.simps
       dest!: remove_fix_left_inorder remove_fix_right_inorder)

lemma remove_color_inorder:
  "remove_color t p = Inr t' \<Longrightarrow> inorder t' = before p @ inorder t @ after p"
proof (induction t p rule: remove_color.induct)
  case (2 t k p)
  show ?case
  proof (cases "is_red t")
    case False
    with 2(2) obtain o' p' where r: "remove_step t k p = Inr (o', p')"
      by (cases "remove_step t k p") auto
    then show ?thesis
      using 2 False remove_step_inorder[OF r] by (cases o') auto
  qed (use 2 in \<open>auto simp del: plug.simps before.simps after.simps\<close>)
qed auto

lemma rb_tree_plug: "loc_ok (t, p) \<Longrightarrow> rb_tree (plug t p)"
proof (induction p arbitrary: t)
  case Nil
  then show ?case by (simp add: rb_tree_def)
next
  case (Cons k p)
  have "loc_ok (fill k t, p)"
    using Cons.prems by (cases k) auto
  then show ?case using Cons.IH by simp
qed

lemma insert_color_correct:
  assumes "rb t" "is_red t" "path_ok p (bheight t)"
  shows "\<exists>t'. insert_color t p = Inr t' \<and> rb_tree t' \<and> inorder t' = before p @ inorder t @ after p"
  using assms
proof (induction t p rule: insert_color.induct)
  case (1 t)
  then show ?case by (auto simp: rb_tree_def)
next
  case (2 t k)
  have "rb_tree (plug t [k])"
    by (rule rb_tree_plug) (use 2 in \<open>auto split: if_splits\<close>)
  then show ?case
    using 2 by (cases k) (auto simp: rb_tree_def paint_Black_id)
next
  case (3 t k g p)
  show ?case
  proof (cases "crumb_color k = Red")
    case False
    have "rb_tree (plug t (k # g # p))"
      by (rule rb_tree_plug) (use 3 False in \<open>auto split: if_splits\<close>)
    then show ?thesis
      using False by (auto simp: rb_tree_def paint_Black_id simp del: plug.simps)
  next
    case red: True
    show ?thesis
    proof (cases "is_red (uncle_of g)")
      case True
      let ?t = "fill (with_uncle (paint Black (uncle_of g)) Red g) (paint Black (fill k t))"
      have "rb ?t \<and> is_red ?t \<and> path_ok p (bheight ?t)"
        using 3(2-4) red True by (cases k; cases g) (auto simp: bheight_paint_Black)
      moreover have "before p @ inorder ?t @ after p
          = before (k # g # p) @ inorder t @ after (k # g # p)"
        by (cases k; cases g) auto
      ultimately show ?thesis
        using 3(1)[OF _ True] red True by auto
    next
      case False
      obtain tl x tr where t: "t = Node Red tl x tr"
        using 3(3) by (auto simp: is_red_iff)
      obtain u where u: "insert_rotate g k t = Inr u" "rb u" "\<not> is_red u"
          "bheight u = bheight t + 1"
          "before p @ inorder u @ after p = before (k # g # p) @ inorder t @ after (k # g # p)"
        using 3(2-4) red False by (cases k; cases g) (auto simp: t)
      have "rb_tree (plug u p)"
        by (rule rb_tree_plug) (use 3(4) red u in \<open>auto simp: t split: if_splits\<close>)
      then show ?thesis
        using red False u by (auto simp: rb_tree_def paint_Black_id)
    qed
  qed
qed

text \<open>
  The deficit lemma for removal: the hole at \<open>p\<close> wants one black node more than \<open>t\<close> has.
\<close>

definition fix_result :: "color \<Rightarrow> nat \<Rightarrow> 'a list \<Rightarrow> ('a vrbt + 'a vrbt) \<Rightarrow> bool" where
  "fix_result c h xs o' \<longleftrightarrow> (case o' of
     Inl u \<Rightarrow> rb (paint Black u) \<and> bheight u + 1 = h \<and> inorder u = xs
   | Inr u \<Rightarrow> rb u \<and> bheight u = h \<and> is_red u = (c = Red) \<and> inorder u = xs)"

lemma remove_fix_left_correct:
  assumes "rb t" "\<not> is_red t" "rb sib" "\<not> is_red sib" "bheight sib = bheight t + 1"
  shows "\<exists>o'. remove_fix_left c t y sib = Inr o'
    \<and> fix_result c (bheight t + 1 + (if c = Black then 1 else 0)) (inorder t @ y # inorder sib) o'"
  using assms(4)
proof (rule not_is_red_cases)
  fix sl s sr
  assume sib: "sib = Node Black sl s sr"
  show ?thesis
    using assms unfolding sib black_or_null_def fix_result_def
    by (cases "is_red sl"; cases "is_red sr")
       (auto simp: is_red_iff bheight_paint_Black paint_Black_id black_or_null_def)
qed (use assms in simp)

lemma remove_fix_right_correct:
  assumes "rb t" "\<not> is_red t" "rb sib" "\<not> is_red sib" "bheight sib = bheight t + 1"
  shows "\<exists>o'. remove_fix_right c t y sib = Inr o'
    \<and> fix_result c (bheight t + 1 + (if c = Black then 1 else 0)) (inorder sib @ y # inorder t) o'"
  using assms(4)
proof (rule not_is_red_cases)
  fix sl s sr
  assume sib: "sib = Node Black sl s sr"
  show ?thesis
    using assms unfolding sib black_or_null_def fix_result_def
    by (cases "is_red sl"; cases "is_red sr")
       (auto simp: is_red_iff bheight_paint_Black paint_Black_id black_or_null_def)
qed (use assms in simp)

text \<open>What one loop turn keeps: the elements, and the deficit or the balance of the whole.\<close>

definition step_result :: "'a list \<Rightarrow> ('a vrbt + 'a vrbt) \<times> 'a path \<Rightarrow> bool" where
  "step_result xs r \<longleftrightarrow> (case r of
     (Inl u, p) \<Rightarrow> rb (paint Black u) \<and> path_ok p (bheight u + 1) \<and> before p @ inorder u @ after p = xs
   | (Inr u, p) \<Rightarrow> loc_ok (u, p) \<and> before p @ inorder u @ after p = xs)"

lemma fix_to_step:
  assumes "fix_result c h ys o'" and "path_ok p h" and "c = Red \<Longrightarrow> red_ok p"
    and "before p @ ys @ after p = xs"
  shows "step_result xs (o', p)"
  using assms by (cases o') (auto simp: fix_result_def step_result_def)

lemma remove_step_correct:
  assumes "rb t" "\<not> is_red t" "path_ok (k # p) (bheight t + 1)"
  shows "\<exists>r. remove_step t k p = Inr r \<and> step_result (before (k # p) @ inorder t @ after (k # p)) r"
proof (cases k)
  case k: (LeftOf c y sib)
  show ?thesis
  proof (cases "is_red sib")
    case True
    then obtain sl s sr where sib: "sib = Node Red sl s sr"
      by (auto simp: is_red_iff)
    obtain o' where o': "remove_fix_left Red t y sl = Inr o'"
        "fix_result Red (bheight t + 1) (inorder t @ y # inorder sl) o'"
      using remove_fix_left_correct[of t sl Red y] assms by (auto simp: k sib)
    then show ?thesis
      using assms by (auto simp: k sib intro!: fix_to_step[where c = Red])
  next
    case False
    obtain o' where o': "remove_fix_left c t y sib = Inr o'"
        "fix_result c (bheight t + 1 + (if c = Black then 1 else 0)) (inorder t @ y # inorder sib) o'"
      using remove_fix_left_correct[of t sib c y] assms False by (auto simp: k)
    then have "remove_step t k p = Inr (o', p)"
      using False by (cases sib rule: is_red.cases) (auto simp: k)
    moreover have "step_result (before (k # p) @ inorder t @ after (k # p)) (o', p)"
      by (rule fix_to_step[OF o'(2)]) (use assms in \<open>auto simp: k split: if_splits\<close>)
    ultimately show ?thesis by blast
  qed
next
  case k: (RightOf c y sib)
  show ?thesis
  proof (cases "is_red sib")
    case True
    then obtain sl s sr where sib: "sib = Node Red sl s sr"
      by (auto simp: is_red_iff)
    obtain o' where o': "remove_fix_right Red t y sr = Inr o'"
        "fix_result Red (bheight t + 1) (inorder sr @ y # inorder t) o'"
      using remove_fix_right_correct[of t sr Red y] assms by (auto simp: k sib)
    then show ?thesis
      using assms by (auto simp: k sib intro!: fix_to_step[where c = Red])
  next
    case False
    obtain o' where o': "remove_fix_right c t y sib = Inr o'"
        "fix_result c (bheight t + 1 + (if c = Black then 1 else 0)) (inorder sib @ y # inorder t) o'"
      using remove_fix_right_correct[of t sib c y] assms False by (auto simp: k)
    then have "remove_step t k p = Inr (o', p)"
      using False by (cases sib rule: is_red.cases) (auto simp: k)
    moreover have "step_result (before (k # p) @ inorder t @ after (k # p)) (o', p)"
      by (rule fix_to_step[OF o'(2)]) (use assms in \<open>auto simp: k split: if_splits\<close>)
    ultimately show ?thesis by blast
  qed
qed

lemma remove_color_correct:
  assumes "rb (paint Black t)" "path_ok p (bheight t + 1)"
  shows "\<exists>t'. remove_color t p = Inr t' \<and> rb_tree t' \<and> inorder t' = before p @ inorder t @ after p"
  using assms
proof (induction t p rule: remove_color.induct)
  case (1 t)
  then show ?case by (auto simp: rb_tree_def)
next
  case (2 t k p)
  show ?case
  proof (cases "is_red t")
    case True
    have "rb_tree (plug (paint Black t) (k # p))"
      by (rule rb_tree_plug) (use 2(2,3) True in \<open>auto simp: bheight_paint_Black\<close>)
    then show ?thesis
      using True by (auto simp del: plug.simps before.simps after.simps)
  next
    case False
    obtain r where r: "remove_step t k p = Inr r"
        "step_result (before (k # p) @ inorder t @ after (k # p)) r"
      using remove_step_correct[OF _ False 2(3)] 2(2) False by (auto simp: paint_Black_id)
    obtain o' p' where rp: "r = (o', p')" by (cases r)
    show ?thesis
    proof (cases o')
      case (Inl u)
      then show ?thesis
        using 2(1)[OF False r(1)[unfolded rp Inl]] r False by (auto simp: rp step_result_def)
    next
      case (Inr u)
      then have "rb_tree (plug u p')"
        using r rb_tree_plug by (auto simp: rp step_result_def simp del: loc_ok.simps)
      then show ?thesis
        using Inr r False by (auto simp: rp step_result_def rb_tree_def paint_Black_id)
    qed
  qed
qed

section \<open>Correctness for a comparison function\<close>

text \<open>
  The macros are generic in \<open>cmp\<close>; what they need of it is stated once. The components
  interpret this interface with \<open>variablecmp\<close> and \<open>regexpcmp\<close>.
\<close>

definition ordered :: "('a \<Rightarrow> 'a \<Rightarrow> int) \<Rightarrow> 'a list \<Rightarrow> bool" where
  "ordered cmp xs = sorted_wrt (\<lambda>x y. cmp x y < 0) xs"

definition vrbt_ok :: "('a \<Rightarrow> 'a \<Rightarrow> int) \<Rightarrow> 'a vrbt \<Rightarrow> bool" where
  "vrbt_ok cmp t \<longleftrightarrow> rb_tree t \<and> ordered cmp (inorder t)"

lemma ordered_Nil [simp]: "ordered cmp []"
  by (simp add: ordered_def)

lemma ordered_Cons [simp]: "ordered cmp (x # xs) \<longleftrightarrow> (\<forall>y \<in> set xs. cmp x y < 0) \<and> ordered cmp xs"
  by (simp add: ordered_def)

lemma ordered_append [simp]:
  "ordered cmp (xs @ ys) \<longleftrightarrow> ordered cmp xs \<and> ordered cmp ys \<and> (\<forall>x \<in> set xs. \<forall>y \<in> set ys. cmp x y < 0)"
  by (simp add: ordered_def sorted_wrt_append)

lemma ordered_filter: "ordered cmp xs \<Longrightarrow> ordered cmp (filter P xs)"
  by (simp add: ordered_def sorted_wrt_filter)

lemma vrbt_ok_Leaf [simp]: "vrbt_ok cmp Leaf"
  by (simp add: vrbt_ok_def)

lemma leftmost_inorder:
  "leftmost c l y r p = (t', p') \<Longrightarrow>
     before p' @ inorder t' @ after p' = before p @ inorder l @ y # inorder r @ after p"
  by (induction c l y r p rule: leftmost.induct) auto

lemma leftmost_path:
  "leftmost c l y r p = (\<lambda>(t', q). (t', q @ p)) (leftmost c l y r [])"
proof (induction l arbitrary: c y r p)
  case Leaf
  then show ?case by simp
next
  case (Node d l1 x m)
  show ?case
    by (simp only: leftmost.simps, subst Node(1), subst (2) Node(1)) (simp split: prod.split)
qed

lemma leftmost_shape:
  "leftmost c l y r p = (t', p') \<Longrightarrow> \<exists>d z zr. t' = Node d Leaf z zr"
  by (induction c l y r p rule: leftmost.induct) auto

lemma leftmost_loc_ok:
  "loc_ok (Node c l y r, p) \<Longrightarrow> loc_ok (leftmost c l y r p)"
proof (induction c l y r p rule: leftmost.induct)
  case (2 c d l x m y r p)
  have "loc_ok (Node d l x m, LeftOf c y r # p)"
    using 2(2) by auto
  from 2(1)[OF this] show ?case by (simp only: leftmost.simps)
qed (simp only: leftmost.simps)

lemma leftmost_before: "leftmost c l y r p = (t', p') \<Longrightarrow> before p' = before p"
  by (induction c l y r p rule: leftmost.induct) auto

lemma descend_inorder:
  "vrbt_descend cmp x t p = (t', p') \<Longrightarrow>
     before p' @ inorder t' @ after p' = before p @ inorder t @ after p"
  by (induction cmp x t p rule: vrbt_descend.induct) (auto split: if_splits)

lemma descend_loc_ok:
  "loc_ok (t, p) \<Longrightarrow> loc_ok (vrbt_descend cmp x t p)"
proof (induction cmp x t p rule: vrbt_descend.induct)
  case (2 cmp x c l y r p)
  have "loc_ok (l, LeftOf c y r # p)" "loc_ok (r, RightOf c y l # p)"
    using 2(3) by auto
  then show ?case using 2 by (simp del: loc_ok.simps)
qed simp

lemma rb_tree_loc_ok: "rb_tree t \<Longrightarrow> loc_ok (t, [])"
  by (simp add: rb_tree_def)

lemma descend_root_ok: "rb_tree t \<Longrightarrow> vrbt_descend cmp x t [] = (t', p') \<Longrightarrow> loc_ok (t', p')"
  using descend_loc_ok[OF rb_tree_loc_ok] by metis

text \<open>Unlinking at any node of a balanced tree keeps it balanced and drops that node only.\<close>

lemma unlink_correct:
  assumes "rb child" "path_ok p (bheight child + (if c = Black then 1 else 0))"
    and "c = Red \<Longrightarrow> \<not> is_red child"
  shows "\<exists>t'. unlink c child p = Inr t' \<and> rb_tree t' \<and> inorder t' = before p @ inorder child @ after p"
proof (cases c)
  case Black
  then show ?thesis
    using remove_color_correct[of child p] assms by (auto simp: unlink_def)
next
  case Red
  then have "rb_tree (plug child p)"
    using assms by (intro rb_tree_plug) auto
  then show ?thesis
    by (simp add: unlink_def Red)
qed

lemma red_ok_swap: "red_ok (q @ RightOf c s l # p) = red_ok (q @ RightOf c y l # p)"
  by (cases q) auto

lemma unlink_inorder: "unlink c child p = Inr t' \<Longrightarrow> inorder t' = before p @ inorder child @ after p"
  by (auto simp: unlink_def split: if_splits dest: remove_color_inorder)

lemma remove_at_length:
  assumes "remove_at (t, p) = Inr t'"
  shows "Suc (length (inorder t')) = length (before p @ inorder t @ after p)"
proof (cases t)
  case Leaf
  then show ?thesis using assms by simp
next
  case t: (Node c l y r)
  show ?thesis
  proof (cases "l = Leaf \<or> r = Leaf")
    case True
    then have "unlink c (if l = Leaf then r else l) p = Inr t'"
      using assms t by (cases l; cases r) auto
    from unlink_inorder[OF this] show ?thesis
      using True t by auto
  next
    case False
    then obtain d rl x rr where r: "r = Node d rl x rr"
      by (cases r) auto
    obtain e s child q where lm: "leftmost d rl x rr [] = (Node e Leaf s child, q)"
      using leftmost_shape by (metis surj_pair)
    have "unlink e child (q @ RightOf c s l # p) = Inr t'"
      using assms False lm by (cases l) (auto simp: t r)
    from unlink_inorder[OF this] have "inorder t' = before p @ inorder l @ (s # before q) @ inorder child @ after q @ after p"
      by simp
    moreover have "length (inorder r) = length (s # inorder child @ after q)"
      using leftmost_inorder[OF lm] leftmost_before[OF lm] by (simp add: r)
    ultimately show ?thesis
      using leftmost_before[OF lm] by (simp add: t)
  qed
qed

text \<open>A removal that returns has taken one node out, so loops of removals end.\<close>

lemma remove_shrinks:
  assumes "vrbt_remove cmp x t = Inr t'"
  shows "Suc (length (inorder t')) = length (inorder t)"
proof -
  obtain t1 p where d: "vrbt_descend cmp x t [] = (t1, p)"
    by (cases "vrbt_descend cmp x t []") auto
  show ?thesis
    using assms remove_at_length[of t1 p t'] descend_inorder[OF d] by (simp add: vrbt_remove_def d)
qed

lemma path_ok_swap:
  "path_ok (q @ RightOf c s l # p) h = path_ok (q @ RightOf c y l # p) h"
  by (induction q arbitrary: h) (simp_all add: red_ok_swap[where s = s and y = y])

lemma remove_at_correct:
  assumes "loc_ok (Node c l y r, p)"
  shows "\<exists>t'. remove_at (Node c l y r, p) = Inr t' \<and> rb_tree t'
    \<and> inorder t' = before p @ inorder l @ inorder r @ after p"
proof (cases l)
  case Leaf
  then show ?thesis
    using unlink_correct[of r p c] assms by auto
next
  case l: (Node lc ll lx lr)
  show ?thesis
  proof (cases r)
    case Leaf
    then show ?thesis
      using unlink_correct[of l p c] assms by (auto simp: l)
  next
    case r: (Node d rl x rr)
    obtain e s child q where lm: "leftmost d rl x rr [] = (Node e Leaf s child, q)"
      using leftmost_shape by (metis surj_pair)
    let ?k = "\<lambda>z. RightOf c z l # p"
    have "leftmost d rl x rr (?k y) = (Node e Leaf s child, q @ ?k y)"
      using leftmost_path[of d rl x rr "?k y"] lm by simp
    moreover have "loc_ok (Node d rl x rr, ?k y)"
      using assms by (auto simp: r)
    ultimately have lo: "loc_ok (Node e Leaf s child, q @ ?k y)"
      using leftmost_loc_ok by metis
    have "path_ok (q @ ?k s) (bheight child + (if e = Black then 1 else 0))"
      using lo path_ok_swap[of q c s l p _ y] by auto
    then obtain t' where t': "unlink e child (q @ ?k s) = Inr t'" "rb_tree t'"
        "inorder t' = before (q @ ?k s) @ inorder child @ after (q @ ?k s)"
      using unlink_correct[of child "q @ ?k s" e] lo by (auto split: if_splits)
    have "before q = []" "s # inorder child @ after q = inorder r"
      using leftmost_before[OF lm] leftmost_inorder[OF lm] by (simp_all add: r)
    moreover have "remove_at (Node c l y r, p) = unlink e child (q @ ?k s)"
      by (simp add: l r lm)
    ultimately show ?thesis using t' by auto
  qed
qed

locale comparator =
  fixes cmp :: "'a \<Rightarrow> 'a \<Rightarrow> int"
  assumes cmp_antisym: "cmp x y > 0 \<longleftrightarrow> cmp y x < 0"
    and cmp_trans: "cmp x y < 0 \<Longrightarrow> cmp y z < 0 \<Longrightarrow> cmp x z < 0"
    and cmp_equal: "cmp x y = 0 \<Longrightarrow> cmp x z < 0 \<longleftrightarrow> cmp y z < 0"
begin

lemma cmp_refl: "cmp x x = 0"
  using cmp_antisym[of x x] by linarith

lemma cmp_sym: "cmp x y = 0 \<Longrightarrow> cmp y x = 0"
  using cmp_antisym[of x y] cmp_antisym[of y x] by linarith

lemma cmp_equal_right:
  assumes "cmp x y = 0"
  shows "cmp z x < 0 \<longleftrightarrow> cmp z y < 0"
proof -
  note facts = assms cmp_equal[of x y z] cmp_equal[of z x y] cmp_equal[of z y x] cmp_sym[OF assms]
    cmp_antisym[of x z] cmp_antisym[of z x] cmp_antisym[of z y] cmp_antisym[of y z]
  show ?thesis
    by (cases "cmp z x" "0::int" rule: linorder_cases; cases "cmp z y" "0::int" rule: linorder_cases)
       (use facts in auto)
qed

text \<open>Where the descent for \<open>x\<close> stands: everything before is smaller, everything after larger.\<close>

definition around :: "'a \<Rightarrow> 'a path \<Rightarrow> bool" where
  "around x p \<longleftrightarrow> (\<forall>y \<in> set (before p). cmp y x < 0) \<and> (\<forall>y \<in> set (after p). cmp x y < 0)"

lemma descend_around:
  assumes "ordered cmp (inorder t)" "around x p" "vrbt_descend cmp x t p = (t', p')"
  shows "around x p' \<and> (t' = Leaf \<or> (\<exists>c l y r. t' = Node c l y r \<and> cmp x y = 0 \<and> y \<in> set (inorder t)))"
  using assms
proof (induction t arbitrary: p)
  case Leaf
  then show ?case by auto
next
  case (Node c l y r)
  consider "cmp x y < 0" | "cmp y x < 0" "\<not> cmp x y < 0" "cmp x y > 0" | "cmp x y = 0"
    using cmp_antisym by (metis linorder_neqE_linordered_idom order_less_asym)
  then show ?case
  proof cases
    case 1
    have "\<forall>z \<in> set (inorder r). cmp x z < 0"
      using Node.prems(1) cmp_trans[OF 1] by simp
    then have "around x (LeftOf c y r # p)"
      using Node.prems(2) 1 by (auto simp: around_def)
    from Node.IH(1)[OF _ this] show ?thesis using Node.prems(1,3) 1 by fastforce
  next
    case 2
    have "\<forall>z \<in> set (inorder l). cmp z x < 0"
      using Node.prems(1) cmp_trans[OF _ 2(1)] by simp
    then have "around x (RightOf c y l # p)"
      using Node.prems(2) 2(1) by (auto simp: around_def)
    from Node.IH(2)[OF _ this] show ?thesis using Node.prems(1,3) 2 by fastforce
  next
    case 3
    then show ?thesis using Node.prems by auto
  qed
qed

lemma cmp_nz: "cmp y x < 0 \<Longrightarrow> cmp x y \<noteq> 0"
  using cmp_antisym[of x y] by linarith

lemma cmp_apart: "cmp x y = 0 \<Longrightarrow> cmp v y < 0 \<or> cmp y v < 0 \<Longrightarrow> cmp x v \<noteq> 0"
  using cmp_equal_right[of x y v] cmp_equal[of x y v] cmp_nz[of v x] by auto

lemma ordered_total:
  "ordered cmp xs \<Longrightarrow> y \<in> set xs \<Longrightarrow> z \<in> set xs \<Longrightarrow> y = z \<or> cmp y z < 0 \<or> cmp z y < 0"
  by (induction xs) auto

lemma find_correct:
  assumes "ordered cmp (inorder t)"
  shows "vrbt_find cmp x t = List.find (\<lambda>y. cmp x y = 0) (inorder t)"
proof -
  have find_append: "List.find P (xs @ ys) = (case List.find P xs of None \<Rightarrow> List.find P ys | Some z \<Rightarrow> Some z)"
    for P :: "'a \<Rightarrow> bool" and xs ys
    by (induction xs) auto
  show ?thesis
    using assms
  proof (induction t)
    case (Node c l y r)
    have none: "List.find (\<lambda>z. cmp x z = 0) zs = None" if "\<forall>z \<in> set zs. cmp x z \<noteq> 0" for zs
      using that by (simp add: find_None_iff)
    consider "cmp x y < 0" | "cmp y x < 0" "cmp x y > 0" | "cmp x y = 0"
      using cmp_antisym by (metis linorder_neqE_linordered_idom)
    then show ?case
    proof cases
      case 1
      then have "\<forall>z \<in> set (inorder r). cmp x z \<noteq> 0"
        using Node.prems cmp_trans[of x y] by fastforce
      then show ?thesis using Node 1 by (auto simp: find_append none split: option.split)
    next
      case 2
      then have "\<forall>z \<in> set (inorder l). cmp x z \<noteq> 0"
        using Node.prems cmp_trans[of _ y x] cmp_nz by auto
      then show ?thesis using Node 2 by (auto simp: find_append none split: option.split)
    next
      case 3
      then have "\<forall>z \<in> set (inorder l). cmp x z \<noteq> 0"
        using Node.prems cmp_apart[of x y] by auto
      then show ?thesis using Node 3 by (auto simp: find_append none split: option.split)
    qed
  qed simp
qed

lemma find_eq_Some_iff:
  assumes "vrbt_ok cmp t"
  shows "vrbt_find cmp x t = Some y \<longleftrightarrow> y \<in> set (inorder t) \<and> cmp x y = 0"
proof
  assume "vrbt_find cmp x t = Some y"
  then show "y \<in> set (inorder t) \<and> cmp x y = 0"
    using assms by (auto simp: find_correct vrbt_ok_def find_Some_iff)
next
  assume y: "y \<in> set (inorder t) \<and> cmp x y = 0"
  have ord: "ordered cmp (inorder t)"
    using assms by (simp add: vrbt_ok_def)
  obtain z where "List.find (\<lambda>y. cmp x y = 0) (inorder t) = Some z" "z \<in> set (inorder t)" "cmp x z = 0"
    using y by (cases "List.find (\<lambda>y. cmp x y = 0) (inorder t)")
      (auto simp: find_None_iff find_Some_iff)
  then show "vrbt_find cmp x t = Some y"
    using ordered_total[OF ord, of z y] cmp_apart[of x z y] y by (auto simp: find_correct[OF ord])
qed

lemma find_eq_None_iff:
  assumes "vrbt_ok cmp t"
  shows "vrbt_find cmp x t = None \<longleftrightarrow> (\<forall>y \<in> set (inorder t). cmp x y \<noteq> 0)"
  using assms by (auto simp: find_correct vrbt_ok_def find_None_iff)

lemma filter_around:
  assumes "around x p"
  shows "filter (\<lambda>y. cmp y x < 0) (before p @ after p) = before p"
    and "filter (\<lambda>y. cmp x y < 0) (before p @ after p) = after p"
proof -
  have no: "\<not> cmp x y < 0" if "cmp y x < 0" for y
    using that cmp_antisym[of x y] by linarith
  show "filter (\<lambda>y. cmp y x < 0) (before p @ after p) = before p"
    using assms no unfolding around_def
    by (auto simp: filter_id_conv filter_empty_conv)
  show "filter (\<lambda>y. cmp x y < 0) (before p @ after p) = after p"
    using assms no unfolding around_def
    by (auto simp: filter_id_conv filter_empty_conv)
qed

lemma around_nz: "around x p \<Longrightarrow> y \<in> set (before p @ after p) \<Longrightarrow> cmp x y \<noteq> 0"
  using cmp_nz by (auto simp: around_def)

lemma around_Nil [simp]: "around x []"
  by (simp add: around_def)

lemma insert_new:
  assumes "vrbt_ok cmp t" "\<forall>y \<in> set (inorder t). cmp x y \<noteq> 0"
  shows "\<exists>t'. vrbt_insert cmp x t = Inr (None, t') \<and> vrbt_ok cmp t'
    \<and> inorder t' = filter (\<lambda>y. cmp y x < 0) (inorder t) @ x # filter (\<lambda>y. cmp x y < 0) (inorder t)"
proof -
  obtain t1 p where d: "vrbt_descend cmp x t [] = (t1, p)"
    by (cases "vrbt_descend cmp x t []") auto
  have ar: "around x p" and t1: "t1 = Leaf"
    using descend_around[OF _ around_Nil d] assms by (auto simp: vrbt_ok_def)
  have xs: "inorder t = before p @ after p"
    using descend_inorder[OF d] t1 by simp
  have "path_ok p 0"
    using descend_root_ok[OF _ d] assms t1 by (auto simp: vrbt_ok_def)
  then obtain t' where t': "insert_color (Node Red Leaf x Leaf) p = Inr t'" "rb_tree t'"
      "inorder t' = before p @ x # after p"
    using insert_color_correct[of "Node Red Leaf x Leaf" p] by auto
  have "ordered cmp (before p @ x # after p)"
    using assms(1) ar unfolding vrbt_ok_def xs around_def by auto
  then show ?thesis
    using t' d t1 filter_around[OF ar] unfolding vrbt_ok_def vrbt_insert_def xs by auto
qed

lemma insert_existing:
  assumes "vrbt_ok cmp t" "y \<in> set (inorder t)" "cmp x y = 0"
  shows "vrbt_insert cmp x t = Inr (Some y, t)"
proof -
  obtain t1 p where d: "vrbt_descend cmp x t [] = (t1, p)"
    by (cases "vrbt_descend cmp x t []") auto
  note ar = descend_around[OF _ around_Nil d]
  have "t1 \<noteq> Leaf"
  proof
    assume "t1 = Leaf"
    then have "inorder t = before p @ after p"
      using descend_inorder[OF d] by simp
    then show False
      using around_nz[of x p y] ar assms by (auto simp: vrbt_ok_def)
  qed
  then obtain c l z r where t1: "t1 = Node c l z r" "cmp x z = 0" "z \<in> set (inorder t)"
    using ar assms by (auto simp: vrbt_ok_def)
  then have "z = y"
    using find_eq_Some_iff[OF assms(1), of x] assms by (metis option.inject)
  then show ?thesis
    using d t1 by (simp add: vrbt_insert_def)
qed

lemma assign_correct:
  assumes "vrbt_ok cmp t" and f: "\<And>y z. cmp (f y) z < 0 \<longleftrightarrow> cmp y z < 0" "\<And>y z. cmp z (f y) < 0 \<longleftrightarrow> cmp z y < 0"
  shows "vrbt_ok cmp (vrbt_assign cmp x f t)
    \<and> inorder (vrbt_assign cmp x f t) = map (\<lambda>y. if cmp x y = 0 then f y else y) (inorder t)"
proof -
  obtain t1 p where d: "vrbt_descend cmp x t [] = (t1, p)"
    by (cases "vrbt_descend cmp x t []") auto
  have ar: "around x p" "t1 = Leaf \<or> (\<exists>c l y r. t1 = Node c l y r \<and> cmp x y = 0)"
    using descend_around[OF _ around_Nil d] assms(1) by (auto simp: vrbt_ok_def)
  show ?thesis
  proof (cases t1)
    case Leaf
    have "inorder t = before p @ after p"
      using descend_inorder[OF d] Leaf by simp
    then have "map (\<lambda>y. if cmp x y = 0 then f y else y) (inorder t) = inorder t"
      using around_nz[OF ar(1)] by (intro map_idI) auto
    then show ?thesis
      using assms(1) Leaf d by (simp add: vrbt_assign_def)
  next
    case (Node c l y r)
    have y: "cmp x y = 0"
      using ar(2) Node by auto
    have xs: "inorder t = before p @ inorder l @ y # inorder r @ after p"
      using descend_inorder[OF d] Node by simp
    have ord: "ordered cmp (before p @ inorder l @ y # inorder r @ after p)"
      using assms(1) by (simp add: vrbt_ok_def xs)
    have rest: "map (\<lambda>y. if cmp x y = 0 then f y else y) (inorder t)
        = before p @ inorder l @ f y # inorder r @ after p"
      using ord cmp_apart[OF y] y unfolding xs by (auto intro!: map_idI)
    have "loc_ok (Node c l (f y) r, p)"
      using descend_root_ok[OF _ d] assms(1) Node by (auto simp: vrbt_ok_def)
    then have "rb_tree (plug (Node c l (f y) r) p)"
      by (rule rb_tree_plug)
    moreover have "ordered cmp (before p @ inorder l @ f y # inorder r @ after p)"
      using ord f by auto
    ultimately show ?thesis
      using rest d Node by (simp add: vrbt_assign_def vrbt_ok_def)
  qed
qed

lemma remove_present:
  assumes "vrbt_ok cmp t" "y \<in> set (inorder t)" "cmp x y = 0"
  shows "\<exists>t'. vrbt_remove cmp x t = Inr t' \<and> vrbt_ok cmp t'
    \<and> inorder t' = filter (\<lambda>y. cmp x y \<noteq> 0) (inorder t)"
proof -
  obtain t1 p where d: "vrbt_descend cmp x t [] = (t1, p)"
    by (cases "vrbt_descend cmp x t []") auto
  note ar = descend_around[OF _ around_Nil d]
  have "t1 \<noteq> Leaf"
    using insert_existing[OF assms] d
    by (auto simp: vrbt_insert_def res_simps)
  then obtain c l z r where t1: "t1 = Node c l z r" "cmp x z = 0"
    using ar assms by (auto simp: vrbt_ok_def)
  have xs: "inorder t = before p @ inorder l @ z # inorder r @ after p"
    using descend_inorder[OF d] t1 by simp
  have "loc_ok (Node c l z r, p)"
    using descend_root_ok[OF _ d] assms(1) t1(1) by (simp add: vrbt_ok_def del: loc_ok.simps)
  then obtain t' where t': "remove_at (Node c l z r, p) = Inr t'" "rb_tree t'"
      "inorder t' = before p @ inorder l @ inorder r @ after p"
    using remove_at_correct[of c l z r p] by auto
  have ord: "ordered cmp (before p @ inorder l @ z # inorder r @ after p)"
    using assms(1) by (simp add: vrbt_ok_def xs)
  have lt: "cmp x v \<noteq> 0" if "cmp v z < 0 \<or> cmp z v < 0" for v
    using that cmp_apart[OF t1(2)] by blast
  have "filter (\<lambda>y. cmp x y \<noteq> 0) (inorder t) = inorder t'"
    using ord lt t1(2) unfolding xs t' by (auto simp: filter_id_conv)
  then show ?thesis
    using t' ord d t1 by (auto simp: vrbt_ok_def vrbt_remove_def)
qed

end

section \<open>Traversal\<close>

text \<open>What \<open>VRBT_NEXT\<close> has still to visit from a node, the node included.\<close>

fun loc_rest :: "'a loc \<Rightarrow> 'a list" where
  "loc_rest (Leaf, p) = after p"
| "loc_rest (Node c l x r, p) = x # inorder r @ after p"

fun at_node :: "'a loc \<Rightarrow> bool" where
  "at_node (Leaf, p) = False"
| "at_node (Node c l x r, p) = True"

lemma leftmost_rest [simp]:
  "at_node (leftmost c l y r p)"
  "loc_rest (leftmost c l y r p) = inorder l @ y # inorder r @ after p"
  by (induction c l y r p rule: leftmost.induct) auto

lemma climb_rest:
  "case climb t p of None \<Rightarrow> after p = [] | Some l \<Rightarrow> at_node l \<and> loc_rest l = after p"
  by (induction t p rule: climb.induct) (auto split: option.splits)

lemma next_rest:
  "case vrbt_next (Node c l x r, p) of
     None \<Rightarrow> inorder r @ after p = []
   | Some l' \<Rightarrow> at_node l' \<and> loc_rest l' = inorder r @ after p"
  using climb_rest[where t = "Node c l x Leaf" and p = p]
  by (cases r) (auto split: option.splits)

text \<open>\<open>VRBT_FOREACH\<close>: the nodes in the order the loop variable takes them.\<close>

function (sequential) vrbt_foreach :: "'a loc option \<Rightarrow> 'a list" where
  "vrbt_foreach None = []"
| "vrbt_foreach (Some (Leaf, p)) = []"
| "vrbt_foreach (Some (Node c l x r, p)) = x # vrbt_foreach (vrbt_next (Node c l x r, p))"
  by pat_completeness auto
termination
proof (relation "measure (\<lambda>l. case l of None \<Rightarrow> 0 | Some l \<Rightarrow> length (loc_rest l))", goal_cases)
  case (2 c l x r p)
  show ?case
    using next_rest[where c = c and l = l and x = x and r = r and p = p] by (auto split: option.splits)
qed simp

lemma foreach_rest: "(case l of None \<Rightarrow> True | Some k \<Rightarrow> at_node k) \<Longrightarrow>
    vrbt_foreach l = (case l of None \<Rightarrow> [] | Some k \<Rightarrow> loc_rest k)"
proof (induction l rule: vrbt_foreach.induct)
  case (3 c l x r p)
  then show ?case
    using next_rest[where c = c and l = l and x = x and r = r and p = p] by (auto split: option.splits)
qed auto

lemma foreach_min: "vrbt_foreach (vrbt_min t) = inorder t"
  by (cases t) (auto simp: foreach_rest)

section \<open>Depth\<close>

fun vrbt_depth :: "'a vrbt \<Rightarrow> nat" where
  "vrbt_depth Leaf = 0"
| "vrbt_depth (Node c l x r) = Suc (max (vrbt_depth l) (vrbt_depth r))"

lemma rb_bheight_size: "rb t \<Longrightarrow> 2 ^ bheight t \<le> length (inorder t) + 1"
  by (induction t) auto

lemma rb_depth_bheight: "rb t \<Longrightarrow> vrbt_depth t \<le> 2 * bheight t + (if is_red t then 1 else 0)"
proof (induction t)
  case (Node c l x r)
  then show ?case by (cases c) (auto split: if_splits)
qed simp

lemma rb_tree_depth:
  assumes "rb_tree t"
  shows "2 ^ ((vrbt_depth t + 1) div 2) \<le> length (inorder t) + 1"
proof -
  have "(vrbt_depth t + 1) div 2 \<le> bheight t"
    using rb_depth_bheight[of t] assms by (simp add: rb_tree_def)
  then have "(2::nat) ^ ((vrbt_depth t + 1) div 2) \<le> 2 ^ bheight t"
    by (rule power_increasing) simp
  also have "\<dots> \<le> length (inorder t) + 1"
    using rb_bheight_size[of t] assms by (simp add: rb_tree_def)
  finally show ?thesis .
qed

end
