(* ===== verification/Varnish.thy ===== *)
theory Varnish
  imports Cfg_Prelude
begin

text \<open>
  What the components use of the Varnish runtime, which is not part of this repository: the
  call context \<open>VRT_CTX\<close>, its workspace and the body under construction in \<open>vcl_synth\<close> and
  \<open>vcl_backend_error\<close>. The workspace functions are a parameter \<open>ws_ops\<close> of every definition
  that allocates; \<open>ws_faithful\<close> is the documented behaviour of \<open>WS_Copy\<close> (a copy, or NULL).
  \<open>WS_Printf\<close> is \<open>WS_Copy\<close> of the formatted text; \<open>ws_alloc\<close> is \<open>WS_Alloc\<close> of so many bytes.
  \<open>VRT_fail\<close> is recorded in \<open>ctx_fails\<close>; \<open>ctx_http\<close> stands for the headers a component looks at. Messages sent with \<open>LOG\<close> are not modelled.
\<close>

datatype vcl_method = MET_SYNTH | MET_BACKEND_ERROR | MET_OTHER

datatype vrt_failure = Workspace_Overflow | Instance_Failed

record ('w, 'h) vrt_ctx =
  ctx_ws :: 'w
  ctx_method :: vcl_method
  ctx_vsb :: string
  ctx_fails :: "vrt_failure list"
  ctx_http :: 'h

record 'w ws_ops =
  ws_copy :: "'w \<Rightarrow> string \<Rightarrow> 'w \<times> string option"
  ws_alloc :: "'w \<Rightarrow> nat \<Rightarrow> 'w \<times> bool"
  ws_reserve_all :: "'w \<Rightarrow> nat"
  ws_release :: "'w \<Rightarrow> nat \<Rightarrow> 'w"

definition ws_faithful :: "'w ws_ops \<Rightarrow> bool" where
  "ws_faithful ops \<longleftrightarrow> (\<forall>w s w' r. ws_copy ops w s = (w', Some r) \<longrightarrow> r = s)"

text \<open>\<open>FAIL(ctx, ...)\<close>: \<open>VRT_fail\<close> and leave the function.\<close>

definition vrt_fail :: "vrt_failure \<Rightarrow> ('w, 'h) vrt_ctx \<Rightarrow> ('w, 'h) vrt_ctx" where
  "vrt_fail f ctx = ctx\<lparr>ctx_fails := ctx_fails ctx @ [f]\<rparr>"

text \<open>
  The idiom \<open>result = WS_Copy(ctx->ws, s, -1); if (result == NULL) FAIL_WS(ctx, NULL);\<close>.
\<close>

definition copy_or_fail :: "'w ws_ops \<Rightarrow> ('w, 'h) vrt_ctx \<Rightarrow> string \<Rightarrow> ('w, 'h) vrt_ctx \<times> string option" where
  "copy_or_fail ops ctx s =
     (case ws_copy ops (ctx_ws ctx) s of
        (w, Some r) \<Rightarrow> (ctx\<lparr>ctx_ws := w\<rparr>, Some r)
      | (w, None) \<Rightarrow> (vrt_fail Workspace_Overflow (ctx\<lparr>ctx_ws := w\<rparr>), None))"

text \<open>\<open>if (result != NULL) { ... }\<close> around that idiom: a NULL result is returned as it is.\<close>

definition copy_result :: "'w ws_ops \<Rightarrow> ('w, 'h) vrt_ctx \<Rightarrow> string option \<Rightarrow> ('w, 'h) vrt_ctx \<times> string option" where
  "copy_result ops ctx r = (case r of None \<Rightarrow> (ctx, None) | Some s \<Rightarrow> copy_or_fail ops ctx s)"

definition streams_to_body :: "('w, 'h) vrt_ctx \<Rightarrow> bool" where
  "streams_to_body ctx \<longleftrightarrow> ctx_method ctx = MET_SYNTH \<or> ctx_method ctx = MET_BACKEND_ERROR"

lemma copy_or_fail_cases:
  assumes "ws_faithful ops"
  obtains (copied) w where "copy_or_fail ops ctx s = (ctx\<lparr>ctx_ws := w\<rparr>, Some s)"
    | (overflow) w where "copy_or_fail ops ctx s = (vrt_fail Workspace_Overflow (ctx\<lparr>ctx_ws := w\<rparr>), None)"
proof (cases "ws_copy ops (ctx_ws ctx) s")
  case (Pair w r)
  show thesis
  proof (cases r)
    case None
    then show ?thesis using Pair overflow by (simp add: copy_or_fail_def)
  next
    case (Some r')
    then have "r' = s" using assms Pair by (auto simp: ws_faithful_def)
    then show ?thesis using Some Pair copied by (simp add: copy_or_fail_def)
  qed
qed

lemma copy_result_value:
  assumes "ws_faithful ops"
  shows "snd (copy_result ops ctx r) = None \<or> snd (copy_result ops ctx r) = r"
proof (cases r)
  case (Some s)
  then show ?thesis
    by (rule_tac copy_or_fail_cases[OF assms, of ctx s]) (auto simp: copy_result_def)
qed (simp add: copy_result_def)

text \<open>
  Regular expressions: \<open>VRE_compile\<close> (NULL for a text that is not one), \<open>VRT_re_match\<close> (whose
  string may be NULL) and \<open>VRT_regsub\<close> (all, string, regexp, substitution; NULL when the
  workspace overflows).
\<close>

record 're vre_ops =
  re_compile :: "string \<Rightarrow> 're option"
  re_match :: "'re \<Rightarrow> string option \<Rightarrow> bool"
  re_sub :: "bool \<Rightarrow> string \<Rightarrow> 're \<Rightarrow> string \<Rightarrow> string option"

text \<open>Texts that stand for themselves, without \<open>!\<close>: the instance of the witnesses.\<close>

definition literal_vre :: "string vre_ops" where
  "literal_vre = \<lparr>
     re_compile = (\<lambda>t. if CHR ''!'' \<in> set t then None else Some t),
     re_match = (\<lambda>re s. case s of None \<Rightarrow> re = [] | Some u \<Rightarrow> has_prefix u re),
     re_sub = (\<lambda>all s re sub. if has_prefix s re then Some (sub @ drop (length re) s) else Some s)\<rparr>"

text \<open>
  A workspace that counts its free bytes: the instance on which the witnesses evaluate.
\<close>

definition counting_ws :: "nat ws_ops" where
  "counting_ws = \<lparr>
     ws_copy = (\<lambda>w s. if length s + 1 \<le> w then (w - (length s + 1), Some s) else (w, None)),
     ws_alloc = (\<lambda>w n. if n \<le> w then (w - n, True) else (w, False)),
     ws_reserve_all = (\<lambda>w. w),
     ws_release = (\<lambda>w n. w - n)\<rparr>"

lemma counting_ws_faithful [simp]: "ws_faithful counting_ws"
  by (auto simp: ws_faithful_def counting_ws_def split: if_splits)

end
