(* ===== verification/Keyed.thy ===== *)
theory Keyed
  imports Vtree
begin

text \<open>
  Red-black trees whose comparison function is \<open>strcmp\<close> on a name stored in the node, as the
  variables, the variables of a task and the compiled regexps of a script are kept. \<open>probe\<close> builds
  the stack node with only the name set that the callers search with. Seen through \<open>VRBT_FIND\<close>, such
  a tree is a finite map from names to nodes.
\<close>

section \<open>Releasing a tree\<close>

text \<open>
  The loop that the callers release a tree with: \<open>VRBT_FOREACH_SAFE\<close> takes the next node before the
  body removes the current one; the pointer to it stays valid while the tree is rebalanced. The
  second result lists what was handed to the free function of the caller, in order.
\<close>

fun loc_elem :: "'a loc \<Rightarrow> 'a option" where
  "loc_elem (Leaf, p) = None"
| "loc_elem (Node c l x r, p) = Some x"

definition next_elem :: "('a \<Rightarrow> 'a \<Rightarrow> int) \<Rightarrow> 'a \<Rightarrow> 'a vrbt \<Rightarrow> 'a option" where
  "next_elem cmp x t = (case vrbt_next (vrbt_descend cmp x t []) of None \<Rightarrow> None | Some l \<Rightarrow> loc_elem l)"

function flush_loop :: "('a \<Rightarrow> 'a \<Rightarrow> int) \<Rightarrow> 'a option \<Rightarrow> 'a vrbt \<Rightarrow> ('a vrbt \<times> 'a list) res" where
  "flush_loop cmp None t = Inr (t, [])"
| "flush_loop cmp (Some x) t =
     res_bind (vrbt_remove cmp x t) (\<lambda>t'.
       res_bind (flush_loop cmp (next_elem cmp x t) t') (\<lambda>(t'', freed). Inr (t'', x # freed)))"
  by pat_completeness auto
termination
  by (relation "measure (\<lambda>(cmp, x, t). length (inorder t))") (auto dest: remove_shrinks)

definition vrbt_flush :: "('a \<Rightarrow> 'a \<Rightarrow> int) \<Rightarrow> 'a vrbt \<Rightarrow> ('a vrbt \<times> 'a list) res" where
  "vrbt_flush cmp t = flush_loop cmp (case vrbt_min t of None \<Rightarrow> None | Some l \<Rightarrow> loc_elem l) t"

section \<open>Trees with names\<close>

locale keyed =
  fixes cmp :: "'a \<Rightarrow> 'a \<Rightarrow> int"
    and key :: "'a \<Rightarrow> string"
    and probe :: "string \<Rightarrow> 'a"
  assumes cmp_key: "cmp x y = strcmp (key x) (key y)"
    and key_probe: "key (probe n) = n"

sublocale keyed \<subseteq> comparator cmp
  by unfold_locales (auto simp: cmp_key strcmp_antisym dest: strcmp_trans)

context keyed
begin

lemma cmp_0_iff: "cmp x y = 0 \<longleftrightarrow> key x = key y"
  by (simp add: cmp_key)

lemma find_Some:
  "vrbt_ok cmp t \<Longrightarrow> vrbt_find cmp (probe n) t = Some x \<longleftrightarrow> x \<in> set (inorder t) \<and> key x = n"
  by (auto simp: find_eq_Some_iff cmp_0_iff key_probe)

lemma find_None:
  "vrbt_ok cmp t \<Longrightarrow> vrbt_find cmp (probe n) t = None \<longleftrightarrow> n \<notin> key ` set (inorder t)"
  by (auto simp: find_eq_None_iff cmp_0_iff key_probe)

lemma keys_distinct: "vrbt_ok cmp t \<Longrightarrow> distinct (map key (inorder t))"
proof -
  have "ordered cmp xs \<Longrightarrow> distinct (map key xs)" for xs
    by (induction xs) (auto simp: cmp_key, (metis less_irrefl strcmp_eq_0_iff)+)
  then show "vrbt_ok cmp t \<Longrightarrow> ?thesis"
    by (simp add: vrbt_ok_def)
qed

lemma same_key: "vrbt_ok cmp t \<Longrightarrow> x \<in> set (inorder t) \<Longrightarrow> y \<in> set (inorder t) \<Longrightarrow> key x = key y \<Longrightarrow> x = y"
  using keys_distinct by (auto simp: distinct_map inj_on_def)

lemma find_eqI:
  assumes "vrbt_ok cmp t" "\<And>n x. m n = Some x \<longleftrightarrow> x \<in> set (inorder t) \<and> key x = n"
  shows "vrbt_find cmp (probe n) t = m n"
  using find_Some[OF assms(1), of n] assms(2)[of n] by (metis option.exhaust)

lemma insert_absent:
  assumes "vrbt_ok cmp t" "vrbt_find cmp (probe (key x)) t = None"
  shows "\<exists>t'. vrbt_insert cmp x t = Inr (None, t') \<and> vrbt_ok cmp t'
    \<and> set (inorder t') = insert x (set (inorder t))
    \<and> length (inorder t') = Suc (length (inorder t))
    \<and> (\<forall>n. vrbt_find cmp (probe n) t' = (if n = key x then Some x else vrbt_find cmp (probe n) t))"
proof -
  have new: "\<forall>y \<in> set (inorder t). cmp x y \<noteq> 0"
    using assms by (auto simp: find_None cmp_0_iff)
  then obtain t' where t': "vrbt_insert cmp x t = Inr (None, t')" "vrbt_ok cmp t'"
      "inorder t' = filter (\<lambda>y. cmp y x < 0) (inorder t) @ x # filter (\<lambda>y. cmp x y < 0) (inorder t)"
    using insert_new assms(1) by blast
  have either: "cmp y x < 0 \<longleftrightarrow> \<not> cmp x y < 0" if "y \<in> set (inorder t)" for y
    using cmp_antisym[of x y] new that by (metis linorder_neqE_linordered_idom less_asym)
  have elems: "set (inorder t') = insert x (set (inorder t))"
    using either unfolding t'(3) by auto
  have "length (filter (\<lambda>y. cmp y x < 0) (inorder t)) + length (filter (\<lambda>y. cmp x y < 0) (inorder t))
      = length (inorder t)"
    using either sum_length_filter_compl[of "\<lambda>y. cmp x y < 0" "inorder t"]
    by (simp add: filter_cong[OF refl, of "inorder t" "\<lambda>y. cmp y x < 0" "\<lambda>y. \<not> cmp x y < 0"])
  then have len: "length (inorder t') = Suc (length (inorder t))"
    unfolding t'(3) by simp
  have "vrbt_find cmp (probe n) t' = (if n = key x then Some x else vrbt_find cmp (probe n) t)" for n
    by (rule find_eqI[OF t'(2)]) (use elems new assms in \<open>auto simp: find_Some cmp_0_iff\<close>)
  then show ?thesis using t' elems len by blast
qed

lemma insert_present:
  assumes "vrbt_ok cmp t" "vrbt_find cmp (probe (key x)) t = Some y"
  shows "vrbt_insert cmp x t = Inr (Some y, t)"
  using assms insert_existing[of t y x] by (simp add: find_Some cmp_0_iff)

lemma assign_at:
  assumes "vrbt_ok cmp t" "\<And>y. key (f y) = key y"
  shows "vrbt_ok cmp (vrbt_assign cmp (probe n) f t)
    \<and> inorder (vrbt_assign cmp (probe n) f t) = map (\<lambda>y. if n = key y then f y else y) (inorder t)
    \<and> (\<forall>m. vrbt_find cmp (probe m) (vrbt_assign cmp (probe n) f t)
        = (if m = n then map_option f (vrbt_find cmp (probe m) t) else vrbt_find cmp (probe m) t))"
proof -
  have *: "vrbt_ok cmp (vrbt_assign cmp (probe n) f t)"
      "inorder (vrbt_assign cmp (probe n) f t) = map (\<lambda>y. if n = key y then f y else y) (inorder t)"
    using assign_correct[OF assms(1), of f "probe n"] assms(2)
    by (simp_all add: cmp_key key_probe)
  have "vrbt_find cmp (probe m) (vrbt_assign cmp (probe n) f t)
      = (if m = n then map_option f (vrbt_find cmp (probe m) t) else vrbt_find cmp (probe m) t)" for m
    by (rule find_eqI[OF *(1)])
       (use assms *(2) in \<open>auto simp: find_Some image_iff split: if_splits intro: bexI\<close>)
  with * show ?thesis by blast
qed

lemma remove_present_at:
  assumes "vrbt_ok cmp t" "x \<in> set (inorder t)"
  shows "\<exists>t'. vrbt_remove cmp x t = Inr t' \<and> vrbt_ok cmp t'
    \<and> inorder t' = filter (\<lambda>y. key x \<noteq> key y) (inorder t)
    \<and> (\<forall>m. vrbt_find cmp (probe m) t' = (if m = key x then None else vrbt_find cmp (probe m) t))"
proof -
  obtain t' where t': "vrbt_remove cmp x t = Inr t'" "vrbt_ok cmp t'"
      "inorder t' = filter (\<lambda>y. key x \<noteq> key y) (inorder t)"
    using remove_present[OF assms, of x] by (auto simp: cmp_0_iff)
  have "vrbt_find cmp (probe m) t' = (if m = key x then None else vrbt_find cmp (probe m) t)" for m
    by (rule find_eqI[OF t'(2)]) (use assms(1) t'(3) in \<open>auto simp: find_Some\<close>)
  with t' show ?thesis by blast
qed

lemma next_of_first:
  assumes "vrbt_ok cmp t" "inorder t = x # rest"
  shows "next_elem cmp x t = (case rest of [] \<Rightarrow> None | y # _ \<Rightarrow> Some y)"
proof -
  obtain t1 p where d: "vrbt_descend cmp x t [] = (t1, p)"
    by (cases "vrbt_descend cmp x t []") auto
  have ord: "ordered cmp (inorder t)"
    using assms(1) by (simp add: vrbt_ok_def)
  have "vrbt_insert cmp x t = Inr (Some x, t)"
    using insert_existing[of t x x] assms cmp_refl by simp
  then obtain c l r where t1: "t1 = Node c l x r"
    by (cases t1) (auto simp: vrbt_insert_def d res_simps)
  have xs: "before p @ inorder l @ x # inorder r @ after p = x # rest"
    using descend_inorder[OF d] assms(2) by (simp add: t1)
  have "ordered cmp (before p @ inorder l @ x # inorder r @ after p)"
    using ord descend_inorder[OF d] by (simp add: t1)
  then have "x \<notin> set (before p @ inorder l)"
    using cmp_refl[of x] by auto
  then have "before p @ inorder l = []" and rest: "inorder r @ after p = rest"
    using xs by (auto simp: append_eq_Cons_conv)
  show ?thesis
    using next_rest[where c = c and l = l and x = x and r = r and p = p] rest
    unfolding next_elem_def d t1
    by (auto split: option.splits list.splits elim!: at_node.elims)
qed

lemma flush_loop_all:
  assumes "vrbt_ok cmp t"
  shows "flush_loop cmp (case inorder t of [] \<Rightarrow> None | x # _ \<Rightarrow> Some x) t = Inr (Leaf, inorder t)"
  using assms
proof (induction "length (inorder t)" arbitrary: t)
  case 0
  then show ?case by (cases t) auto
next
  case (Suc n)
  then obtain x rest where xs: "inorder t = x # rest"
    by (cases "inorder t") auto
  obtain t' where t': "vrbt_remove cmp x t = Inr t'" "vrbt_ok cmp t'"
      "inorder t' = filter (\<lambda>y. key x \<noteq> key y) (inorder t)"
    using remove_present_at[OF Suc.prems, of x] xs by auto
  have "inorder t' = rest"
    using keys_distinct[OF Suc.prems] t'(3) by (auto simp: xs filter_id_conv image_iff)
  then show ?case
    using Suc.hyps(1)[of t'] Suc.hyps(2) t' next_of_first[OF Suc.prems xs] by (simp add: xs)
qed

text \<open>Every node is released, once, in order, and the tree is left empty.\<close>

lemma flush_all:
  assumes "vrbt_ok cmp t"
  shows "vrbt_flush cmp t = Inr (Leaf, inorder t)"
proof -
  have "(case vrbt_min t of None \<Rightarrow> None | Some l \<Rightarrow> loc_elem l)
      = (case inorder t of [] \<Rightarrow> None | x # _ \<Rightarrow> Some x)"
  proof (cases t)
    case (Node c l x r)
    obtain u p where lm: "leftmost c l x r [] = (u, p)"
      by (cases "leftmost c l x r []")
    have "at_node (u, p)" "loc_rest (u, p) = inorder l @ x # inorder r"
      using leftmost_rest[of c l x r "[]"] by (simp_all add: lm)
    then show ?thesis
      using Node lm by (auto split: list.splits elim!: at_node.elims)
  qed simp
  then show ?thesis
    using flush_loop_all[OF assms] by (simp add: vrbt_flush_def)
qed

end

end
