(* ===== verification/Variables.thy ===== *)
theory Variables
  imports Keyed Varnish
begin

text \<open>
  \<open>variables.c\<close>: named string values in a red-black tree ordered by \<open>strcmp\<close> of the names,
  their lookup, the JSON dump and the release of a whole tree. The \<open>magic\<close> fields only guard
  against stray pointers and are left out; so are the heap operations behind \<open>strdup\<close>.
\<close>

section \<open>Variables and trees of them\<close>

record variable =
  var_name :: string
  var_value :: string

type_synonym variables = "variable vrbt"

definition variablecmp :: "variable \<Rightarrow> variable \<Rightarrow> int" where
  "variablecmp v1 v2 = strcmp (var_name v1) (var_name v2)"

definition new_global_variable :: "string \<Rightarrow> nat \<Rightarrow> string \<Rightarrow> variable" where
  "new_global_variable name len value = \<lparr>var_name = take len name, var_value = value\<rparr>"

text \<open>The search key of \<open>find_variable\<close>: only \<open>name\<close> is set, the value is never read.\<close>

definition key_of :: "string \<Rightarrow> variable" where
  "key_of name = \<lparr>var_name = name, var_value = []\<rparr>"

interpretation vcmp: keyed variablecmp var_name key_of
  by unfold_locales (simp_all add: variablecmp_def key_of_def)

definition find_variable :: "variables \<Rightarrow> string \<Rightarrow> variable option" where
  "find_variable vs name = vrbt_find variablecmp (key_of name) vs"

definition is_set_variable :: "variables \<Rightarrow> string option \<Rightarrow> bool" where
  "is_set_variable vs name =
     (case name of None \<Rightarrow> False | Some n \<Rightarrow> find_variable vs n \<noteq> None)"

definition get_variable ::
  "'w ws_ops \<Rightarrow> ('w, 'h) vrt_ctx \<Rightarrow> variables \<Rightarrow> string option \<Rightarrow> string option \<Rightarrow> ('w, 'h) vrt_ctx \<times> string option" where
  "get_variable ops ctx vs name fallback =
     copy_result ops ctx
       (case name of
          None \<Rightarrow> fallback
        | Some n \<Rightarrow> (case find_variable vs n of None \<Rightarrow> fallback | Some v \<Rightarrow> Some (var_value v)))"

text \<open>\<open>AZ(VRBT_INSERT(variables, ...))\<close>: a node with the same name aborts the process.\<close>

definition insert_variable :: "variable \<Rightarrow> variables \<Rightarrow> variables res" where
  "insert_variable v vs =
     res_bind (vrbt_insert variablecmp v vs) (\<lambda>(old, vs'). must (old = None) (Inr vs'))"

text \<open>\<open>variable->value = ...\<close> on the node found under a name.\<close>

definition assign_variable :: "string \<Rightarrow> string \<Rightarrow> variables \<Rightarrow> variables" where
  "assign_variable name value vs =
     vrbt_assign variablecmp (key_of name) (\<lambda>v. v\<lparr>var_value := value\<rparr>) vs"

definition remove_variable :: "variable \<Rightarrow> variables \<Rightarrow> variables res" where
  "remove_variable v vs = vrbt_remove variablecmp v vs"

text \<open>The second result lists what was handed to \<open>free_global_variable\<close>, in order.\<close>

definition flush_global_variables :: "variables \<Rightarrow> (variables \<times> variable list) res" where
  "flush_global_variables vs = vrbt_flush variablecmp vs"

text \<open>\<open>AZ(VRBT_INSERT(..., new_global_variable(name, strlen(name), value)))\<close>.\<close>

definition add_variable :: "string \<Rightarrow> string \<Rightarrow> variables \<Rightarrow> variables res" where
  "add_variable name value vs = insert_variable (new_global_variable name (length name) value) vs"

text \<open>Find a variable and, when there is one, \<open>VRBT_REMOVE\<close> it.\<close>

definition drop_variable :: "string \<Rightarrow> variables \<Rightarrow> variables res" where
  "drop_variable name vs =
     (case find_variable vs name of None \<Rightarrow> Inr vs | Some v \<Rightarrow> remove_variable v vs)"

section \<open>The dictionary interface\<close>

text \<open>
  What the clients of \<open>variables.c\<close> rely on: a finite map from names to values whose insertion
  aborts on a name that is already there. The clients' lemmas are proved from these laws; the
  red-black tree of this repository is their interpretation.
\<close>

locale dictionary =
  fixes lookup :: "'d \<Rightarrow> string \<Rightarrow> 'v option"
    and add :: "string \<Rightarrow> 'v \<Rightarrow> 'd \<Rightarrow> 'd res"
    and assign :: "string \<Rightarrow> 'v \<Rightarrow> 'd \<Rightarrow> 'd"
    and drop_name :: "string \<Rightarrow> 'd \<Rightarrow> 'd res"
    and ok :: "'d \<Rightarrow> bool"
  assumes add_new: "ok d \<Longrightarrow> lookup d n = None \<Longrightarrow>
      \<exists>d'. add n v d = Inr d' \<and> ok d' \<and> lookup d' = (lookup d)(n \<mapsto> v)"
    and add_present: "ok d \<Longrightarrow> lookup d n \<noteq> None \<Longrightarrow> add n v d = Inl Assert_Failed"
    and assign_present: "ok d \<Longrightarrow> lookup d n \<noteq> None \<Longrightarrow>
      ok (assign n v d) \<and> lookup (assign n v d) = (lookup d)(n \<mapsto> v)"
    and drop_name: "ok d \<Longrightarrow> \<exists>d'. drop_name n d = Inr d' \<and> ok d' \<and> lookup d' = (lookup d)(n := None)"
begin

text \<open>The upsert of the callers: insert a new name, otherwise overwrite the value in place.\<close>

lemma upsert:
  assumes "ok d"
  shows "\<exists>d'. (case lookup d n of None \<Rightarrow> add n v d | Some old \<Rightarrow> Inr (assign n (g old) d)) = Inr d'
    \<and> ok d' \<and> lookup d' = (lookup d)(n \<mapsto> (case lookup d n of None \<Rightarrow> v | Some old \<Rightarrow> g old))"
  using add_new[OF assms, of n v] assign_present[OF assms, of n]
  by (cases "lookup d n") auto

lemma add_all:
  assumes "ok d" "distinct (map fst kvs)" "\<forall>n \<in> fst ` set kvs. lookup d n = None"
  shows "\<exists>d'. res_fold (\<lambda>(n, v). add n v) kvs d = Inr d' \<and> ok d' \<and> lookup d' = lookup d ++ map_of kvs"
  using assms
proof (induction kvs arbitrary: d)
  case (Cons kv kvs)
  obtain n v where kv: "kv = (n, v)" by (cases kv)
  obtain d1 where d1: "add n v d = Inr d1" "ok d1" "lookup d1 = (lookup d)(n \<mapsto> v)"
    using add_new[of d n v] Cons.prems kv by auto
  have "\<forall>n \<in> fst ` set kvs. lookup d1 n = None"
    using Cons.prems kv d1 by auto
  then obtain d' where d': "res_fold (\<lambda>(n, v). add n v) kvs d1 = Inr d'" "ok d'"
      "lookup d' = lookup d1 ++ map_of kvs"
    using Cons.IH[OF d1(2)] Cons.prems by auto
  have "map_of kvs n = None"
    using Cons.prems kv by (auto simp: map_of_eq_None_iff)
  then have "lookup d' = lookup d ++ map_of (kv # kvs)"
    using d' d1 kv by (auto simp: fun_eq_iff map_add_def split: option.split)
  then show ?case
    using d'(1,2) d1(1) by (intro exI[of _ d']) (simp add: kv del: map_of.simps)
qed (auto simp: fun_eq_iff)

text \<open>A repeated name, or one already present, aborts the loop.\<close>

lemma add_all_clash:
  assumes "ok d" "\<not> (distinct (map fst kvs) \<and> (\<forall>n \<in> fst ` set kvs. lookup d n = None))"
  shows "res_fold (\<lambda>(n, v). add n v) kvs d = Inl Assert_Failed"
  using assms
proof (induction kvs arbitrary: d)
  case (Cons kv kvs)
  obtain n v where kv: "kv = (n, v)" by (cases kv)
  show ?case
  proof (cases "lookup d n = None")
    case False
    then show ?thesis using add_present Cons.prems(1) kv by simp
  next
    case True
    obtain d1 where d1: "add n v d = Inr d1" "ok d1" "lookup d1 = (lookup d)(n \<mapsto> v)"
      using add_new[OF Cons.prems(1) True] by blast
    have "\<not> (distinct (map fst kvs) \<and> (\<forall>n \<in> fst ` set kvs. lookup d1 n = None))"
      using Cons.prems(2) True kv d1 by auto
    then show ?thesis using Cons.IH[OF d1(2)] d1 kv by simp
  qed
qed simp

lemma add_all_returns_iff:
  assumes "ok d"
  shows "returns (res_fold (\<lambda>(n, v). add n v) kvs d)
    \<longleftrightarrow> distinct (map fst kvs) \<and> (\<forall>n \<in> fst ` set kvs. lookup d n = None)"
  using add_all[OF assms] add_all_clash[OF assms, of kvs]
  by (metis returns_simps)

end

section \<open>The tree is a dictionary\<close>

definition vars_ok :: "variables \<Rightarrow> bool" where
  "vars_ok vs \<longleftrightarrow> vrbt_ok variablecmp vs"

definition lookup_value :: "variables \<Rightarrow> string \<Rightarrow> string option" where
  "lookup_value vs name = map_option var_value (find_variable vs name)"

lemma key_name [simp]: "var_name (key_of n) = n"
  by (simp add: key_of_def)

lemma vars_ok_Leaf [simp]: "vars_ok Leaf"
  by (simp add: vars_ok_def)

lemma find_Leaf [simp]: "find_variable Leaf n = None" "lookup_value Leaf n = None"
  by (simp_all add: find_variable_def lookup_value_def)

lemma find_variable_Some:
  "vars_ok vs \<Longrightarrow> find_variable vs n = Some v \<longleftrightarrow> v \<in> set (inorder vs) \<and> var_name v = n"
  by (simp add: vars_ok_def find_variable_def vcmp.find_Some)

lemma find_variable_None:
  "vars_ok vs \<Longrightarrow> find_variable vs n = None \<longleftrightarrow> n \<notin> var_name ` set (inorder vs)"
  by (simp add: vars_ok_def find_variable_def vcmp.find_None)

lemma names_distinct: "vars_ok vs \<Longrightarrow> distinct (map var_name (inorder vs))"
  by (simp add: vars_ok_def vcmp.keys_distinct)

lemma lookup_Some_iff:
  "vars_ok vs \<Longrightarrow> lookup_value vs n = Some x \<longleftrightarrow>
     (\<exists>v \<in> set (inorder vs). var_name v = n \<and> var_value v = x)"
  by (auto simp: lookup_value_def find_variable_Some)

lemma lookup_None_iff:
  "vars_ok vs \<Longrightarrow> lookup_value vs n = None \<longleftrightarrow> n \<notin> var_name ` set (inorder vs)"
  by (simp add: lookup_value_def find_variable_None)

lemma lookup_eqI:
  assumes "vars_ok vs" "\<And>n x. m n = Some x \<longleftrightarrow> (\<exists>v \<in> set (inorder vs). var_name v = n \<and> var_value v = x)"
  shows "lookup_value vs = m"
proof
  fix n
  show "lookup_value vs n = m n"
    using lookup_Some_iff[OF assms(1), of n] assms(2)[of n] by (metis option.exhaust)
qed

lemma lookup_map_of:
  "vars_ok vs \<Longrightarrow> lookup_value vs = map_of (map (\<lambda>v. (var_name v, var_value v)) (inorder vs))"
  by (rule lookup_eqI) (auto simp: map_of_eq_Some_iff names_distinct comp_def)

lemma add_variable_new:
  assumes "vars_ok vs" "lookup_value vs n = None"
  shows "\<exists>vs'. add_variable n v vs = Inr vs' \<and> vars_ok vs'
    \<and> set (inorder vs') = insert \<lparr>var_name = n, var_value = v\<rparr> (set (inorder vs))
    \<and> lookup_value vs' = (lookup_value vs)(n \<mapsto> v)"
  using vcmp.insert_absent[of vs "\<lparr>var_name = n, var_value = v\<rparr>"] assms
  by (auto simp: vars_ok_def lookup_value_def find_variable_def add_variable_def insert_variable_def
      new_global_variable_def fun_eq_iff)

lemma add_variable_present:
  assumes "vars_ok vs" "lookup_value vs n \<noteq> None"
  shows "add_variable n v vs = Inl Assert_Failed"
  using vcmp.insert_present[of vs "\<lparr>var_name = n, var_value = v\<rparr>"] assms
  by (auto simp: vars_ok_def lookup_value_def find_variable_def add_variable_def insert_variable_def
      new_global_variable_def)

lemma assign_variable_present:
  assumes "vars_ok vs" "lookup_value vs n \<noteq> None"
  shows "vars_ok (assign_variable n v vs) \<and> lookup_value (assign_variable n v vs) = (lookup_value vs)(n \<mapsto> v)"
  using vcmp.assign_at[of vs "\<lambda>w. w\<lparr>var_value := v\<rparr>" n] assms
  by (auto simp: vars_ok_def lookup_value_def find_variable_def assign_variable_def fun_eq_iff)

lemma remove_variable_correct:
  assumes "vars_ok vs" "v \<in> set (inorder vs)"
  shows "\<exists>vs'. remove_variable v vs = Inr vs' \<and> vars_ok vs'
    \<and> inorder vs' = filter (\<lambda>w. var_name w \<noteq> var_name v) (inorder vs)
    \<and> lookup_value vs' = (lookup_value vs)(var_name v := None)"
  using vcmp.remove_present_at[of vs v] assms
  by (auto simp: vars_ok_def remove_variable_def lookup_value_def find_variable_def fun_eq_iff eq_commute)

lemma drop_variable_correct:
  assumes "vars_ok vs"
  shows "\<exists>vs'. drop_variable n vs = Inr vs' \<and> vars_ok vs' \<and> lookup_value vs' = (lookup_value vs)(n := None)"
proof (cases "find_variable vs n")
  case None
  then have "(lookup_value vs)(n := None) = lookup_value vs"
    by (auto simp: lookup_value_def)
  then show ?thesis
    using assms None by (simp add: drop_variable_def)
next
  case (Some v)
  then have "v \<in> set (inorder vs)" "var_name v = n"
    using assms by (simp_all add: find_variable_Some)
  then show ?thesis
    using remove_variable_correct[OF assms, of v] Some by (auto simp: drop_variable_def)
qed

interpretation vars: dictionary lookup_value add_variable assign_variable drop_variable vars_ok
proof (unfold_locales, goal_cases)
  case (1 d n v)
  then show ?case using add_variable_new by blast
next
  case (2 d n v)
  then show ?case by (rule add_variable_present)
next
  case (3 d n v)
  then show ?case by (rule assign_variable_present)
next
  case (4 d n)
  then show ?case by (rule drop_variable_correct)
qed

section \<open>Releasing a tree\<close>

lemma flush_global_variables_correct:
  assumes "vars_ok vs"
  shows "flush_global_variables vs = Inr (Leaf, inorder vs)"
  using assms vcmp.flush_all by (simp add: vars_ok_def flush_global_variables_def)

section \<open>The JSON dump\<close>

text \<open>
  The cursor of \<open>dump_variables\<close>. With a body under construction (\<open>vsb\<close>) every byte goes there;
  otherwise \<open>d_text\<close> is what stands between \<open>result\<close> and \<open>end\<close>, \<open>d_reserved\<close> the size of the
  reservation and \<open>d_free\<close> the variable \<open>free_ws\<close>.
\<close>

record dump =
  d_stream :: bool
  d_vsb :: string
  d_text :: string
  d_reserved :: nat
  d_free :: nat

text \<open>
  \<open>DUMP_CHAR\<close>: \<open>Inr None\<close> is the \<open>FAIL_WS\<close> branch. The byte is stored through \<open>end\<close> before
  \<open>free_ws\<close> is looked at, so a store past the reservation is possible: \<open>Out_Of_Bounds\<close>.
\<close>

definition dump_char :: "char \<Rightarrow> dump \<Rightarrow> dump option res" where
  "dump_char c d =
     (if d_stream d then Inr (Some (d\<lparr>d_vsb := d_vsb d @ [c]\<rparr>))
      else if d_reserved d \<le> length (d_text d) then Inl Out_Of_Bounds
      else if d_free d = 0 then Inr None
      else Inr (Some (d\<lparr>d_text := d_text d @ [c], d_free := d_free d - 1\<rparr>)))"

definition dump_bind :: "dump option res \<Rightarrow> (dump \<Rightarrow> dump option res) \<Rightarrow> dump option res" where
  "dump_bind m f = res_bind m (\<lambda>r. case r of None \<Rightarrow> Inr None | Some d \<Rightarrow> f d)"

fun dump_chars :: "string \<Rightarrow> dump \<Rightarrow> dump option res" where
  "dump_chars [] d = Inr (Some d)"
| "dump_chars (c # cs) d = dump_bind (dump_char c d) (dump_chars cs)"

definition json_hex_chars :: string where
  "json_hex_chars = ''0123456789abcdef''"

text \<open>The bytes \<open>DUMP_STRING\<close> emits for one byte of the value.\<close>

definition dump_escape :: "char \<Rightarrow> string" where
  "dump_escape c =
     (if 31 < byte c \<and> byte c < 127 \<and> c \<noteq> CHR 0x22 \<and> c \<noteq> CHR 0x5C then [c]
      else CHR 0x5C #
        (if c = CHR 0x5C then [CHR 0x5C]
         else if c = CHR 0x22 then [CHR 0x22]
         else if c = CHR 0x08 then ''b''
         else if c = CHR 0x0C then ''f''
         else if c = CHR 0x0A then ''n''
         else if c = CHR 0x0D then ''r''
         else if c = CHR 0x09 then ''t''
         else [CHR ''u'', CHR ''0'', CHR ''0'',
               json_hex_chars ! (byte c div 16 mod 16), json_hex_chars ! (byte c mod 16)]))"

fun dump_string_body :: "string \<Rightarrow> dump \<Rightarrow> dump option res" where
  "dump_string_body [] d = Inr (Some d)"
| "dump_string_body (c # cs) d = dump_bind (dump_chars (dump_escape c) d) (dump_string_body cs)"

definition dump_string :: "string \<Rightarrow> dump \<Rightarrow> dump option res" where
  "dump_string v d =
     dump_bind (dump_char (CHR 0x22) d) (\<lambda>d.
     dump_bind (dump_string_body v d) (dump_char (CHR 0x22)))"

text \<open>The prefix test of the loop: a variable that fails it is skipped.\<close>

definition dump_selected :: "string option \<Rightarrow> variable \<Rightarrow> bool" where
  "dump_selected prefix v \<longleftrightarrow>
     \<not> (case prefix of None \<Rightarrow> False | Some p \<Rightarrow> p \<noteq> [] \<and> \<not> has_prefix (var_name v) p)"

fun dump_loop :: "string option \<Rightarrow> variable list \<Rightarrow> nat \<Rightarrow> dump \<Rightarrow> dump option res" where
  "dump_loop prefix [] i d = Inr (Some d)"
| "dump_loop prefix (v # vs) i d =
     (if \<not> dump_selected prefix v then dump_loop prefix vs i d
      else
        dump_bind (if i > 0 then dump_char (CHR '','') d else Inr (Some d)) (\<lambda>d.
        dump_bind (dump_string (var_name v) d) (\<lambda>d.
        dump_bind (dump_char (CHR '':'') d) (\<lambda>d.
        dump_bind (dump_string (var_value v) d) (dump_loop prefix vs (Suc i))))))"

definition dump_variables ::
  "'w ws_ops \<Rightarrow> ('w, 'h) vrt_ctx \<Rightarrow> variables \<Rightarrow> bool \<Rightarrow> string option \<Rightarrow> (('w, 'h) vrt_ctx \<times> string option) res" where
  "dump_variables ops ctx vs stream prefix =
     (let free_ws = ws_reserve_all ops (ctx_ws ctx);
          give_up = vrt_fail Workspace_Overflow (ctx\<lparr>ctx_ws := ws_release ops (ctx_ws ctx) 0\<rparr>)
      in if free_ws = 0 then Inr (give_up, None)
      else res_bind
        (dump_bind
          (dump_char (CHR ''{'')
            \<lparr>d_stream = stream \<and> streams_to_body ctx, d_vsb = ctx_vsb ctx, d_text = [],
             d_reserved = free_ws, d_free = free_ws\<rparr>) (\<lambda>d.
         dump_bind (dump_loop prefix (vrbt_foreach (vrbt_min vs)) 0 d) (dump_char (CHR ''}''))))
        (\<lambda>r. case r of
            None \<Rightarrow> Inr (give_up, None)
          | Some d \<Rightarrow>
              if d_reserved d \<le> length (d_text d) then Inl Out_Of_Bounds
              else Inr (ctx\<lparr>ctx_vsb := d_vsb d,
                            ctx_ws := ws_release ops (ctx_ws ctx) (length (d_text d) + 1)\<rparr>,
                        Some (d_text d))))"

text \<open>The text a dump stands for: an object with one member per selected variable.\<close>

definition json_string :: "string \<Rightarrow> string" where
  "json_string v = CHR 0x22 # concat (map dump_escape v) @ [CHR 0x22]"

definition json_member :: "variable \<Rightarrow> string" where
  "json_member v = json_string (var_name v) @ CHR '':'' # json_string (var_value v)"

fun json_members :: "variable list \<Rightarrow> string" where
  "json_members [] = []"
| "json_members [v] = json_member v"
| "json_members (v # vs) = json_member v @ CHR '','' # json_members vs"

definition json_object :: "variable list \<Rightarrow> string" where
  "json_object vs = CHR ''{'' # json_members vs @ ''}''"

lemma dump_bind_assoc: "dump_bind (dump_bind m f) g = dump_bind m (\<lambda>d. dump_bind (f d) g)"
  by (cases m) (auto simp: dump_bind_def split: option.splits)

lemma dump_bind_Some [simp]: "dump_bind (Inr (Some d)) f = f d"
  by (simp add: dump_bind_def)

lemma dump_bind_Some_right [simp]: "dump_bind m (\<lambda>d. Inr (Some d)) = m"
  by (cases m) (auto simp: dump_bind_def split: option.splits)

lemma dump_bind_cong: "(\<And>d. m = Inr (Some d) \<Longrightarrow> f d = g d) \<Longrightarrow> dump_bind m f = dump_bind m g"
  by (cases m) (auto simp: dump_bind_def split: option.splits)

lemma dump_chars_ext:
  "dump_chars [] = (\<lambda>d. Inr (Some d))"
  "dump_chars (c # cs) = (\<lambda>d. dump_bind (dump_char c d) (dump_chars cs))"
  "dump_char c = dump_chars [c]"
  by (simp_all add: fun_eq_iff dump_bind_def split: sum.splits option.splits)
     (auto simp: res_bind_def split: sum.splits option.splits)

lemma dump_chars_append: "dump_chars (xs @ ys) = (\<lambda>d. dump_bind (dump_chars xs d) (dump_chars ys))"
  by (induction xs) (simp_all add: dump_chars_ext(1,2) dump_bind_assoc)

lemma dump_chars_Cons: "dump_chars (c # cs) = (\<lambda>d. dump_bind (dump_chars [c] d) (dump_chars cs))"
  using dump_chars_append[of "[c]" cs] by simp

lemma dump_string_body_chars: "dump_string_body v = dump_chars (concat (map dump_escape v))"
proof (rule ext)
  show "dump_string_body v d = dump_chars (concat (map dump_escape v)) d" for d
    by (induction v arbitrary: d)
       (simp_all add: dump_chars_append cong: dump_bind_cong)
qed

lemma dump_string_chars: "dump_string v = dump_chars (json_string v)"
  by (rule ext) (simp add: dump_string_def json_string_def dump_string_body_chars
      dump_chars_append dump_chars_Cons[of _ "_ @ _"] dump_bind_assoc dump_chars_ext(3) del: dump_chars.simps)

text \<open>Everything the loop emits, with the separator it starts from.\<close>

definition json_tail :: "nat \<Rightarrow> variable list \<Rightarrow> string" where
  "json_tail i vs = (if i > 0 \<and> vs \<noteq> [] then '','' else []) @ json_members vs"

lemma json_tail_Cons: "json_tail i (v # vs) = (if i > 0 then '','' else []) @ json_member v @ json_tail (Suc i) vs"
  by (cases vs) (simp_all add: json_tail_def)

lemma dump_loop_chars:
  "dump_loop prefix vs i d = dump_chars (json_tail i (filter (dump_selected prefix) vs)) d"
proof (induction vs arbitrary: i d)
  case (Cons v vs)
  show ?case
  proof (cases "dump_selected prefix v")
    case True
    have "dump_chars (json_tail i (v # filter (dump_selected prefix) vs)) d
      = dump_bind (if i > 0 then dump_char (CHR '','') d else Inr (Some d)) (\<lambda>d.
        dump_bind (dump_string (var_name v) d) (\<lambda>d.
        dump_bind (dump_char (CHR '':'') d) (\<lambda>d.
        dump_bind (dump_string (var_value v) d)
          (dump_chars (json_tail (Suc i) (filter (dump_selected prefix) vs))))))"
      by (simp add: json_tail_Cons json_member_def dump_chars_append dump_string_chars
          dump_chars_Cons[of _ "_ @ _"] dump_chars_ext(1,3) dump_bind_assoc del: dump_chars.simps)
    then show ?thesis using True by (simp add: ext[OF Cons.IH])
  qed (simp add: Cons.IH)
qed (simp add: json_tail_def)

lemma dump_chars_stream:
  "d_stream d \<Longrightarrow> dump_chars cs d = Inr (Some (d\<lparr>d_vsb := d_vsb d @ cs\<rparr>))"
  by (induction cs arbitrary: d) (simp_all add: dump_char_def)

lemma dump_chars_reserve:
  assumes "\<not> d_stream d" "d_reserved d = length (d_text d) + d_free d"
  shows "dump_chars cs d =
    (if length cs \<le> d_free d
     then Inr (Some (d\<lparr>d_text := d_text d @ cs, d_free := d_free d - length cs\<rparr>))
     else Inl Out_Of_Bounds)"
  using assms
proof (induction cs arbitrary: d)
  case (Cons c cs)
  show ?case
  proof (cases "d_free d = 0")
    case True
    then show ?thesis using Cons.prems by (simp add: dump_char_def dump_bind_def)
  next
    case False
    then show ?thesis
      using Cons.prems Cons.IH[of "d\<lparr>d_text := d_text d @ [c], d_free := d_free d - 1\<rparr>"]
      by (auto simp: dump_char_def)
  qed
qed simp

lemma dump_variables_chars:
  "dump_variables ops ctx vs stream prefix =
     (let free_ws = ws_reserve_all ops (ctx_ws ctx);
          give_up = vrt_fail Workspace_Overflow (ctx\<lparr>ctx_ws := ws_release ops (ctx_ws ctx) 0\<rparr>)
      in if free_ws = 0 then Inr (give_up, None)
      else res_bind
        (dump_chars (json_object (filter (dump_selected prefix) (inorder vs)))
          \<lparr>d_stream = stream \<and> streams_to_body ctx, d_vsb = ctx_vsb ctx, d_text = [],
           d_reserved = free_ws, d_free = free_ws\<rparr>)
        (\<lambda>r. case r of
            None \<Rightarrow> Inr (give_up, None)
          | Some d \<Rightarrow>
              if d_reserved d \<le> length (d_text d) then Inl Out_Of_Bounds
              else Inr (ctx\<lparr>ctx_vsb := d_vsb d,
                            ctx_ws := ws_release ops (ctx_ws ctx) (length (d_text d) + 1)\<rparr>,
                        Some (d_text d))))"
  by (simp add: dump_variables_def dump_loop_chars foreach_min json_object_def json_tail_def
      dump_chars_append dump_chars_Cons[of _ "_ @ _"] dump_chars_ext(3) dump_bind_assoc Let_def
      ext[of "dump_loop _ _ _" "dump_chars _", OF dump_loop_chars] del: dump_chars.simps)

lemma dump_streaming:
  assumes "stream" "streams_to_body ctx" "ws_reserve_all ops (ctx_ws ctx) > 0"
  shows "dump_variables ops ctx vs stream prefix =
    Inr (ctx\<lparr>ctx_vsb := ctx_vsb ctx @ json_object (filter (dump_selected prefix) (inorder vs)),
             ctx_ws := ws_release ops (ctx_ws ctx) 1\<rparr>, Some [])"
  using assms by (simp add: dump_variables_chars dump_chars_stream Let_def)

lemma dump_to_workspace:
  assumes "\<not> (stream \<and> streams_to_body ctx)" "ws_reserve_all ops (ctx_ws ctx) > 0"
    and "js = json_object (filter (dump_selected prefix) (inorder vs))"
  shows "dump_variables ops ctx vs stream prefix =
    (if length js < ws_reserve_all ops (ctx_ws ctx)
     then Inr (ctx\<lparr>ctx_ws := ws_release ops (ctx_ws ctx) (length js + 1)\<rparr>, Some js)
     else Inl Out_Of_Bounds)"
  using assms by (auto simp: dump_variables_chars dump_chars_reserve Let_def)

section \<open>Properties\<close>

text \<open>A tree of five variables, on which the witnesses evaluate.\<close>

definition sample_variables :: variables where
  "sample_variables =
     (case res_fold (\<lambda>(n, v). add_variable n v)
        [(''b'', ''2''), (''a'', ''1''), (''d'', ''4''), (''c'', ''3''), (''e'', '''')] Leaf of
        Inl e \<Rightarrow> Leaf | Inr vs \<Rightarrow> vs)"

lemma sample_variables_eval:
  "sample_variables =
     Node Black (Node Black Leaf \<lparr>var_name = ''a'', var_value = ''1''\<rparr> Leaf)
       \<lparr>var_name = ''b'', var_value = ''2''\<rparr>
       (Node Black (Node Red Leaf \<lparr>var_name = ''c'', var_value = ''3''\<rparr> Leaf)
         \<lparr>var_name = ''d'', var_value = ''4''\<rparr>
         (Node Red Leaf \<lparr>var_name = ''e'', var_value = ''''\<rparr> Leaf))"
  by code_simp

lemma sample_variables_ok: "vars_ok sample_variables"
  unfolding sample_variables_eval
  by (simp add: vars_ok_def vrbt_ok_def rb_tree_def variablecmp_def)

text \<open>The trees a program can build with the operations of \<open>variables.c\<close> and its callers.\<close>

inductive vars_reachable :: "variables \<Rightarrow> bool" where
  empty: "vars_reachable Leaf"
| insert: "vars_reachable vs \<Longrightarrow> insert_variable v vs = Inr vs' \<Longrightarrow> vars_reachable vs'"
| assign: "vars_reachable vs \<Longrightarrow> lookup_value vs n \<noteq> None \<Longrightarrow> vars_reachable (assign_variable n x vs)"
| remove: "vars_reachable vs \<Longrightarrow> find_variable vs n = Some v \<Longrightarrow> remove_variable v vs = Inr vs'
    \<Longrightarrow> vars_reachable vs'"

lemma add_variable_insert: "insert_variable v vs = add_variable (var_name v) (var_value v) vs"
  by (cases v) (simp add: add_variable_def new_global_variable_def)

lemma vars_reachable_ok: "vars_reachable vs \<Longrightarrow> vars_ok vs"
proof (induction rule: vars_reachable.induct)
  case (insert vs v vs')
  then show ?case
    using add_variable_new[of vs "var_name v" "var_value v"]
      add_variable_present[of vs "var_name v" "var_value v"]
    by (cases "lookup_value vs (var_name v)") (auto simp: add_variable_insert)
next
  case (assign vs n x)
  then show ?case using assign_variable_present by blast
next
  case (remove vs n v vs')
  then show ?case using remove_variable_correct[of vs v] by (auto simp: find_variable_Some)
qed simp

text \<open>
  C6: Every tree of variables the code can build by inserting, overwriting and removing is
  sorted by \<open>strcmp\<close> without duplicate names, obeys the red-black colouring, and is therefore
  at most about twice as deep as a perfectly balanced one: a lookup costs logarithmic time.
\<close>

theorem reachable_variables_balanced:
  assumes "vars_reachable vs"
  shows "ordered variablecmp (inorder vs) \<and> rb_tree vs
    \<and> distinct (map var_name (inorder vs))
    \<and> 2 ^ ((vrbt_depth vs + 1) div 2) \<le> length (inorder vs) + 1"
  using vars_reachable_ok[OF assms] names_distinct rb_tree_depth
  by (auto simp: vars_ok_def vrbt_ok_def)

theorem reachable_variables_balanced_witness:
  "rb_tree (Node Black Leaf \<lparr>var_name = ''a'', var_value = ''1''\<rparr> Leaf)"
proof -
  have "vars_reachable (Node Black Leaf \<lparr>var_name = ''a'', var_value = ''1''\<rparr> Leaf)"
    by (rule vars_reachable.insert[OF vars_reachable.empty, of "\<lparr>var_name = ''a'', var_value = ''1''\<rparr>"])
       (simp add: insert_variable_def vrbt_insert_def)
  then show ?thesis using reachable_variables_balanced by blast
qed

text \<open>
  \<open>AZ(VRBT_INSERT(...))\<close> succeeds exactly when the name is new; then the node stands at its
  sorted place, every other lookup is unchanged, and otherwise the worker process aborts.
\<close>

lemma insert_variable_outcome:
  assumes "vars_ok vs"
  shows "if lookup_value vs (var_name v) = None
    then \<exists>vs'. insert_variable v vs = Inr vs' \<and> vars_ok vs'
      \<and> lookup_value vs' = (lookup_value vs)(var_name v \<mapsto> var_value v)
      \<and> inorder vs' = filter (\<lambda>w. strcmp (var_name w) (var_name v) < 0) (inorder vs) @ v
          # filter (\<lambda>w. strcmp (var_name v) (var_name w) < 0) (inorder vs)
    else insert_variable v vs = Inl Assert_Failed"
proof (cases "lookup_value vs (var_name v) = None")
  case True
  then have "\<forall>w \<in> set (inorder vs). variablecmp v w \<noteq> 0"
    using assms by (auto simp: lookup_None_iff vcmp.cmp_0_iff)
  then obtain vs' where "vrbt_insert variablecmp v vs = Inr (None, vs')"
      "inorder vs' = filter (\<lambda>w. variablecmp w v < 0) (inorder vs) @ v
         # filter (\<lambda>w. variablecmp v w < 0) (inorder vs)"
    using vcmp.insert_new assms unfolding vars_ok_def by blast
  moreover obtain vs'' where "insert_variable v vs = Inr vs''" "vars_ok vs''"
      "lookup_value vs'' = (lookup_value vs)(var_name v \<mapsto> var_value v)"
    using add_variable_new[OF assms True, of "var_value v"] by (auto simp: add_variable_insert)
  ultimately show ?thesis
    using True by (simp add: insert_variable_def variablecmp_def)
next
  case False
  then show ?thesis
    using add_variable_present[OF assms False, of "var_value v"] by (simp add: add_variable_insert)
qed

text \<open>
  C28: Removing a variable that is in the tree always succeeds, removes that one node, leaves the
  order and value of all others, and makes its name unset.
\<close>

theorem remove_variable_outcome:
  assumes "vars_ok vs" "find_variable vs n = Some v"
  shows "\<exists>vs'. remove_variable v vs = Inr vs' \<and> vars_ok vs'
    \<and> inorder vs' = filter (\<lambda>w. var_name w \<noteq> n) (inorder vs)
    \<and> lookup_value vs' = (lookup_value vs)(n := None)
    \<and> length (inorder vs) = Suc (length (inorder vs'))"
proof -
  have v: "v \<in> set (inorder vs)" "var_name v = n"
    using assms by (auto simp: find_variable_Some)
  obtain vs' where vs': "remove_variable v vs = Inr vs'" "vars_ok vs'"
      "inorder vs' = filter (\<lambda>w. var_name w \<noteq> n) (inorder vs)"
    using remove_variable_correct[OF assms(1) v(1)] v(2) by blast
  moreover have "lookup_value vs' = (lookup_value vs)(n := None)"
    using drop_variable_correct[OF assms(1), of n] assms(2) vs'(1) by (simp add: drop_variable_def)
  moreover have "length (inorder vs) = Suc (length (inorder vs'))"
    using remove_shrinks vs'(1) unfolding remove_variable_def by fastforce
  ultimately show ?thesis by blast
qed

theorem remove_variable_outcome_witness:
  "\<exists>vs'. remove_variable \<lparr>var_name = ''b'', var_value = ''2''\<rparr> sample_variables = Inr vs'
    \<and> map var_name (inorder vs') = [''a'', ''c'', ''d'', ''e'']"
  using remove_variable_outcome[OF sample_variables_ok, of "''b''" "\<lparr>var_name = ''b'', var_value = ''2''\<rparr>"]
  unfolding sample_variables_eval
  by (auto simp: find_variable_def variablecmp_def)

text \<open>
  C27: \<open>flush_global_variables\<close> frees every variable exactly once, in name order, while it removes
  the nodes under the traversal, and ends with an empty tree.
\<close>

theorem flush_frees_everything_once:
  assumes "vars_ok vs"
  shows "flush_global_variables vs = Inr (Leaf, inorder vs)"
  using assms by (rule flush_global_variables_correct)

theorem flush_frees_everything_once_witness:
  "map_sum id (map var_name \<circ> snd) (flush_global_variables sample_variables)
    = Inr [''a'', ''b'', ''c'', ''d'', ''e'']"
  unfolding flush_frees_everything_once[OF sample_variables_ok] by (simp add: sample_variables_eval)

text \<open>
  C32: The outcome of \<open>dump_variables\<close> in every case. The text is the JSON object of the selected
  variables, in name order. Streaming appends it to the body being built. Otherwise it is
  returned in the workspace when it fits with its terminator, and a text as long as the
  reservation or longer is written past the end of it: the overflow test comes after the store,
  so the graceful failure is only reached when nothing at all can be reserved.
\<close>

theorem dump_variables_outcome:
  "dump_variables ops ctx vs stream prefix =
    (let js = json_object (filter (dump_selected prefix) (inorder vs));
         reserved = ws_reserve_all ops (ctx_ws ctx)
     in if reserved = 0
        then Inr (vrt_fail Workspace_Overflow (ctx\<lparr>ctx_ws := ws_release ops (ctx_ws ctx) 0\<rparr>), None)
        else if stream \<and> streams_to_body ctx
        then Inr (ctx\<lparr>ctx_vsb := ctx_vsb ctx @ js, ctx_ws := ws_release ops (ctx_ws ctx) 1\<rparr>, Some [])
        else if length js < reserved
        then Inr (ctx\<lparr>ctx_ws := ws_release ops (ctx_ws ctx) (length js + 1)\<rparr>, Some js)
        else Inl Out_Of_Bounds)"
  using dump_streaming[of stream ctx ops vs prefix] dump_to_workspace[of stream ctx ops _ prefix vs]
  by (auto simp: Let_def dump_variables_def)

text \<open>
  \<open>get\<close> returns the value stored under the name, or the fallback when the name is unset or
  NULL; the only other outcome is NULL with a workspace failure recorded.
\<close>

lemma get_variable_outcome:
  assumes "ws_faithful ops"
    and "wanted = (case name of None \<Rightarrow> fallback
      | Some n \<Rightarrow> (case lookup_value vs n of None \<Rightarrow> fallback | Some x \<Rightarrow> Some x))"
  shows "\<exists>w. get_variable ops ctx vs name fallback = (ctx\<lparr>ctx_ws := w\<rparr>, wanted)
    \<or> get_variable ops ctx vs name fallback = (vrt_fail Workspace_Overflow (ctx\<lparr>ctx_ws := w\<rparr>), None)
      \<and> wanted \<noteq> None"
proof -
  have "get_variable ops ctx vs name fallback = copy_result ops ctx wanted"
    unfolding get_variable_def assms(2)
    by (cases name) (auto simp: lookup_value_def split: option.splits)
  then show ?thesis
  proof (cases wanted)
    case None
    then show ?thesis
      using \<open>get_variable ops ctx vs name fallback = copy_result ops ctx wanted\<close>
      by (intro exI[of _ "ctx_ws ctx"]) (simp add: copy_result_def)
  next
    case (Some s)
    then show ?thesis
      using \<open>get_variable ops ctx vs name fallback = copy_result ops ctx wanted\<close>
      by (rule_tac copy_or_fail_cases[OF assms(1), of ctx s]) (auto simp: copy_result_def)
  qed
qed

end
