(* ===== verification/Env.thy ===== *)
theory Env
  imports Variables
begin

text \<open>
  \<open>vmod_cfg_env.c\<close>: the object \<open>cfg.env\<close>, a tree of variables filled once from the environment
  of the process. \<open>environ\<close> is the list of its entries, in order.
\<close>

record env =
  env_name :: string
  env_variables :: variables

text \<open>One entry: everything before the first \<open>=\<close> is the name; entries without one are skipped.\<close>

definition load_env_entry :: "string \<Rightarrow> variables \<Rightarrow> variables res" where
  "load_env_entry entry vs =
     (case strchr entry (CHR ''='') of
        None \<Rightarrow> Inr vs
      | Some i \<Rightarrow> insert_variable (new_global_variable entry i (drop (i + 1) entry)) vs)"

definition load_env :: "string list \<Rightarrow> env \<Rightarrow> env res" where
  "load_env environ e =
     res_bind (flush_global_variables (env_variables e)) (\<lambda>(vs, freed).
     res_bind (res_fold load_env_entry environ vs) (\<lambda>vs'.
       Inr (e\<lparr>env_variables := vs'\<rparr>)))"

text \<open>The argument \<open>env\<close> of the constructor and the destructor is the slot of the VCL object.\<close>

definition vmod_env__init :: "string list \<Rightarrow> env option \<Rightarrow> string \<Rightarrow> env option res" where
  "vmod_env__init environ slot vcl_name =
     must (slot = None)
       (res_bind (load_env environ \<lparr>env_name = vcl_name, env_variables = Leaf\<rparr>) (\<lambda>e. Inr (Some e)))"

definition vmod_env__fini :: "env option \<Rightarrow> env option res" where
  "vmod_env__fini slot =
     (case slot of
        None \<Rightarrow> Inl Assert_Failed
      | Some e \<Rightarrow> res_bind (flush_global_variables (env_variables e)) (\<lambda>(vs, freed). Inr None))"

definition vmod_env_dump ::
  "'w ws_ops \<Rightarrow> ('w, 'h) vrt_ctx \<Rightarrow> env \<Rightarrow> bool \<Rightarrow> string option \<Rightarrow> (('w, 'h) vrt_ctx \<times> string option) res" where
  "vmod_env_dump ops ctx e stream prefix = dump_variables ops ctx (env_variables e) stream prefix"

definition vmod_env_is_set :: "env \<Rightarrow> string option \<Rightarrow> bool" where
  "vmod_env_is_set e name = is_set_variable (env_variables e) name"

definition vmod_env_get ::
  "'w ws_ops \<Rightarrow> ('w, 'h) vrt_ctx \<Rightarrow> env \<Rightarrow> string option \<Rightarrow> string option \<Rightarrow> ('w, 'h) vrt_ctx \<times> string option" where
  "vmod_env_get ops ctx e name fallback = get_variable ops ctx (env_variables e) name fallback"

section \<open>What is loaded\<close>

text \<open>The bindings an environment stands for.\<close>

definition env_binding :: "string \<Rightarrow> (string \<times> string) option" where
  "env_binding entry =
     map_option (\<lambda>i. (take i entry, drop (i + 1) entry)) (strchr entry (CHR ''=''))"

definition env_bindings :: "string list \<Rightarrow> (string \<times> string) list" where
  "env_bindings environ = List.map_filter env_binding environ"

lemma env_binding_split: "CHR ''='' \<notin> set n \<Longrightarrow> env_binding (n @ CHR ''='' # v) = Some (n, v)"
  by (simp add: env_binding_def strchr_append)

lemma load_env_entry_binding:
  "load_env_entry entry vs =
     (case env_binding entry of None \<Rightarrow> Inr vs | Some (n, v) \<Rightarrow> add_variable n v vs)"
proof (cases "strchr entry (CHR ''='')")
  case (Some i)
  then show ?thesis
    using strchr_Some[OF Some]
    by (simp add: load_env_entry_def env_binding_def add_variable_def new_global_variable_def)
qed (simp add: load_env_entry_def env_binding_def del: strchr_None_iff)

lemma load_env_entries:
  "res_fold load_env_entry environ vs = res_fold (\<lambda>(n, v). add_variable n v) (env_bindings environ) vs"
  by (induction environ arbitrary: vs)
     (auto simp: env_bindings_def map_filter_simps load_env_entry_binding
       split: option.splits intro!: res_bind_cong)

lemma init_loads:
  "vmod_env__init environ None vcl_name =
    res_bind (res_fold (\<lambda>(n, v). add_variable n v) (env_bindings environ) Leaf)
      (\<lambda>vs. Inr (Some \<lparr>env_name = vcl_name, env_variables = vs\<rparr>))"
  using flush_global_variables_correct[OF vars_ok_Leaf]
  by (simp add: vmod_env__init_def load_env_def load_env_entries res_bind_assoc)

section \<open>Properties\<close>

lemma env_init_cases:
  "if distinct (map fst (env_bindings environ))
   then \<exists>e. vmod_env__init environ None vcl_name = Inr (Some e) \<and> env_name e = vcl_name
     \<and> vars_ok (env_variables e) \<and> lookup_value (env_variables e) = map_of (env_bindings environ)
   else vmod_env__init environ None vcl_name = Inl Assert_Failed"
proof (cases "distinct (map fst (env_bindings environ))")
  case True
  then obtain vs where "res_fold (\<lambda>(n, v). add_variable n v) (env_bindings environ) Leaf = Inr vs"
      "vars_ok vs" "lookup_value vs = lookup_value Leaf ++ map_of (env_bindings environ)"
    using vars.add_all[OF vars_ok_Leaf, of "env_bindings environ"] by auto
  moreover have "lookup_value Leaf = Map.empty"
    by (simp add: fun_eq_iff)
  ultimately show ?thesis
    using True by (simp add: init_loads)
next
  case False
  then show ?thesis
    using vars.add_all_clash[OF vars_ok_Leaf, of "env_bindings environ"] by (simp add: init_loads)
qed

text \<open>What the object then answers, and that its destructor succeeds.\<close>

lemma env_is_set_cases:
  assumes "vmod_env__init environ None vcl_name = Inr (Some e)"
  shows "vmod_env_is_set e name = (case name of None \<Rightarrow> False
      | Some n \<Rightarrow> n \<in> fst ` set (env_bindings environ))
    \<and> vmod_env__fini (Some e) = Inr None"
proof -
  have e: "vars_ok (env_variables e)" "lookup_value (env_variables e) = map_of (env_bindings environ)"
    using env_init_cases[of environ vcl_name] assms by (auto split: if_splits)
  have "find_variable (env_variables e) n \<noteq> None \<longleftrightarrow> n \<in> fst ` set (env_bindings environ)" for n
    using fun_cong[OF e(2), of n] map_of_eq_None_iff[of "env_bindings environ" n]
    by (cases "find_variable (env_variables e) n") (auto simp: lookup_value_def)
  then show ?thesis
    using flush_global_variables_correct[OF e(1)]
    by (cases name) (simp_all add: vmod_env_is_set_def is_set_variable_def vmod_env__fini_def)
qed

text \<open>
  C33: Creating a \<open>cfg.env\<close> object from an environment whose names are distinct succeeds, and every
  name then maps to exactly the text after the first \<open>=\<close> of its entry; entries without \<open>=\<close>
  are ignored. The object answers \<open>is_set\<close> for exactly those names and never for NULL, and its
  destructor succeeds. When two entries share a name the constructor aborts the process.
\<close>

theorem env_init_outcome:
  "if distinct (map fst (env_bindings environ))
   then \<exists>e. vmod_env__init environ None vcl_name = Inr (Some e) \<and> env_name e = vcl_name
     \<and> vars_ok (env_variables e) \<and> lookup_value (env_variables e) = map_of (env_bindings environ)
     \<and> (\<forall>n. vmod_env_is_set e (Some n) = (n \<in> fst ` set (env_bindings environ)))
     \<and> \<not> vmod_env_is_set e None \<and> vmod_env__fini (Some e) = Inr None
   else vmod_env__init environ None vcl_name = Inl Assert_Failed"
proof (cases "distinct (map fst (env_bindings environ))")
  case True
  then obtain e where e: "vmod_env__init environ None vcl_name = Inr (Some e)" "env_name e = vcl_name"
      "vars_ok (env_variables e)" "lookup_value (env_variables e) = map_of (env_bindings environ)"
    using env_init_cases[of environ vcl_name] by auto
  then show ?thesis
    using True env_is_set_cases[OF e(1), of None] env_is_set_cases[OF e(1), of "Some n" for n] by simp
qed (use env_init_cases[of environ vcl_name] in simp)

end
