(* ===== verification/Vmod.thy ===== *)
theory Vmod
  imports Cfg_Prelude
begin

text \<open>
  \<open>vmod_cfg.c\<close> and \<open>helpers.c\<close>: the events a VCL sends to the module, and the process-wide state
  they keep: a reference count, the handle of the Lua library reopened with global symbols,
  and the class of the script locks. \<open>dladdr\<close>, \<open>dlopen\<close>, \<open>dlclose\<close> and \<open>Lck_CreateClass\<close> are
  parameters; \<open>vm_handles\<close> and \<open>vm_classes\<close> record which of their results are live.
\<close>

datatype vcl_event = VCL_EVENT_LOAD | VCL_EVENT_WARM | VCL_EVENT_COLD | VCL_EVENT_DISCARD

record vmod_state =
  vm_refs :: uint32
  vm_lua :: "nat option"
  vm_script_class :: "nat option"
  vm_handles :: "nat list"
  vm_classes :: "nat list"
  vm_curl_inits :: nat

record loader_ops =
  ld_lua_fname :: "string option"
  ld_dlopen :: "string \<Rightarrow> nat option"
  ld_dlclose_ok :: "nat \<Rightarrow> bool"
  ld_create_class :: "nat option"

definition vmod_state_init :: vmod_state where
  "vmod_state_init = \<lparr>vm_refs = 0, vm_lua = None, vm_script_class = None, vm_handles = [],
     vm_classes = [], vm_curl_inits = 0\<rparr>"

text \<open>\<open>dlreopen(&luaL_newstate)\<close>: the library that holds the address, opened again.\<close>

definition dlreopen :: "loader_ops \<Rightarrow> nat res" where
  "dlreopen ops =
     (case ld_lua_fname ops of
        None \<Rightarrow> Inl Assert_Failed
      | Some fname \<Rightarrow> (case ld_dlopen ops fname of None \<Rightarrow> Inl Assert_Failed | Some h \<Rightarrow> Inr h))"

fun vmod_event_function :: "loader_ops \<Rightarrow> vcl_event \<Rightarrow> vmod_state \<Rightarrow> vmod_state res" where
  "vmod_event_function ops VCL_EVENT_LOAD s =
     (let s = s\<lparr>vm_curl_inits := vm_curl_inits s + 1\<rparr> in
      res_bind
        (if vm_refs s = 0
         then res_bind (dlreopen ops) (\<lambda>h.
           (case ld_create_class ops of
              None \<Rightarrow> Inl Assert_Failed
            | Some k \<Rightarrow> Inr (s\<lparr>vm_lua := Some h, vm_handles := h # vm_handles s,
                              vm_script_class := Some k, vm_classes := k # vm_classes s\<rparr>)))
         else Inr s)
        (\<lambda>s. Inr (s\<lparr>vm_refs := vm_refs s + 1\<rparr>)))"
| "vmod_event_function ops VCL_EVENT_DISCARD s =
     must (vm_refs s > 0)
       (let s = s\<lparr>vm_refs := vm_refs s - 1\<rparr> in
        if vm_refs s = 0
        then (case vm_lua s of
                None \<Rightarrow> Inl Null_Deref
              | Some h \<Rightarrow> must (ld_dlclose_ok ops h)
                  (Inr (s\<lparr>vm_handles := remove1 h (vm_handles s), vm_classes := []\<rparr>)))
        else Inr s)"
| "vmod_event_function ops e s = Inr s"

definition run_events :: "loader_ops \<Rightarrow> vcl_event list \<Rightarrow> vmod_state res" where
  "run_events ops es = res_fold (vmod_event_function ops) es vmod_state_init"

section \<open>The reference count owns the library and the lock class\<close>

definition loads :: "vcl_event list \<Rightarrow> nat" where
  "loads es = count_list es VCL_EVENT_LOAD"

definition discards :: "vcl_event list \<Rightarrow> nat" where
  "discards es = count_list es VCL_EVENT_DISCARD"

text \<open>Varnish discards a VCL only after it was loaded: no prefix has more discards than loads.\<close>

definition well_bracketed :: "vcl_event list \<Rightarrow> bool" where
  "well_bracketed es \<longleftrightarrow> (\<forall>k \<le> length es. discards (take k es) \<le> loads (take k es))"

text \<open>The documented success of the dynamic loader and of the lock class constructor.\<close>

definition loader_works :: "loader_ops \<Rightarrow> nat \<Rightarrow> nat \<Rightarrow> bool" where
  "loader_works ops h k \<longleftrightarrow> (\<exists>f. ld_lua_fname ops = Some f \<and> ld_dlopen ops f = Some h)
     \<and> ld_dlclose_ok ops h \<and> ld_create_class ops = Some k"

definition vmod_inv :: "nat \<Rightarrow> nat \<Rightarrow> nat \<Rightarrow> vmod_state \<Rightarrow> bool" where
  "vmod_inv h k n s \<longleftrightarrow> unat (vm_refs s) = n
     \<and> (if n = 0 then vm_handles s = [] \<and> vm_classes s = []
        else vm_lua s = Some h \<and> vm_handles s = [h]
          \<and> vm_script_class s = Some k \<and> vm_classes s = [k])"

lemma event_load:
  assumes "loader_works ops h k" "vmod_inv h k n s" "n + 1 < 2 ^ 32"
  shows "\<exists>s'. vmod_event_function ops VCL_EVENT_LOAD s = Inr s' \<and> vmod_inv h k (n + 1) s'"
proof -
  have "unat (vm_refs s + 1) = n + 1"
    using assms by (auto simp: vmod_inv_def unat_word_ariths)
  moreover have "vm_refs s = 0 \<longleftrightarrow> n = 0"
    using assms by (auto simp: vmod_inv_def unat_eq_0)
  ultimately show ?thesis
    using assms by (cases "n = 0") (auto simp: vmod_inv_def loader_works_def dlreopen_def Let_def)
qed

lemma event_discard:
  assumes "loader_works ops h k" "vmod_inv h k (n + 1) s"
  shows "\<exists>s'. vmod_event_function ops VCL_EVENT_DISCARD s = Inr s' \<and> vmod_inv h k n s'"
proof -
  have pos: "vm_refs s > 0"
    using assms by (auto simp: vmod_inv_def word_gt_0_no intro: word_neq_0_conv[THEN iffD1])
  have n: "unat (vm_refs s - 1) = n"
    using assms unat_minus_one[of "vm_refs s"] pos by (simp add: vmod_inv_def)
  then have "vm_refs s - 1 = 0 \<longleftrightarrow> n = 0"
    by (auto simp: unat_eq_0)
  then show ?thesis
    using assms pos n by (cases "n = 0") (auto simp: vmod_inv_def loader_works_def Let_def)
qed

lemma event_other:
  "e = VCL_EVENT_WARM \<or> e = VCL_EVENT_COLD \<Longrightarrow> vmod_event_function ops e s = Inr s"
  by auto

lemma run_events_inv:
  assumes "loader_works ops h k" "well_bracketed es" "loads es < 2 ^ 32"
  shows "\<exists>s. run_events ops es = Inr s \<and> vmod_inv h k (loads es - discards es) s"
  using assms(2,3)
proof (induction es rule: rev_induct)
  case Nil
  then show ?case
    by (simp add: run_events_def vmod_inv_def vmod_state_init_def loads_def discards_def)
next
  case (snoc e es)
  have wb: "well_bracketed es"
    unfolding well_bracketed_def
  proof (intro allI impI)
    fix j assume "j \<le> length es"
    then show "discards (take j es) \<le> loads (take j es)"
      using snoc.prems(1)[unfolded well_bracketed_def, rule_format, of j] by simp
  qed
  have last: "discards (es @ [e]) \<le> loads (es @ [e])"
    using snoc.prems(1)[unfolded well_bracketed_def, rule_format, of "length (es @ [e])"] by simp
  have "loads es < 2 ^ 32"
    using snoc.prems(2) by (simp add: loads_def split: if_splits)
  then obtain s where s: "run_events ops es = Inr s" "vmod_inv h k (loads es - discards es) s"
    using snoc.IH[OF wb] by blast
  have le: "discards es \<le> loads es"
    using wb[unfolded well_bracketed_def, rule_format, of "length es"] by simp
  have step: "run_events ops (es @ [e]) = vmod_event_function ops e s"
    using s(1) by (simp add: run_events_def res_fold_snoc)
  show ?case
  proof (cases e)
    case VCL_EVENT_LOAD
    then have "loads (es @ [e]) - discards (es @ [e]) = (loads es - discards es) + 1"
      using le by (simp add: loads_def discards_def)
    moreover have "(loads es - discards es) + 1 < 2 ^ 32"
      using snoc.prems(2) VCL_EVENT_LOAD by (simp add: loads_def)
    ultimately show ?thesis
      using event_load[OF assms(1) s(2)] step VCL_EVENT_LOAD by simp
  next
    case VCL_EVENT_DISCARD
    then have "loads es - discards es = (loads (es @ [e]) - discards (es @ [e])) + 1"
      using last by (simp add: loads_def discards_def)
    then show ?thesis
      using event_discard[OF assms(1)] s(2) step VCL_EVENT_DISCARD by metis
  qed (use s step in \<open>simp_all add: loads_def discards_def\<close>)
qed

section \<open>Properties\<close>

text \<open>
  C34: For every sequence of VCL events in which discards follow their loads (and fewer than
  2^32 loads), no assertion fails, and the Lua library and the lock class are held exactly once
  while some VCL is loaded and not at all otherwise. Warm and cold events change nothing.
\<close>

theorem events_balance_resources:
  assumes "loader_works ops h k" "well_bracketed es" "loads es < 2 ^ 32"
  shows "\<exists>s. run_events ops es = Inr s
    \<and> unat (vm_refs s) = loads es - discards es
    \<and> vm_handles s = (if loads es = discards es then [] else [h])
    \<and> vm_classes s = (if loads es = discards es then [] else [k])"
proof -
  have "discards es \<le> loads es"
    using assms(2)[unfolded well_bracketed_def, rule_format, of "length es"] by simp
  then show ?thesis
    using run_events_inv[OF assms] by (auto simp: vmod_inv_def)
qed

definition sample_loader :: loader_ops where
  "sample_loader = \<lparr>ld_lua_fname = Some ''liblua.so'', ld_dlopen = (\<lambda>f. Some 7),
     ld_dlclose_ok = (\<lambda>h. True), ld_create_class = Some 9\<rparr>"

theorem events_balance_resources_witness:
  "\<exists>s. run_events sample_loader
      [VCL_EVENT_LOAD, VCL_EVENT_WARM, VCL_EVENT_LOAD, VCL_EVENT_DISCARD, VCL_EVENT_COLD] = Inr s
    \<and> unat (vm_refs s) = 1 \<and> vm_handles s = [7] \<and> vm_classes s = [9]"
proof -
  have "well_bracketed [VCL_EVENT_LOAD, VCL_EVENT_WARM, VCL_EVENT_LOAD, VCL_EVENT_DISCARD, VCL_EVENT_COLD]"
    by (simp add: well_bracketed_def loads_def discards_def take_Cons' le_Suc_eq numeral_eq_Suc)
  moreover have "loader_works sample_loader 7 9"
    by (simp add: loader_works_def sample_loader_def)
  ultimately show ?thesis
    using events_balance_resources[of sample_loader 7 9
      "[VCL_EVENT_LOAD, VCL_EVENT_WARM, VCL_EVENT_LOAD, VCL_EVENT_DISCARD, VCL_EVENT_COLD]"]
    by (simp add: loads_def discards_def)
qed

end
