(* ===== verification/Remote.thy ===== *)
theory Remote
  imports Varnish "HOL-Library.Multiset"
begin

text \<open>
  \<open>remote.c\<close>: a configuration text kept somewhere else (a path or a URL), when it is read again,
  the backup file, and the text last accepted. The file system, \<open>libcurl\<close> and the clock are
  parameters: an \<open>os\<close> record for one call, with what is on disk as its only changing part.
  Buffers are seen as C strings, so a text ends at its first NUL byte.
\<close>

section \<open>Remotes and their environment\<close>

datatype remote_reader = Read_Path | Read_Url

record curl_conf =
  connection_timeout :: uint32
  transfer_timeout :: uint32
  ssl_verify_peer :: bool
  ssl_verify_host :: bool
  ssl_cafile :: "string option"
  ssl_capath :: "string option"
  curl_proxy :: "string option"

record remote =
  location_raw :: string
  location_parsed :: string
  backup :: "string option"
  automated_backups :: bool
  period :: uint32
  curl :: curl_conf
  reader :: remote_reader
  tst :: int
  reloading :: bool
  contents :: "string option"

datatype curl_timeout = No_Timeout | Millis uint32 | Secs uint32

record curl_request =
  rq_url :: string
  rq_connect_timeout :: curl_timeout
  rq_timeout :: curl_timeout
  rq_verify_peer :: bool
  rq_verify_host :: bool
  rq_cainfo :: "string option"
  rq_capath :: "string option"
  rq_proxy :: "string option"

record curl_outcome =
  cr_ok :: bool
  cr_status :: int
  cr_blocks :: "string list"

text \<open>
  \<open>os_files\<close> is the disk; \<open>os_fread f c\<close> how many items \<open>fread\<close> returns for a file \<open>f\<close> of
  contents \<open>c\<close>; \<open>os_can_write f\<close> whether \<open>fopen(f, "wb")\<close> works; \<open>os_fputs f s\<close> what is in the
  file after \<open>fputs\<close> and \<open>fclose\<close>, and whether \<open>fputs\<close> succeeded; \<open>os_has_ms\<close> the configure tests
  for the millisecond options of \<open>libcurl\<close>.
\<close>

record os =
  os_files :: "string \<Rightarrow> string option"
  os_fread :: "string \<Rightarrow> string \<Rightarrow> nat"
  os_can_write :: "string \<Rightarrow> bool"
  os_fputs :: "string \<Rightarrow> string \<Rightarrow> string \<times> bool"
  os_curl_init :: bool
  os_has_ms :: bool
  os_curl_perform :: "curl_request \<Rightarrow> curl_outcome"

section \<open>Creating and releasing\<close>

text \<open>\<open>SET_OPTIONAL_STRING\<close>: NULL and the empty string are stored as NULL.\<close>

definition optional_string :: "string option \<Rightarrow> string option" where
  "optional_string v = (case v of None \<Rightarrow> None | Some s \<Rightarrow> if length s > 0 then Some s else None)"

definition set_location :: "remote_reader \<Rightarrow> nat \<Rightarrow> string \<Rightarrow> string \<times> remote_reader" where
  "set_location type offset location = (drop offset location, type)"

definition locate :: "string \<Rightarrow> string \<times> remote_reader" where
  "locate location =
     (if has_prefix location ''file://'' then set_location Read_Path 7 location
      else if has_prefix location ''http://'' then set_location Read_Url 7 location
      else if has_prefix location ''https://'' then set_location Read_Url 0 location
      else set_location Read_Path 0 location)"

definition new_remote ::
  "string \<Rightarrow> string option \<Rightarrow> bool \<Rightarrow> uint32 \<Rightarrow> uint32 \<Rightarrow> uint32 \<Rightarrow> bool \<Rightarrow> bool
    \<Rightarrow> string option \<Rightarrow> string option \<Rightarrow> string option \<Rightarrow> remote" where
  "new_remote location backup0 automated period0 connect_timeout transfer_timeout0
     verify_peer verify_host cafile capath proxy =
     (let (parsed, read) = locate location in
      \<lparr>location_raw = location, location_parsed = parsed,
       backup = optional_string backup0,
       automated_backups = automated, period = period0,
       curl = \<lparr>connection_timeout = connect_timeout, transfer_timeout = transfer_timeout0,
         ssl_verify_peer = verify_peer, ssl_verify_host = verify_host,
         ssl_cafile = optional_string cafile, ssl_capath = optional_string capath,
         curl_proxy = optional_string proxy\<rparr>,
       reader = read, tst = 0, reloading = False, contents = None\<rparr>)"

text \<open>
  The arguments that the constructors of the three objects share, and the test they open with.
\<close>

record remote_args =
  ra_location :: "string option"
  ra_backup :: "string option"
  ra_automated_backups :: bool
  ra_period :: int
  ra_ignore_load_failures :: bool
  ra_connection_timeout :: int
  ra_transfer_timeout :: int
  ra_ssl_verify_peer :: bool
  ra_ssl_verify_host :: bool
  ra_ssl_cafile :: "string option"
  ra_ssl_capath :: "string option"
  ra_proxy :: "string option"

definition numbers_ok :: "remote_args \<Rightarrow> bool" where
  "numbers_ok a \<longleftrightarrow> ra_period a \<ge> 0 \<and> ra_connection_timeout a \<ge> 0 \<and> ra_transfer_timeout a \<ge> 0"

definition location_given :: "remote_args \<Rightarrow> bool" where
  "location_given a \<longleftrightarrow> (case ra_location a of None \<Rightarrow> False | Some l \<Rightarrow> length l > 0)"

definition new_remote_from :: "remote_args \<Rightarrow> remote" where
  "new_remote_from a =
     new_remote (case ra_location a of None \<Rightarrow> [] | Some l \<Rightarrow> l) (ra_backup a) (ra_automated_backups a)
       (to_unsigned (ra_period a)) (to_unsigned (ra_connection_timeout a))
       (to_unsigned (ra_transfer_timeout a)) (ra_ssl_verify_peer a) (ra_ssl_verify_host a)
       (ra_ssl_cafile a) (ra_ssl_capath a) (ra_proxy a)"

text \<open>The heap strings a remote owns, and those \<open>free_remote\<close> releases (\<open>FREE_STRING\<close>).\<close>

definition remote_strings :: "remote \<Rightarrow> string list" where
  "remote_strings r = location_raw r # location_parsed r #
     List.map_filter id [backup r, ssl_cafile (curl r), ssl_capath (curl r), curl_proxy (curl r), contents r]"

definition free_remote :: "remote \<Rightarrow> string list" where
  "free_remote r = location_raw r # location_parsed r #
     List.map_filter id [ssl_cafile (curl r), ssl_capath (curl r), curl_proxy (curl r), contents r]"

section \<open>Reading\<close>

definition read_file :: "os \<Rightarrow> string \<Rightarrow> string option" where
  "read_file os file =
     (case os_files os file of
        None \<Rightarrow> None
      | Some bytes \<Rightarrow>
          if os_fread os file bytes \<noteq> length bytes then None else Some (c_string bytes))"

definition read_backup :: "os \<Rightarrow> remote \<Rightarrow> string option res" where
  "read_backup os r =
     (case backup r of None \<Rightarrow> Inl Assert_Failed | Some file \<Rightarrow> Inr (read_file os file))"

definition read_path :: "os \<Rightarrow> remote \<Rightarrow> string option" where
  "read_path os r = read_file os (location_parsed r)"

record read_url_ctx =
  body :: string
  bodylen :: nat

text \<open>\<open>memcpy\<close> of the block at offset \<open>bodylen\<close>; all of it is always taken.\<close>

definition read_url_body :: "string \<Rightarrow> read_url_ctx \<Rightarrow> read_url_ctx" where
  "read_url_body block c =
     c\<lparr>body := take (bodylen c) (body c) @ block, bodylen := bodylen c + length block\<rparr>"

definition timeout_option :: "bool \<Rightarrow> uint32 \<Rightarrow> curl_timeout" where
  "timeout_option has_ms t =
     (if t > 0 then (if has_ms then Millis t else Secs (t div 1000)) else No_Timeout)"

definition curl_request_of :: "os \<Rightarrow> remote \<Rightarrow> curl_request" where
  "curl_request_of os r =
     \<lparr>rq_url = location_parsed r,
      rq_connect_timeout = timeout_option (os_has_ms os) (connection_timeout (curl r)),
      rq_timeout = timeout_option (os_has_ms os) (transfer_timeout (curl r)),
      rq_verify_peer = ssl_verify_peer (curl r),
      rq_verify_host = ssl_verify_host (curl r),
      rq_cainfo = ssl_cafile (curl r),
      rq_capath = ssl_capath (curl r),
      rq_proxy = curl_proxy (curl r)\<rparr>"

definition read_url :: "os \<Rightarrow> remote \<Rightarrow> string option res" where
  "read_url os r =
     must (os_curl_init os)
       (let out = os_curl_perform os (curl_request_of os r);
            c = fold read_url_body (cr_blocks out) \<lparr>body = [], bodylen = 0\<rparr>
        in Inr (if cr_ok out
                then (if cr_status out = 200 then Some (c_string (body c)) else None)
                else None))"

definition read_remote :: "os \<Rightarrow> remote \<Rightarrow> string option res" where
  "read_remote os r =
     (case reader r of Read_Path \<Rightarrow> Inr (read_path os r) | Read_Url \<Rightarrow> read_url os r)"

section \<open>Loading\<close>

text \<open>
  The callback of a client: it is given its own state, the buffer and the \<open>is_backup\<close> flag, and
  returns whether it accepted the text, the buffer as it left it and its new state.
\<close>

type_synonym 's remote_callback = "'s \<Rightarrow> string \<Rightarrow> bool \<Rightarrow> (bool \<times> string \<times> 's) res"

text \<open>\<open>if (contents != NULL && strlen(contents) > 0) result = (*callback)(...)\<close>.\<close>

definition offer :: "'s remote_callback \<Rightarrow> string option \<Rightarrow> bool \<Rightarrow> 's \<Rightarrow> (bool \<times> string \<times> 's) res" where
  "offer callback text is_backup s =
     (case text of
        None \<Rightarrow> Inr (False, [], s)
      | Some t \<Rightarrow> if length t > 0 then callback s t is_backup else Inr (False, t, s))"

text \<open>The critical section that replaces the accepted text.\<close>

definition store_contents :: "string \<Rightarrow> remote \<Rightarrow> remote" where
  "store_contents t r = r\<lparr>contents := Some t\<rparr>"

definition check_remote_backup ::
  "os \<Rightarrow> 's remote_callback \<Rightarrow> remote \<Rightarrow> 's \<Rightarrow> (bool \<times> remote \<times> 's) res" where
  "check_remote_backup os callback r s =
     res_bind (read_backup os r) (\<lambda>text.
     res_bind (offer callback text True s) (\<lambda>(result, t, s').
       Inr (result, if result then store_contents t r else r, s')))"

text \<open>\<open>fopen(backup, "wb")\<close>, \<open>fputs\<close>, \<open>fclose\<close>; errors are only logged.\<close>

definition write_backup :: "string \<Rightarrow> string \<Rightarrow> os \<Rightarrow> os" where
  "write_backup file t os =
     (if os_can_write os file
      then os\<lparr>os_files := (os_files os)(file \<mapsto> fst (os_fputs os file t))\<rparr>
      else os)"

text \<open>The first test, outside the mutex, and the critical section that elects one thread.\<close>

definition reload_due :: "bool \<Rightarrow> int \<Rightarrow> remote \<Rightarrow> bool" where
  "reload_due force_load now r \<longleftrightarrow>
     \<not> force_load \<and> \<not> reloading r \<and> period r > 0 \<and> now - tst r > uint (period r)"

definition claim_reload :: "remote \<Rightarrow> bool \<times> remote" where
  "claim_reload r = (if \<not> reloading r then (True, r\<lparr>reloading := True\<rparr>) else (False, r))"

text \<open>The body of \<open>if (force_load || winner)\<close> up to the last critical section.\<close>

definition load_remote ::
  "os \<Rightarrow> bool \<Rightarrow> 's remote_callback \<Rightarrow> remote \<Rightarrow> 's \<Rightarrow> (bool \<times> remote \<times> os \<times> 's) res" where
  "load_remote os force_backup callback r s =
     res_bind (read_remote os r) (\<lambda>text.
     res_bind (offer callback text False s) (\<lambda>(result, t, s').
       if result
       then let r' = store_contents t r in
            Inr (True, r',
              (case backup r' of
                 None \<Rightarrow> os
               | Some file \<Rightarrow> if automated_backups r' \<or> force_backup then write_backup file t os else os),
              s')
       else (case backup r of
           None \<Rightarrow> Inr (False, r, os, s')
         | Some file \<Rightarrow>
             (case os_files os file of
                None \<Rightarrow> Inr (False, r, os, s')
              | Some bytes \<Rightarrow>
                  if length bytes > 0
                  then res_bind (check_remote_backup os callback r s')
                         (\<lambda>(result', r', s''). Inr (result', r', os, s''))
                  else Inr (False, r, os, s')))))"

text \<open>The last critical section.\<close>

definition finish_reload :: "bool \<Rightarrow> bool \<Rightarrow> int \<Rightarrow> remote \<Rightarrow> remote" where
  "finish_reload result winner later r =
     (if result \<or> winner
      then (let r1 = (if result then r\<lparr>tst := later\<rparr> else r)
            in if winner then r1\<lparr>reloading := False\<rparr> else r1)
      else r)"

text \<open>\<open>now\<close> and \<open>later\<close> are what the two calls of \<open>time\<close> return.\<close>

definition check_remote ::
  "os \<Rightarrow> bool \<Rightarrow> bool \<Rightarrow> 's remote_callback \<Rightarrow> int \<Rightarrow> int \<Rightarrow> remote \<Rightarrow> 's
    \<Rightarrow> (bool \<times> remote \<times> os \<times> 's) res" where
  "check_remote os force_load force_backup callback now later r s =
     (let (winner, r1) = (if reload_due force_load now r then claim_reload r else (False, r))
      in if force_load \<or> winner
         then res_bind (load_remote os force_backup callback r1 s) (\<lambda>(result, r2, os', s').
                Inr (result, finish_reload result winner later r2, os', s'))
         else Inr (True, r1, os, s))"

definition inspect_remote :: "('w, 'h) vrt_ctx \<Rightarrow> remote \<Rightarrow> ('w, 'h) vrt_ctx" where
  "inspect_remote ctx r =
     (if streams_to_body ctx
      then (case contents r of None \<Rightarrow> ctx | Some t \<Rightarrow> ctx\<lparr>ctx_vsb := ctx_vsb ctx @ t\<rparr>)
      else ctx)"

lemma store_contents_simps [simp]:
  "backup (store_contents t r) = backup r"
  "automated_backups (store_contents t r) = automated_backups r"
  "contents (store_contents t r) = Some t"
  "tst (store_contents t r) = tst r"
  "reloading (store_contents t r) = reloading r"
  by (simp_all add: store_contents_def)

section \<open>What is read\<close>

lemma read_file_c_string: "read_file os f = Some t \<Longrightarrow> NUL \<notin> set t"
  by (auto simp: read_file_def split: option.splits if_splits)

lemma read_remote_no_nul: "read_remote os r = Inr (Some t) \<Longrightarrow> NUL \<notin> set t"
  by (auto simp: read_remote_def read_path_def read_url_def res_simps must_eq_Inr_iff Let_def
      dest: read_file_c_string split: remote_reader.splits if_splits)

lemma read_backup_no_nul: "read_backup os r = Inr (Some t) \<Longrightarrow> NUL \<notin> set t"
  by (auto simp: read_backup_def dest: read_file_c_string split: option.splits)

lemma read_url_body_fold:
  "bodylen c = length (body c) \<Longrightarrow>
    fold read_url_body bs c = c\<lparr>body := body c @ concat bs, bodylen := length (body c @ concat bs)\<rparr>"
  by (induction bs arbitrary: c) (simp_all add: read_url_body_def)

section \<open>Clients\<close>

text \<open>
  What \<open>remote.c\<close> relies on when it calls back: the buffer is given back as it was, and a rejected
  text leaves the client as it was, as far as \<open>same\<close> looks.
\<close>

locale remote_loader =
  fixes callback :: "'s remote_callback"
    and ok :: "'s \<Rightarrow> bool"
    and same :: "'s \<Rightarrow> 's \<Rightarrow> bool"
  assumes same_refl: "same s s"
    and same_trans: "same s1 s2 \<Longrightarrow> same s2 s3 \<Longrightarrow> same s1 s3"
    and buffer_kept: "ok s \<Longrightarrow> NUL \<notin> set t \<Longrightarrow> callback s t b = Inr (res, t', s') \<Longrightarrow> t' = t"
    and ok_kept: "ok s \<Longrightarrow> NUL \<notin> set t \<Longrightarrow> callback s t b = Inr (res, t', s') \<Longrightarrow> ok s'"
    and rejected_unchanged: "ok s \<Longrightarrow> NUL \<notin> set t \<Longrightarrow> callback s t b = Inr (False, t', s') \<Longrightarrow> same s s'"
begin

lemma offer_accepts:
  assumes "ok s" "\<And>t. text = Some t \<Longrightarrow> NUL \<notin> set t" "offer callback text b s = Inr (True, t, s')"
  shows "text = Some t \<and> t \<noteq> [] \<and> callback s t b = Inr (True, t, s') \<and> ok s'"
proof -
  obtain u where u: "text = Some u" "u \<noteq> []" "callback s u b = Inr (True, t, s')"
    using assms(3) by (auto simp: offer_def split: option.splits if_splits)
  then have "NUL \<notin> set u" using assms(2) by blast
  then show ?thesis
    using u buffer_kept[OF assms(1) _ u(3)] ok_kept[OF assms(1) _ u(3)] by simp
qed

lemma offer_rejects:
  assumes "ok s" "\<And>t. text = Some t \<Longrightarrow> NUL \<notin> set t" "offer callback text b s = Inr (False, t, s')"
  shows "same s s' \<and> ok s'"
  using assms rejected_unchanged ok_kept same_refl by (auto simp: offer_def split: option.splits if_splits)

lemma backup_outcome:
  assumes "ok s" "check_remote_backup os callback r s = Inr (result, r', s')"
  shows "if result then \<exists>t. read_backup os r = Inr (Some t) \<and> t \<noteq> [] \<and> ok s'
      \<and> callback s t True = Inr (True, t, s') \<and> r' = store_contents t r
    else same s s' \<and> ok s' \<and> r' = r"
proof -
  obtain m t where got: "read_backup os r = Inr m"
      and offer: "offer callback m True s = Inr (result, t, s')"
      and r': "r' = (if result then store_contents t r else r)"
    using assms(2) by (auto simp: check_remote_backup_def res_bind_eq_Inr_iff)
  have nul: "\<And>t. m = Some t \<Longrightarrow> NUL \<notin> set t"
    using got read_backup_no_nul by blast
  show ?thesis
  proof (cases result)
    case True
    have "offer callback m True s = Inr (True, t, s')"
      using offer True by simp
    from offer_accepts[OF assms(1) nul this] show ?thesis
      using got r' True by simp
  next
    case False
    have "offer callback m True s = Inr (False, t, s')"
      using offer False by simp
    from offer_rejects[OF assms(1) nul this] show ?thesis
      using r' False by simp
  qed
qed

text \<open>
  The outcome of one load: the m accepted, and where it came from, or nothing changed at all.
\<close>

lemma load_outcome:
  assumes "ok s" "load_remote os force_backup callback r s = Inr (result, r', os', s')"
  shows "ok s' \<and> (if result
    then \<exists>t b s0. t \<noteq> [] \<and> same s s0 \<and> ok s0 \<and> callback s0 t b = Inr (True, t, s') \<and> r' = store_contents t r
      \<and> (if b then read_backup os r = Inr (Some t) \<and> os' = os
         else read_remote os r = Inr (Some t)
           \<and> os' = (case backup r of None \<Rightarrow> os
               | Some f \<Rightarrow> if automated_backups r \<or> force_backup then write_backup f t os else os))
    else same s s' \<and> r' = r \<and> os' = os)"
proof -
  obtain m t s1 accepted where got: "read_remote os r = Inr m"
      and offer: "offer callback m False s = Inr (accepted, t, s1)"
    using assms(2) by (auto simp: load_remote_def res_bind_eq_Inr_iff)
  have nul: "\<And>t. m = Some t \<Longrightarrow> NUL \<notin> set t"
    using got read_remote_no_nul by blast
  show ?thesis
  proof (cases accepted)
    case True
    have "offer callback m False s = Inr (True, t, s1)"
      using offer True by simp
    from offer_accepts[OF assms(1) nul this]
    have t: "m = Some t" "t \<noteq> []" "callback s t False = Inr (True, t, s1)" "ok s1"
      by simp_all
    have "result" "s' = s1" "r' = store_contents t r"
      "os' = (case backup r of None \<Rightarrow> os
         | Some f \<Rightarrow> if automated_backups r \<or> force_backup then write_backup f t os else os)"
      using assms(2) True got offer by (auto simp: load_remote_def Let_def split: option.splits)
    then show ?thesis
      using t got assms(1) same_refl
      by (simp, intro exI[of _ t] conjI exI[of _ s] exI[of _ False]) (blast | simp)+
  next
    case False
    have "offer callback m False s = Inr (False, t, s1)"
      using offer False by simp
    from offer_rejects[OF assms(1) nul this] have s1: "same s s1" "ok s1" by simp_all
    show ?thesis
    proof (cases "\<exists>f bytes. backup r = Some f \<and> os_files os f = Some bytes \<and> length bytes > 0")
      case True
      then have cb: "check_remote_backup os callback r s1 = Inr (result, r', s')" "os' = os"
        using assms(2) \<open>\<not> accepted\<close> got offer
        by (auto simp: load_remote_def res_bind_eq_Inr_iff)
      note outcome = backup_outcome[OF s1(2) cb(1)]
      show ?thesis
      proof (cases result)
        case True
        then obtain t' where "read_backup os r = Inr (Some t')" "t' \<noteq> []" "ok s'"
            "callback s1 t' True = Inr (True, t', s')" "r' = store_contents t' r"
          using outcome by auto
        then show ?thesis
          using True cb(2) s1
          by (simp, intro exI[of _ t'] conjI exI[of _ s1] exI[of _ True]) (blast | simp)+
      next
        case False
        then have "same s1 s'" "ok s'" "r' = r" using outcome by simp_all
        then show ?thesis using False cb(2) same_trans[OF s1(1)] by simp
      qed
    next
      case False
      then show ?thesis
        using assms(2) \<open>\<not> accepted\<close> got offer s1
        by (auto simp: load_remote_def split: option.splits if_splits)
    qed
  qed
qed

lemma check_outcome:
  assumes "ok s" "check_remote os force_load force_backup callback now later r s = Inr (result, r', os', s')"
  shows "ok s' \<and> (if \<not> force_load \<and> \<not> reload_due force_load now r
    then result \<and> r' = r \<and> os' = os \<and> s' = s
    else if result
    then \<exists>t b s0. t \<noteq> [] \<and> same s s0 \<and> ok s0 \<and> callback s0 t b = Inr (True, t, s')
      \<and> r' = r\<lparr>contents := Some t, tst := later\<rparr>
      \<and> (if b then read_backup os r = Inr (Some t) \<and> os' = os
         else read_remote os r = Inr (Some t)
           \<and> os' = (case backup r of None \<Rightarrow> os
               | Some f \<Rightarrow> if automated_backups r \<or> force_backup then write_backup f t os else os))
    else same s s' \<and> r' = r \<and> os' = os)"
proof (cases "\<not> force_load \<and> \<not> reload_due force_load now r")
  case True
  then have "check_remote os force_load force_backup callback now later r s = Inr (True, r, os, s)"
    by (cases "reload_due force_load now r") (simp_all add: check_remote_def)
  then show ?thesis unfolding if_P[OF True] using assms by simp
next
  case False
  define winner where "winner = reload_due force_load now r"
  define r1 where "r1 = (if winner then r\<lparr>reloading := True\<rparr> else r)"
  have due: "reload_due force_load now r \<Longrightarrow> \<not> reloading r"
    by (simp add: reload_due_def)
  have "(if reload_due force_load now r then claim_reload r else (False, r)) = (winner, r1)"
    using due by (simp add: winner_def r1_def claim_reload_def)
  then obtain r2 where load: "load_remote os force_backup callback r1 s = Inr (result, r2, os', s')"
      and r': "r' = finish_reload result winner later r2"
    using assms(2) False by (auto simp: check_remote_def res_bind_eq_Inr_iff winner_def)
  have same: "read_backup os r1 = read_backup os r" "read_remote os r1 = read_remote os r"
    "backup r1 = backup r" "automated_backups r1 = automated_backups r"
    by (simp_all add: r1_def read_backup_def read_remote_def read_path_def read_url_def
        curl_request_of_def Let_def split: remote_reader.splits)
  have ends: "finish_reload True winner later (store_contents t r1) = r\<lparr>contents := Some t, tst := later\<rparr>"
    "finish_reload False winner later r1 = r" for t
    using due by (auto simp: finish_reload_def store_contents_def r1_def winner_def Let_def)
  note outcome = load_outcome[OF assms(1) load, unfolded same]
  show ?thesis
  proof (cases result)
    case True
    obtain t b s0 where "ok s'" "t \<noteq> []" "same s s0" "ok s0" "callback s0 t b = Inr (True, t, s')"
        "r2 = store_contents t r1"
        "if b then read_backup os r = Inr (Some t) \<and> os' = os
         else read_remote os r = Inr (Some t)
           \<and> os' = (case backup r of None \<Rightarrow> os
               | Some f \<Rightarrow> if automated_backups r \<or> force_backup then write_backup f t os else os)"
      using outcome True by auto
    moreover from this have "r' = r\<lparr>contents := Some t, tst := later\<rparr>"
      using r' ends(1) True by simp
    ultimately show ?thesis
      unfolding if_not_P[OF False] if_P[OF True] by blast
  next
    case rejected: False
    then show ?thesis
      using outcome r' ends(2) assms(1) unfolding if_not_P[OF False] by simp
  qed
qed

end

text \<open>
  A client that accepts a text whatever its state, and for which \<open>view\<close> depends on the text alone:
  what a successful load wrote to the backup file, a later load can read back from it.
\<close>

locale remote_client = remote_loader callback ok same
  for callback :: "'s remote_callback"
    and ok :: "'s \<Rightarrow> bool"
    and same :: "'s \<Rightarrow> 's \<Rightarrow> bool" +
  fixes view :: "'s \<Rightarrow> 'v"
  assumes accepted_again: "ok s \<Longrightarrow> ok z \<Longrightarrow> NUL \<notin> set t \<Longrightarrow> callback s t b = Inr (True, t', s') \<Longrightarrow>
      \<exists>z'. callback z t c = Inr (True, t, z') \<and> view z' = view s'"
begin

lemma backup_round_trip:
  assumes "ok s" "ok z" "read_remote os r = Inr (Some t)" "t \<noteq> []" "callback s t False = Inr (True, t', s1)"
    and "backup r = Some f" "automated_backups r \<or> force_backup" "os_can_write os f" "os_fputs os f t = (t, b)"
    and "check_remote os True force_backup callback now later r s = Inr (result, r1, os1, s1')"
    and "os_files os2 f = os_files os1 f" "os_fread os2 f t = length t" "read_remote os2 r1 = Inr None"
  shows "result \<and> s1' = s1 \<and> (\<exists>r2 z1.
    check_remote os2 True again callback now' later' r1 z = Inr (True, r2, os2, z1)
    \<and> view z1 = view s1 \<and> contents r2 = contents r1)"
proof -
  have nul: "NUL \<notin> set t"
    using read_remote_no_nul assms(3) by blast
  have t': "t' = t"
    using buffer_kept[OF assms(1) nul assms(5)] .
  have first: "result" "s1' = s1" "os1 = write_backup f t os" "r1 = r\<lparr>contents := Some t, tst := later\<rparr>"
    using assms(3,4,5,6,7,10) t'
    by (auto simp: check_remote_def load_remote_def offer_def reload_due_def Let_def
        finish_reload_def store_contents_def)
  obtain z1 where z1: "callback z t True = Inr (True, t, z1)" "view z1 = view s1"
    using accepted_again[OF assms(1,2) nul assms(5)] by blast
  have disk: "os_files os2 f = Some t"
    using assms(8,9,11) first(3) by (simp add: write_backup_def)
  have backup: "check_remote_backup os2 callback r1 z = Inr (True, store_contents t r1, z1)"
    using disk assms(4,6,12) z1 first(4) nul
    by (simp add: check_remote_backup_def read_backup_def read_file_def offer_def c_string_id)
  have "load_remote os2 again callback r1 z = Inr (True, store_contents t r1, os2, z1)"
    using assms(13,4,6) disk backup first(4) by (simp add: load_remote_def offer_def)
  then show ?thesis
    using first z1(2) by (simp add: check_remote_def reload_due_def finish_reload_def Let_def)
qed

end

text \<open>
  A client whose callback always answers: then a check always does. \<open>AN(curl_easy_init())\<close> is the only
  assertion on the way.
\<close>

locale total_loader = remote_loader callback ok same
  for callback :: "'s remote_callback"
    and ok :: "'s \<Rightarrow> bool"
    and same :: "'s \<Rightarrow> 's \<Rightarrow> bool" +
  assumes callback_returns: "ok s \<Longrightarrow> NUL \<notin> set t \<Longrightarrow> returns (callback s t b)"
begin

lemma offer_returns:
  assumes "ok s" "\<And>t. text = Some t \<Longrightarrow> NUL \<notin> set t"
  shows "returns (offer callback text b s)"
  using assms callback_returns by (auto simp: offer_def split: option.splits)

lemma backup_returns:
  assumes "ok s" "backup r = Some file"
  shows "returns (check_remote_backup os callback r s)"
proof -
  obtain m where m: "read_backup os r = Inr m" using assms(2) by (simp add: read_backup_def)
  then have "\<And>t. m = Some t \<Longrightarrow> NUL \<notin> set t" using read_backup_no_nul by blast
  with m show ?thesis
    unfolding check_remote_backup_def by (auto intro!: returns_intros offer_returns[OF assms(1)] split: prod.split)
qed

lemma load_returns:
  assumes "ok s" "os_curl_init os"
  shows "returns (load_remote os force_backup callback r s)"
proof -
  obtain m where m: "read_remote os r = Inr m"
    using assms(2) by (cases "reader r") (auto simp: read_remote_def read_url_def Let_def)
  then have nul: "\<And>t. m = Some t \<Longrightarrow> NUL \<notin> set t" using read_remote_no_nul by blast
  have "returns (case backup r of None \<Rightarrow> Inr (False, r, os, s')
         | Some file \<Rightarrow>
             (case os_files os file of
                None \<Rightarrow> Inr (False, r, os, s')
              | Some bytes \<Rightarrow>
                  if length bytes > 0
                  then res_bind (check_remote_backup os callback r s')
                         (\<lambda>(result', r', s''). Inr (result', r', os, s''))
                  else Inr (False, r, os, s')))" if "ok s'" for s'
    by (auto intro!: returns_intros backup_returns[OF that] split: option.split)
  moreover have "ok s'" if "offer callback m False s = Inr (False, t, s')" for t s'
    using offer_rejects[OF assms(1) nul that] by blast
  ultimately show ?thesis
    unfolding load_remote_def m res_bind_simps
    by (auto intro!: returns_intros offer_returns[OF assms(1) nul] split: prod.split simp: Let_def)
qed

lemma check_returns:
  assumes "ok s" "os_curl_init os"
  shows "returns (check_remote os force_load force_backup callback now later r s)"
  using load_returns[OF assms]
  by (auto simp: check_remote_def Let_def intro!: returns_intros split: prod.split)

end

section \<open>Concurrent reloads\<close>

text \<open>
  Worker threads share one remote. Each step is one of the pieces of \<open>check_remote\<close> that the code
  runs atomically or outside the mutex: the unlocked test, the critical section that elects a
  thread, the critical section that stores the text, the last critical section. \<open>Forced\<close> is a
  thread with \<open>force_load\<close>, which loads without being elected.
\<close>

datatype phase = Outside | At_Lock | Elected | Forced

record reload_sys =
  sys_remote :: remote
  sys_phase :: "nat \<Rightarrow> phase"

inductive sys_step :: "reload_sys \<Rightarrow> reload_sys \<Rightarrow> bool" where
  sys_test: "sys_phase s i = Outside \<Longrightarrow> reload_due False now (sys_remote s) \<Longrightarrow>
    sys_step s (s\<lparr>sys_phase := (sys_phase s)(i := At_Lock)\<rparr>)"
| sys_force: "sys_phase s i = Outside \<Longrightarrow>
    sys_step s (s\<lparr>sys_phase := (sys_phase s)(i := Forced)\<rparr>)"
| sys_claim: "sys_phase s i = At_Lock \<Longrightarrow> claim_reload (sys_remote s) = (winner, r) \<Longrightarrow>
    sys_step s \<lparr>sys_remote = r, sys_phase = (sys_phase s)(i := (if winner then Elected else Outside))\<rparr>"
| sys_store: "sys_phase s i = Elected \<or> sys_phase s i = Forced \<Longrightarrow>
    sys_step s (s\<lparr>sys_remote := store_contents t (sys_remote s)\<rparr>)"
| sys_finish: "sys_phase s i = Elected \<or> sys_phase s i = Forced \<Longrightarrow>
    sys_step s \<lparr>sys_remote = finish_reload result (sys_phase s i = Elected) later (sys_remote s),
                sys_phase = (sys_phase s)(i := Outside)\<rparr>"

inductive_cases sys_step_cases: "sys_step s s'"

definition sys_init :: "remote \<Rightarrow> reload_sys" where
  "sys_init r = \<lparr>sys_remote = r, sys_phase = (\<lambda>i. Outside)\<rparr>"

inductive sys_reachable :: "remote \<Rightarrow> reload_sys \<Rightarrow> bool" for r0 where
  sys_start: "sys_reachable r0 (sys_init r0)"
| sys_next: "sys_reachable r0 s \<Longrightarrow> sys_step s s' \<Longrightarrow> sys_reachable r0 s'"

definition sys_inv :: "reload_sys \<Rightarrow> bool" where
  "sys_inv s \<longleftrightarrow> (\<forall>i j. sys_phase s i = Elected \<longrightarrow> sys_phase s j = Elected \<longrightarrow> i = j)
     \<and> (reloading (sys_remote s) \<longleftrightarrow> (\<exists>i. sys_phase s i = Elected))"

lemma finish_reload_reloading [simp]:
  "reloading (finish_reload result winner later r) = (reloading r \<and> \<not> winner)"
  by (simp add: finish_reload_def Let_def)

lemma sys_inv_iff:
  "sys_inv s \<longleftrightarrow> (if reloading (sys_remote s) then \<exists>i. {j. sys_phase s j = Elected} = {i}
     else {j. sys_phase s j = Elected} = {})"
  unfolding sys_inv_def set_eq_iff by auto

lemma elected_upd:
  "{j. (f(i := p)) j = Elected} = (if p = Elected then insert i {j. f j = Elected} else {j. f j = Elected} - {i})"
  by auto

lemma sys_step_inv: "sys_step s s' \<Longrightarrow> sys_inv s \<Longrightarrow> sys_inv s'"
proof (induction rule: sys_step.induct)
  case (sys_test s i now)
  then have "{j. sys_phase s j = Elected} - {i} = {j. sys_phase s j = Elected}" by auto
  then show ?case using sys_test by (simp add: sys_inv_iff elected_upd del: fun_upd_apply)
next
  case (sys_force s i)
  then have "{j. sys_phase s j = Elected} - {i} = {j. sys_phase s j = Elected}" by auto
  then show ?case using sys_force by (simp add: sys_inv_iff elected_upd del: fun_upd_apply)
next
  case (sys_claim s i winner r)
  then have "{j. sys_phase s j = Elected} - {i} = {j. sys_phase s j = Elected}" by auto
  then show ?case
    using sys_claim by (auto simp: sys_inv_iff elected_upd claim_reload_def simp del: fun_upd_apply split: if_splits)
next
  case (sys_store s i t)
  then show ?case by (simp add: sys_inv_iff)
next
  case (sys_finish s i result later)
  show ?case
  proof (cases "sys_phase s i = Elected")
    case True
    then have "{j. sys_phase s j = Elected} = {i}"
      using sys_finish.prems by (auto simp: sys_inv_def)
    then show ?thesis using True by (simp add: sys_inv_iff elected_upd del: fun_upd_apply)
  next
    case False
    then have "{j. sys_phase s j = Elected} - {i} = {j. sys_phase s j = Elected}" by auto
    then show ?thesis
      using sys_finish False by (simp add: sys_inv_iff elected_upd del: fun_upd_apply)
  qed
qed

lemma sys_reachable_inv: "sys_reachable r0 s \<Longrightarrow> \<not> reloading r0 \<Longrightarrow> sys_inv s"
proof (induction rule: sys_reachable.induct)
  case sys_start
  then show ?case by (simp add: sys_inv_def sys_init_def)
next
  case (sys_next s s')
  then show ?case using sys_step_inv by blast
qed

section \<open>Calls in general\<close>

lemma check_not_due:
  assumes "reloading r \<or> period r = 0 \<or> now - tst r \<le> uint (period r)"
  shows "check_remote os False force_backup callback now later r s = Inr (True, r, os, s)"
  using assms by (auto simp: check_remote_def reload_due_def)

lemma check_flags:
  assumes "check_remote os force_load force_backup callback now later r s = Inr (result, r', os', s')"
  shows "reloading r' = reloading r
    \<and> tst r' = (if result \<and> (force_load \<or> reload_due force_load now r) then later else tst r)
    \<and> r'\<lparr>contents := contents r, tst := tst r\<rparr> = r"
proof -
  have backup_keeps: "r2 = r1 \<or> (\<exists>t. r2 = store_contents t r1)"
    if "check_remote_backup os callback r1 s = Inr (b, r2, s2)" for os r1 s b r2 s2
    using that by (auto simp: check_remote_backup_def res_bind_eq_Inr_iff split: if_splits)
  have keeps: "(r2 = r1 \<or> (\<exists>t. r2 = store_contents t r1))"
    if "load_remote os force_backup callback r1 s = Inr (b, r2, os2, s2)" for r1 b r2 os2 s2
    using that backup_keeps
    by (fastforce simp: load_remote_def res_bind_eq_Inr_iff Let_def split: if_splits option.splits)
  show ?thesis
  proof (cases "force_load \<or> reload_due force_load now r")
    case False
    then show ?thesis using assms by (auto simp: check_remote_def)
  next
    case True
    define winner where "winner = reload_due force_load now r"
    define r1 where "r1 = (if winner then r\<lparr>reloading := True\<rparr> else r)"
    have due: "winner \<Longrightarrow> \<not> reloading r"
      by (simp add: winner_def reload_due_def)
    have "(if reload_due force_load now r then claim_reload r else (False, r)) = (winner, r1)"
      using due by (simp add: winner_def r1_def claim_reload_def)
    then obtain r2 where load: "load_remote os force_backup callback r1 s = Inr (result, r2, os', s')"
        and r': "r' = finish_reload result winner later r2"
      using assms True by (auto simp: check_remote_def res_bind_eq_Inr_iff winner_def)
    show ?thesis
      using keeps[OF load] due True unfolding r' r1_def
      by (cases winner; cases result) (auto simp: finish_reload_def store_contents_def Let_def)
  qed
qed

section \<open>Properties\<close>

text \<open>
  How a location is read. \<open>file://\<close> is stripped and the rest is a path; \<open>http://\<close> is
  stripped and \<open>https://\<close> kept for \<open>libcurl\<close>; everything else is a path as it stands. A new
  remote has never been loaded, and an empty backup name means no backup.
\<close>

lemma new_remote_location:
  "let r = new_remote location bk automated prd ct tt vp vh ca cp px
   in location_raw r = location \<and> tst r = 0 \<and> \<not> reloading r \<and> contents r = None
    \<and> (backup r = None \<longleftrightarrow> bk = None \<or> bk = Some [])
    \<and> (reader r, location_parsed r) =
       (if take 7 location = ''file://'' then (Read_Path, drop 7 location)
        else if take 7 location = ''http://'' then (Read_Url, drop 7 location)
        else if take 8 location = ''https://'' then (Read_Url, location)
        else (Read_Path, location))"
proof -
  have "locate location =
     (if take 7 location = ''file://'' then (drop 7 location, Read_Path)
      else if take 7 location = ''http://'' then (drop 7 location, Read_Url)
      else if take 8 location = ''https://'' then (location, Read_Url)
      else (location, Read_Path))"
    using has_prefix_iff[of location "''file://''"] has_prefix_iff[of location "''http://''"]
      has_prefix_iff[of location "''https://''"]
    by (simp add: locate_def set_location_def eval_nat_numeral)
  then show ?thesis
    by (cases "locate location")
       (auto simp: new_remote_def optional_string_def Let_def split: option.splits if_splits)
qed

definition sample_remote :: remote where
  "sample_remote = (new_remote ''/etc/c'' (Some ''/var/c'') True 60 0 0 True True None None None)
     \<lparr>tst := 1000\<rparr>"

text \<open>
  Whatever the client does, a call that returns leaves the reload flag down when this call
  was the elected one and untouched otherwise; the time of the last load moves exactly when
  something was loaded, and the configuration of the remote never changes.
\<close>

lemma check_remote_flags:
  assumes "check_remote os force_load force_backup callback now later r s = Inr (result, r', os', s')"
  shows "reloading r' = reloading r
    \<and> tst r' = (if result \<and> (force_load \<or> reload_due force_load now r) then later else tst r)
    \<and> r'\<lparr>contents := contents r, tst := tst r\<rparr> = r"
  using assms by (rule check_flags)

definition sample_os :: "(string \<Rightarrow> string option) \<Rightarrow> os" where
  "sample_os files = \<lparr>os_files = files, os_fread = (\<lambda>f c. length c), os_can_write = (\<lambda>f. True),
     os_fputs = (\<lambda>f t. (t, True)), os_curl_init = True, os_has_ms = True,
     os_curl_perform = (\<lambda>q. \<lparr>cr_ok = True, cr_status = 404, cr_blocks = []\<rparr>)\<rparr>"

text \<open>
  C13: However many threads run and however their steps interleave, at most one of them is
  reloading periodically at any time, and the reload flag is up exactly while one is: no second
  thread starts, and the flag cannot stay up once the elected thread has finished.
\<close>

theorem periodic_reload_mutual_exclusion:
  assumes "sys_reachable r0 s" "\<not> reloading r0"
  shows "(sys_phase s i = Elected \<longrightarrow> sys_phase s j = Elected \<longrightarrow> i = j)
    \<and> (reloading (sys_remote s) \<longleftrightarrow> (\<exists>k. sys_phase s k = Elected))"
  using sys_reachable_inv[OF assms] by (auto simp: sys_inv_def)

theorem periodic_reload_mutual_exclusion_witness:
  "\<exists>s. sys_reachable sample_remote s \<and> sys_phase s 1 = Elected \<and> sys_phase s 2 = Outside
    \<and> reloading (sys_remote s)"
proof -
  let ?r = "sample_remote"
  let ?p1 = "(\<lambda>i. Outside)(1 := At_Lock)" and ?p2 = "(\<lambda>i. Outside)(1 := At_Lock, 2 := At_Lock)"
  let ?up = "?r\<lparr>reloading := True\<rparr>"
  have down: "\<not> reloading ?r" and due: "reload_due False 2000 ?r"
    by (simp_all add: sample_remote_def new_remote_def locate_def set_location_def reload_due_def)
  have "sys_reachable ?r \<lparr>sys_remote = ?r, sys_phase = ?p1\<rparr>"
    using sys_next[OF sys_start sys_test[of "sys_init ?r" 1 2000]] due by (simp add: sys_init_def)
  from sys_next[OF this sys_test[of _ 2 2000]]
  have "sys_reachable ?r \<lparr>sys_remote = ?r, sys_phase = ?p2\<rparr>"
    using due by simp
  from sys_next[OF this sys_claim[of _ 1 True ?up]]
  have "sys_reachable ?r \<lparr>sys_remote = ?up, sys_phase = ?p2(1 := Elected)\<rparr>"
    using down by (simp add: claim_reload_def)
  from sys_next[OF this sys_claim[of _ 2 False ?up]]
  have r: "sys_reachable ?r \<lparr>sys_remote = ?up, sys_phase = ?p2(1 := Elected, 2 := Outside)\<rparr>"
    by (simp add: claim_reload_def)
  show ?thesis
    using periodic_reload_mutual_exclusion[OF r down, of 1 1] r by fastforce
qed

text \<open>
  What is read from a URL is the concatenation of the blocks \<open>libcurl\<close> delivers, up to the
  first NUL byte, exactly when the transfer succeeds with status 200; anything else reads
  nothing. The request carries every configured option.
\<close>

lemma read_url_outcome:
  assumes "os_curl_init os" "out = os_curl_perform os (curl_request_of os r)"
  shows "read_url os r = Inr (if cr_ok out \<and> cr_status out = 200
    then Some (c_string (concat (cr_blocks out))) else None)"
  using assms read_url_body_fold[of "\<lparr>body = [], bodylen = 0\<rparr>" "cr_blocks out"]
  by (simp add: read_url_def Let_def)

text \<open>
  \<open>free_remote\<close> releases every string the remote owns exactly once, except the name of the
  backup file, which is never freed.
\<close>

lemma free_remote_leaks_backup:
  "mset (remote_strings r) = mset (free_remote r)
     + (case backup r of None \<Rightarrow> {#} | Some f \<Rightarrow> {#f#})"
  by (auto simp: remote_strings_def free_remote_def map_filter_simps split: option.splits)

end
