(* ===== verification/Ownership.thy ===== *)
theory Ownership
  imports Cfg_Prelude
begin

text \<open>
  Memory shared by threads: which address is live, and who is to free it. The objects keep one address
  in a field (\<open>current\<close>); a thread that made or took out a block owns it until it installs or frees it.
  \<open>Swapping\<close> and \<open>Contents\<close> state their invariants with \<open>own_ok\<close>.
\<close>

text \<open>Every live block is the current one or belongs to exactly one thread, and every such block is live.\<close>

definition own_ok :: "('c \<Rightarrow> bool) \<Rightarrow> nat option \<Rightarrow> (nat \<Rightarrow> 'c option) \<Rightarrow> (nat \<Rightarrow> nat option) \<Rightarrow> bool" where
  "own_ok good current heap owns \<longleftrightarrow>
     (\<forall>i a. owns i = Some a \<longrightarrow> current \<noteq> Some a) \<and> (\<forall>i j a. owns i = Some a \<longrightarrow> owns j = Some a \<longrightarrow> i = j)
     \<and> (\<forall>a. heap a \<noteq> None \<longleftrightarrow> current = Some a \<or> (\<exists>i. owns i = Some a)) \<and> (\<forall>a c. heap a = Some c \<longrightarrow> good c)"

lemma own_okD:
  assumes "own_ok good current heap owns"
  shows "owns i = Some a \<Longrightarrow> current \<noteq> Some a" "owns i = Some a \<Longrightarrow> j \<noteq> i \<Longrightarrow> owns j \<noteq> Some a"
    and "heap a = Some c \<Longrightarrow> good c"
    and "heap a \<noteq> None \<longleftrightarrow> current = Some a \<or> owns i = Some a \<or> (\<exists>j. j \<noteq> i \<and> owns j = Some a)"
proof -
  have parts: "\<forall>i a. owns i = Some a \<longrightarrow> current \<noteq> Some a" "\<forall>i j a. owns i = Some a \<longrightarrow> owns j = Some a \<longrightarrow> i = j"
      "\<forall>a. heap a \<noteq> None \<longleftrightarrow> current = Some a \<or> (\<exists>i. owns i = Some a)" "\<forall>a c. heap a = Some c \<longrightarrow> good c"
    using assms unfolding own_ok_def by - (elim conjE, assumption)+
  show "owns i = Some a \<Longrightarrow> current \<noteq> Some a" "heap a = Some c \<Longrightarrow> good c" using parts(1,4) by blast+
  show "owns i = Some a \<Longrightarrow> j \<noteq> i \<Longrightarrow> owns j \<noteq> Some a" using parts(2) by blast
  have "(\<exists>j. owns j = Some a) \<longleftrightarrow> owns i = Some a \<or> (\<exists>j. j \<noteq> i \<and> owns j = Some a)" by auto
  then show "heap a \<noteq> None \<longleftrightarrow> current = Some a \<or> owns i = Some a \<or> (\<exists>j. j \<noteq> i \<and> owns j = Some a)"
    using parts(3) by simp
qed

lemma owner_upd: "(\<exists>j. (f(i := p)) j = Some a) \<longleftrightarrow> p = Some a \<or> (\<exists>j. j \<noteq> i \<and> f j = Some a)"
  by auto

text \<open>One thread acts: what to check.\<close>

lemma own_ok_upd:
  assumes "own_ok good current heap owns" "\<And>a c. heap' a = Some c \<Longrightarrow> good c"
    and "\<And>a. p = Some a \<Longrightarrow> current' \<noteq> Some a" "\<And>a j. p = Some a \<Longrightarrow> j \<noteq> i \<Longrightarrow> owns j \<noteq> Some a"
    and "\<And>a j. current' = Some a \<Longrightarrow> j \<noteq> i \<Longrightarrow> owns j \<noteq> Some a"
    and "\<And>a. heap' a \<noteq> None \<longleftrightarrow> current' = Some a \<or> p = Some a \<or> (\<exists>j. j \<noteq> i \<and> owns j = Some a)"
  shows "own_ok good current' heap' (owns(i := p))"
  unfolding own_ok_def owner_upd
proof (intro conjI allI impI)
  fix j a assume "(owns(i := p)) j = Some a"
  then show "current' \<noteq> Some a" using assms(3)[of a] assms(5)[of a j] by (auto split: if_splits)
next
  fix j k a assume "(owns(i := p)) j = Some a" "(owns(i := p)) k = Some a"
  then show "j = k"
    using assms(4)[of a j] assms(4)[of a k] own_okD(2)[OF assms(1), of j a k] by (auto split: if_splits)
next
  fix a c assume "heap' a = Some c" then show "good c" by (rule assms(2))
qed (rule assms(6))

text \<open>A new block.\<close>

lemma own_ok_new:
  assumes "own_ok good current heap owns" "owns i = None" "heap a = None" "good c"
  shows "own_ok good current (heap(a \<mapsto> c)) (owns(i := Some a))"
proof (rule own_ok_upd[OF assms(1)])
  note heap = own_okD(4)[OF assms(1), where i = i]
  show "current \<noteq> Some b" if "Some a = Some b" for b using heap[of a] assms(3) that by auto
  show "owns j \<noteq> Some b" if "Some a = Some b" "j \<noteq> i" for b j
    using heap[of a] assms(3) that by auto
  show "(heap(a \<mapsto> c)) b \<noteq> None \<longleftrightarrow> current = Some b \<or> Some a = Some b \<or> (\<exists>j. j \<noteq> i \<and> owns j = Some b)" for b
    using heap[of b] assms(2) by auto
qed (use own_okD(1,3)[OF assms(1)] assms(4) in \<open>auto split: if_splits\<close>)

text \<open>The thread's block becomes the current one, and the old one the thread's.\<close>

lemma own_ok_swap:
  assumes "own_ok good current heap owns" "owns i = Some a"
  shows "own_ok good (Some a) heap (owns(i := current))"
proof (rule own_ok_upd[OF assms(1)])
  show "heap b \<noteq> None \<longleftrightarrow> Some a = Some b \<or> current = Some b \<or> (\<exists>j. j \<noteq> i \<and> owns j = Some b)" for b
    using own_okD(4)[OF assms(1), of b i] assms(2) by auto
qed (use own_okD(1-3)[OF assms(1)] assms(2) in auto)

text \<open>The thread frees its block.\<close>

lemma own_ok_free:
  assumes "own_ok good current heap owns" "owns i = Some a"
  shows "own_ok good current (heap(a := None)) (owns(i := None))"
proof (rule own_ok_upd[OF assms(1)])
  show "(heap(a := None)) b \<noteq> None \<longleftrightarrow> current = Some b \<or> None = Some b \<or> (\<exists>j. j \<noteq> i \<and> owns j = Some b)" for b
    using own_okD(4)[OF assms(1), of b i] own_okD(1)[OF assms(1,2)] own_okD(2)[OF assms(1,2)] assms(2) by auto
qed (use own_okD(1,3)[OF assms(1)] in \<open>auto split: if_splits\<close>)

text \<open>The thread's block becomes the current one, and the old one is freed at once.\<close>

lemma own_ok_replace:
  assumes "own_ok good current heap owns" "owns i = Some a"
  shows "own_ok good (Some a) (case current of None \<Rightarrow> heap | Some old \<Rightarrow> heap(old := None)) (owns(i := None))"
proof (cases current)
  case None
  then show ?thesis using own_ok_swap[OF assms] by simp
next
  case (Some old)
  have "own_ok good (Some a) heap (owns(i := Some old))" using own_ok_swap[OF assms] Some by simp
  from own_ok_free[OF this, of i old] show ?thesis using Some by simp
qed

end
