(* ===== verification/Contents.thy ===== *)
theory Contents
  imports Remote Ownership
begin

text \<open>
  The buffer of the text a remote keeps, \<open>remote->state.contents\<close>, as several threads see it. \<open>Remote\<close> has
  \<open>check_remote\<close> as one thread runs it; any number of threads may be in it when they force a reload. The
  buffers are addresses; what a thread does between two critical sections is its own step.
\<close>

section \<open>Buffers, threads and steps\<close>

text \<open>
  A thread has read a text (\<open>Loaded\<close>), its callback has installed it in the object (\<open>Accepted\<close>), or it is
  the remote's now and the thread goes on to write the backup (\<open>Stored\<close>). \<open>cs_installed\<close> is the text the
  object was last built from.
\<close>

datatype buffer_stage = Idle | Loaded nat | Accepted nat | Stored nat

record contents_sys =
  cs_contents :: "nat option"
  cs_heap :: "nat \<Rightarrow> string option"
  cs_installed :: "string option"
  cs_stage :: "nat \<Rightarrow> buffer_stage"

text \<open>The critical section: \<open>free(remote->state.contents); remote->state.contents = contents;\<close>.\<close>

definition replace_contents :: "nat \<Rightarrow> contents_sys \<Rightarrow> contents_sys res" where
  "replace_contents a s =
     (case cs_contents s of
        None \<Rightarrow> Inr (s\<lparr>cs_contents := Some a\<rparr>)
      | Some old \<Rightarrow>
          (case cs_heap s old of
             None \<Rightarrow> Inl Use_After_Free
           | Some _ \<Rightarrow> Inr (s\<lparr>cs_heap := (cs_heap s)(old := None), cs_contents := Some a\<rparr>)))"

text \<open>The text is refused: \<open>free((void *) contents);\<close>.\<close>

definition drop_contents :: "nat \<Rightarrow> contents_sys \<Rightarrow> contents_sys res" where
  "drop_contents a s =
     (case cs_heap s a of None \<Rightarrow> Inl Use_After_Free | Some _ \<Rightarrow> Inr (s\<lparr>cs_heap := (cs_heap s)(a := None)\<rparr>))"

text \<open>\<open>fputs(contents, backup)\<close>, after the critical section.\<close>

definition save_contents :: "string \<Rightarrow> nat \<Rightarrow> os \<Rightarrow> contents_sys \<Rightarrow> os res" where
  "save_contents dest a os s =
     (case cs_heap s a of None \<Rightarrow> Inl Use_After_Free | Some t \<Rightarrow> Inr (write_backup dest t os))"

text \<open>\<open>inspect_remote\<close>, under the mutex.\<close>

definition inspect_contents :: "('w, 'h) vrt_ctx \<Rightarrow> contents_sys \<Rightarrow> ('w, 'h) vrt_ctx res" where
  "inspect_contents ctx s =
     (if streams_to_body ctx
      then (case cs_contents s of
          None \<Rightarrow> Inr ctx
        | Some a \<Rightarrow>
            (case cs_heap s a of None \<Rightarrow> Inl Use_After_Free | Some t \<Rightarrow> Inr (ctx\<lparr>ctx_vsb := ctx_vsb ctx @ t\<rparr>)))
      else Inr ctx)"

inductive contents_step :: "contents_sys \<Rightarrow> contents_sys \<Rightarrow> bool" where
  cs_read: "cs_stage s i = Idle \<Longrightarrow> cs_heap s a = None \<Longrightarrow>
    contents_step s (s\<lparr>cs_heap := (cs_heap s)(a \<mapsto> t), cs_stage := (cs_stage s)(i := Loaded a)\<rparr>)"
| cs_accept: "cs_stage s i = Loaded a \<Longrightarrow> cs_heap s a = Some t \<Longrightarrow>
    contents_step s (s\<lparr>cs_installed := Some t, cs_stage := (cs_stage s)(i := Accepted a)\<rparr>)"
| cs_reject: "cs_stage s i = Loaded a \<Longrightarrow> drop_contents a s = Inr s' \<Longrightarrow>
    contents_step s (s'\<lparr>cs_stage := (cs_stage s')(i := Idle)\<rparr>)"
| cs_store: "cs_stage s i = Accepted a \<Longrightarrow> replace_contents a s = Inr s' \<Longrightarrow>
    contents_step s (s'\<lparr>cs_stage := (cs_stage s')(i := Stored a)\<rparr>)"
| cs_done: "cs_stage s i = Stored a \<Longrightarrow> contents_step s (s\<lparr>cs_stage := (cs_stage s)(i := Idle)\<rparr>)"

definition contents_init :: contents_sys where
  "contents_init = \<lparr>cs_contents = None, cs_heap = Map.empty, cs_installed = None, cs_stage = (\<lambda>i. Idle)\<rparr>"

definition contents_reachable :: "contents_sys \<Rightarrow> bool" where
  "contents_reachable = contents_step\<^sup>*\<^sup>* contents_init"

text \<open>What the remote holds, as a text.\<close>

definition held_text :: "contents_sys \<Rightarrow> string option" where
  "held_text s = (case cs_contents s of None \<Rightarrow> None | Some a \<Rightarrow> cs_heap s a)"

section \<open>Who owns which buffer\<close>

fun buffer_of :: "buffer_stage \<Rightarrow> nat option" where
  "buffer_of (Loaded a) = Some a"
| "buffer_of (Accepted a) = Some a"
| "buffer_of _ = None"

definition contents_inv :: "contents_sys \<Rightarrow> bool" where
  "contents_inv s \<longleftrightarrow> own_ok (\<lambda>t. True) (cs_contents s) (cs_heap s) (\<lambda>i. buffer_of (cs_stage s i))"

lemma buffer_upd:
  "(\<lambda>j. buffer_of ((f(i := p)) j)) = (\<lambda>j. buffer_of (f j))(i := buffer_of p)"
  "buffer_of p = buffer_of (f i) \<Longrightarrow> (\<lambda>j. buffer_of ((f(i := p)) j)) = (\<lambda>j. buffer_of (f j))"
  by auto

lemma contents_step_inv:
  assumes "contents_step s s'" "contents_inv s"
  shows "contents_inv s'"
  using assms
proof (induction rule: contents_step.induct)
  case (cs_read s i a t)
  then show ?case by (simp add: contents_inv_def buffer_upd(1) own_ok_new del: fun_upd_apply)
next
  case (cs_accept s i a t)
  then show ?case by (simp add: contents_inv_def buffer_upd(2) del: fun_upd_apply)
next
  case (cs_reject s i a s')
  then show ?case
    by (auto simp: contents_inv_def drop_contents_def buffer_upd(1) own_ok_free simp del: fun_upd_apply split: option.splits)
next
  case (cs_store s i a s')
  have "own_ok (\<lambda>t. True) (Some a) (case cs_contents s of None \<Rightarrow> cs_heap s | Some old \<Rightarrow> (cs_heap s)(old := None))
      ((\<lambda>j. buffer_of (cs_stage s j))(i := None))"
    by (rule own_ok_replace) (use cs_store in \<open>simp_all add: contents_inv_def\<close>)
  then show ?case
    using cs_store(2) by (auto simp: contents_inv_def replace_contents_def buffer_upd(1) simp del: fun_upd_apply split: option.splits)
next
  case (cs_done s i a)
  then show ?case by (simp add: contents_inv_def buffer_upd(2) del: fun_upd_apply)
qed

lemma contents_reachable_inv: "contents_reachable s \<Longrightarrow> contents_inv s"
  unfolding contents_reachable_def
proof (induction rule: rtranclp_induct)
  case base
  show ?case by (simp add: contents_inv_def contents_init_def own_ok_def)
qed (rule contents_step_inv)

section \<open>Runs\<close>

lemma contents_next: "contents_reachable s \<Longrightarrow> contents_step s s' \<Longrightarrow> contents_reachable s'"
  unfolding contents_reachable_def by (rule rtranclp.rtrancl_into_rtrancl)

lemma contents_load:
  assumes "contents_reachable s" "cs_stage s i = Idle" "cs_heap s a = None"
  shows "contents_reachable (s\<lparr>cs_heap := (cs_heap s)(a \<mapsto> t), cs_installed := Some t,
    cs_stage := (cs_stage s)(i := Accepted a)\<rparr>)"
proof -
  let ?s1 = "s\<lparr>cs_heap := (cs_heap s)(a \<mapsto> t), cs_stage := (cs_stage s)(i := Loaded a)\<rparr>"
  have "contents_reachable ?s1" by (rule contents_next[OF assms(1)]) (rule cs_read, (rule assms)+)
  moreover have "contents_step ?s1 (?s1\<lparr>cs_installed := Some t, cs_stage := (cs_stage ?s1)(i := Accepted a)\<rparr>)"
    by (rule cs_accept) simp_all
  ultimately have "contents_reachable (?s1\<lparr>cs_installed := Some t, cs_stage := (cs_stage ?s1)(i := Accepted a)\<rparr>)"
    by (rule contents_next)
  then show ?thesis by simp
qed

lemma contents_store:
  assumes "contents_reachable s" "cs_stage s i = Accepted a" "replace_contents a s = Inr s'"
  shows "contents_reachable (s'\<lparr>cs_stage := (cs_stage s')(i := Stored a)\<rparr>)"
  by (rule contents_next[OF assms(1)]) (rule cs_store[OF assms(2,3)])

lemma contents_done:
  assumes "contents_reachable s" "cs_stage s i = Stored a"
  shows "contents_reachable (s\<lparr>cs_stage := (cs_stage s)(i := Idle)\<rparr>)"
  by (rule contents_next[OF assms(1)]) (rule cs_done[OF assms(2)])

section \<open>Properties\<close>

text \<open>
  C10: However the steps of threads that reload interleave, the buffer a remote keeps is live whenever the
  mutex is taken: \<open>inspect\<close> shows its text, replacing it frees a live buffer that no thread holds, a
  refused text is freed once, and no buffer is lost.
\<close>

theorem kept_contents_are_live:
  assumes "contents_reachable s"
  shows "inspect_contents ctx s = Inr (if streams_to_body ctx
        then (case held_text s of None \<Rightarrow> ctx | Some t \<Rightarrow> ctx\<lparr>ctx_vsb := ctx_vsb ctx @ t\<rparr>) else ctx)
    \<and> (cs_contents s = None \<longleftrightarrow> held_text s = None)
    \<and> (cs_stage s i = Accepted a \<longrightarrow> cs_contents s \<noteq> Some a \<and>
        (\<exists>s'. replace_contents a s = Inr s' \<and> cs_contents s' = Some a \<and> held_text s' = cs_heap s a \<and> held_text s' \<noteq> None))
    \<and> (cs_stage s i = Loaded a \<longrightarrow> returns (drop_contents a s) \<and> cs_contents s \<noteq> Some a)
    \<and> (cs_heap s a \<noteq> None \<longrightarrow> cs_contents s = Some a \<or> (\<exists>j. buffer_of (cs_stage s j) = Some a))"
proof -
  note own = own_okD[OF contents_reachable_inv[OF assms, unfolded contents_inv_def]]
  have live: "cs_heap s b \<noteq> None" if "cs_contents s = Some b" for b using own(4)[of b 0] that by simp
  have mine: "cs_contents s \<noteq> Some a \<and> cs_heap s a \<noteq> None" if "buffer_of (cs_stage s i) = Some a"
    using own(1)[OF that] own(4)[of a i] that by simp
  show ?thesis
    using live mine own(4)[of a i]
    by (auto simp: inspect_contents_def held_text_def replace_contents_def drop_contents_def split: option.split)
qed

text \<open>
  C12: Two forced reloads at the same time are not safe. The thread that stored its text first goes on to
  write the backup from that buffer, which the other one has freed by then. And when both are done, the
  text the remote keeps, shown by \<open>inspect\<close>, need not be the one the object was last built from.
\<close>

theorem concurrent_reloads_race:
  assumes "i \<noteq> j" "t \<noteq> u"
  shows "(\<exists>s a. contents_reachable s \<and> cs_stage s i = Stored a \<and> save_contents dest a os s = Inl Use_After_Free)
    \<and> (\<exists>s. contents_reachable s \<and> (\<forall>k. cs_stage s k = Idle) \<and> cs_installed s = Some u \<and> held_text s = Some t)"
proof
  let ?one = "\<lparr>cs_contents = None, cs_heap = [0 \<mapsto> t], cs_installed = Some t, cs_stage = (\<lambda>k. Idle)(i := Accepted 0)\<rparr>"
  let ?both = "\<lparr>cs_contents = None, cs_heap = [0 \<mapsto> t, 1 \<mapsto> u], cs_installed = Some u,
      cs_stage = (\<lambda>k. Idle)(i := Accepted 0, j := Accepted 1)\<rparr>"
  have start: "contents_reachable contents_init" by (simp add: contents_reachable_def)
  have one: "contents_reachable ?one"
    using contents_load[OF start, of i 0 t] by (simp add: contents_init_def)
  have both: "contents_reachable ?both"
    using contents_load[OF one, of j 1 u] assms(1) by simp
  let ?i = "?both\<lparr>cs_contents := Some 0, cs_stage := (\<lambda>k. Idle)(i := Stored 0, j := Accepted 1)\<rparr>"
  have "contents_reachable ?i"
    using contents_store[OF both, of i 0] assms(1) by (simp add: replace_contents_def fun_upd_twist)
  let ?freed = "?i\<lparr>cs_contents := Some 1, cs_heap := [1 \<mapsto> u], cs_stage := (\<lambda>k. Idle)(i := Stored 0, j := Stored 1)\<rparr>"
  have "contents_reachable ?freed"
    using contents_store[OF \<open>contents_reachable ?i\<close>, of j 1] by (simp add: replace_contents_def)
  moreover have "cs_stage ?freed i = Stored 0" "save_contents dest 0 os ?freed = Inl Use_After_Free"
    using assms(1) by (simp_all add: save_contents_def)
  ultimately show "\<exists>s a. contents_reachable s \<and> cs_stage s i = Stored a \<and> save_contents dest a os s = Inl Use_After_Free"
    by blast
  let ?j = "?both\<lparr>cs_contents := Some 1, cs_stage := (\<lambda>k. Idle)(i := Accepted 0, j := Stored 1)\<rparr>"
  have "contents_reachable ?j"
    using contents_store[OF both, of j 1] by (simp add: replace_contents_def)
  from contents_done[OF this, of j 1] have "contents_reachable (?j\<lparr>cs_stage := (\<lambda>k. Idle)(i := Accepted 0)\<rparr>)"
    using assms(1) by (simp add: fun_upd_twist fun_upd_idem)
  from contents_store[OF this, of i 0] have "contents_reachable
      (?j\<lparr>cs_contents := Some 0, cs_heap := [0 \<mapsto> t], cs_stage := (\<lambda>k. Idle)(i := Stored 0)\<rparr>)"
    by (simp add: replace_contents_def fun_upd_twist)
  note quiet = contents_done[OF this, of i 0]
  show "\<exists>s. contents_reachable s \<and> (\<forall>k. cs_stage s k = Idle) \<and> cs_installed s = Some u \<and> held_text s = Some t"
    by (rule exI, rule conjI, rule quiet) (simp_all add: held_text_def)
qed

section \<open>Witnesses\<close>

theorem kept_contents_are_live_witness:
  "inspect_contents \<lparr>ctx_ws = (), ctx_method = MET_SYNTH, ctx_vsb = ''x'', ctx_fails = [], ctx_http = ()\<rparr> contents_init
    = Inr \<lparr>ctx_ws = (), ctx_method = MET_SYNTH, ctx_vsb = ''x'', ctx_fails = [], ctx_http = ()\<rparr>"
proof -
  have "contents_reachable contents_init" by (simp add: contents_reachable_def)
  from kept_contents_are_live[OF this,
      of "\<lparr>ctx_ws = (), ctx_method = MET_SYNTH, ctx_vsb = ''x'', ctx_fails = [], ctx_http = ()\<rparr>"]
  show ?thesis by (simp add: held_text_def contents_init_def)
qed

theorem concurrent_reloads_race_witness:
  "\<exists>s. contents_reachable s \<and> (\<forall>k. cs_stage s k = Idle) \<and> cs_installed s = Some ''b=2'' \<and> held_text s = Some ''a=1''"
  using concurrent_reloads_race[of "0 :: nat" 1 "''a=1''" "''b=2''"] by simp

end
