(* ===== verification/Ini.thy ===== *)
theory Ini
  imports Cfg_Prelude
begin

text \<open>
  \<open>ini.c\<close> (inih) as this module builds and uses it: the line parser with multi-line values, a
  byte order mark, inline comments and a stop at the first error, on a stack buffer of
  \<open>INI_MAX_LINE\<close> bytes, reading through \<open>file_ini_stream_reader\<close> of \<open>vmod_cfg_file.c\<close>. The
  handler is a parameter: it may abort the process and says whether it accepted the pair.
\<close>

definition INI_MAX_LINE :: nat where
  "INI_MAX_LINE = 16384"

definition MAX_SECTION :: nat where
  "MAX_SECTION = 50"

definition MAX_NAME :: nat where
  "MAX_NAME = 50"

abbreviation LF :: char where
  "LF \<equiv> CHR 0x0A"

abbreviation CR :: char where
  "CR \<equiv> CHR 0x0D"

section \<open>The stream\<close>

record ini_stream =
  st_ptr :: string
  st_left :: int

text \<open>The \<open>for\<close> loop: \<open>k\<close> turns are left; the result is \<open>idx\<close> and \<open>newline\<close>.\<close>

fun reader_scan :: "nat \<Rightarrow> nat \<Rightarrow> int \<Rightarrow> string \<Rightarrow> (nat \<times> char) res" where
  "reader_scan 0 idx left ptr = Inr (idx, NUL)"
| "reader_scan (Suc k) idx left ptr =
     (if int idx = left then Inr (idx, NUL)
      else (case ptr of
          [] \<Rightarrow> Inl Out_Of_Bounds
        | c # cs \<Rightarrow>
            if c = LF then Inr (idx, LF)
            else if c = CR then Inr (idx, CR)
            else reader_scan k (idx + 1) left cs))"

definition file_ini_stream_reader :: "nat \<Rightarrow> ini_stream \<Rightarrow> (string option \<times> ini_stream) res" where
  "file_ini_stream_reader sz s =
     (if st_left s \<le> 0 then Inr (None, s)
      else res_bind (reader_scan (sz - 1) 0 (st_left s) (st_ptr s)) (\<lambda>(idx, newline).
        let str = take idx (st_ptr s);
            ptr = drop (idx + 1) (st_ptr s);
            left = st_left s - (int idx + 1)
        in if newline \<noteq> NUL \<and> left > 0 \<and> (case ptr of [] \<Rightarrow> False | c # cs \<Rightarrow> c = newline)
           then Inr (Some str, \<lparr>st_ptr = drop 1 ptr, st_left = left - 1\<rparr>)
           else Inr (Some str, \<lparr>st_ptr = ptr, st_left = left\<rparr>)))"

section \<open>The parser\<close>

text \<open>\<open>ini_rstrip\<close> and \<open>ini_lskip\<close> are \<open>rstrip\<close> and \<open>lskip\<close> of the prelude.\<close>

definition ini_rstrip :: "string \<Rightarrow> string" where
  "ini_rstrip s = rstrip s"

definition ini_lskip :: "string \<Rightarrow> string" where
  "ini_lskip s = lskip s"

text \<open>\<open>ini_find_chars_or_comment\<close>, as an offset; no characters is the argument NULL.\<close>

fun ini_find :: "bool \<Rightarrow> string \<Rightarrow> string \<Rightarrow> nat" where
  "ini_find was_space chars [] = 0"
| "ini_find was_space chars (c # cs) =
     (if c \<in> set chars \<or> was_space \<and> c = CHR '';'' then 0
      else Suc (ini_find (isspace c) chars cs))"

definition ini_find_chars_or_comment :: "string \<Rightarrow> string \<Rightarrow> nat" where
  "ini_find_chars_or_comment s chars = ini_find False chars s"

definition ini_strncpy0 :: "string \<Rightarrow> nat \<Rightarrow> string" where
  "ini_strncpy0 src sz = take (sz - 1) src"

record 'u ini_state =
  ini_section :: string
  ini_prev_name :: string
  ini_lineno :: nat
  ini_error :: nat
  ini_user :: 'u

type_synonym 'u ini_handler = "'u \<Rightarrow> string \<Rightarrow> string \<Rightarrow> string \<Rightarrow> ('u \<times> bool) res"

text \<open>\<open>if (!HANDLER(...) && !error) error = lineno;\<close>\<close>

definition ini_call :: "'u ini_handler \<Rightarrow> string \<Rightarrow> string \<Rightarrow> 'u ini_state \<Rightarrow> 'u ini_state res" where
  "ini_call handler name val st =
     res_bind (handler (ini_user st) (ini_section st) name val) (\<lambda>(u, accepted).
       Inr (st\<lparr>ini_user := u,
              ini_error := (if \<not> accepted \<and> ini_error st = 0 then ini_lineno st else ini_error st)\<rparr>))"

definition ini_fail :: "'u ini_state \<Rightarrow> 'u ini_state" where
  "ini_fail st = (if ini_error st = 0 then st\<lparr>ini_error := ini_lineno st\<rparr> else st)"

definition ini_bom :: string where
  "ini_bom = [CHR 0xEF, CHR 0xBB, CHR 0xBF]"

text \<open>
  The body of the loop once \<open>start\<close> is the first character of the stripped line; \<open>indented\<close> is
  the test \<open>start > line\<close>. \<open>strchr\<close> finds the terminator too, so an empty line counts as a comment.
\<close>

definition ini_body :: "'u ini_handler \<Rightarrow> string \<Rightarrow> bool \<Rightarrow> 'u ini_state \<Rightarrow> 'u ini_state res" where
  "ini_body handler start indented st =
     (case start of
        [] \<Rightarrow> Inr st
      | c # rest \<Rightarrow>
         if c = CHR '';'' \<or> c = CHR ''#'' then Inr st
         else if ini_prev_name st \<noteq> [] \<and> indented
         then ini_call handler (ini_prev_name st)
                (ini_rstrip (take (ini_find_chars_or_comment start []) start)) st
         else if c = CHR ''[''
         then (let k = ini_find_chars_or_comment rest '']'' in
               if k < length rest \<and> rest ! k = CHR '']''
               then Inr (st\<lparr>ini_section := ini_strncpy0 (take k rest) MAX_SECTION, ini_prev_name := []\<rparr>)
               else Inr (ini_fail st))
         else (let k = ini_find_chars_or_comment start ''=:'' in
               if k < length start \<and> (start ! k = CHR ''='' \<or> start ! k = CHR '':'')
               then (let name = ini_rstrip (take k start);
                         v = drop (k + 1) start;
                         val = ini_rstrip (ini_lskip (take (ini_find_chars_or_comment v []) v))
                     in ini_call handler name val (st\<lparr>ini_prev_name := ini_strncpy0 name MAX_NAME\<rparr>))
               else Inr (ini_fail st)))"

definition ini_line :: "'u ini_handler \<Rightarrow> string \<Rightarrow> 'u ini_state \<Rightarrow> 'u ini_state res" where
  "ini_line handler line st0 =
     (let st = st0\<lparr>ini_lineno := ini_lineno st0 + 1\<rparr>;
          bom = (ini_lineno st = 1 \<and> take 3 line = ini_bom);
          stripped = ini_rstrip (if bom then drop 3 line else line);
          start = ini_lskip stripped;
          indented = (bom \<or> length start < length stripped)
      in ini_body handler start indented st)"

lemma reader_scan_idx: "reader_scan k idx left ptr = Inr (i, nl) \<Longrightarrow> idx \<le> i \<and> i \<le> idx + k"
  by (induction k idx left ptr rule: reader_scan.induct) (auto split: if_splits list.splits)

lemma reader_progress:
  "file_ini_stream_reader sz s = Inr (Some line, s') \<Longrightarrow> nat (st_left s') < nat (st_left s)"
  by (auto simp: file_ini_stream_reader_def res_bind_eq_Inr_iff Let_def split: if_splits)

text \<open>
  \<open>ini_parse_stream\<close>: read a line, parse it, stop at the first error. The loop ends because
  every line takes at least one byte off what is left.
\<close>

function ini_loop :: "'u ini_handler \<Rightarrow> ini_stream \<Rightarrow> 'u ini_state \<Rightarrow> 'u ini_state res" where
  "ini_loop handler s st =
     (case file_ini_stream_reader INI_MAX_LINE s of
        Inl e \<Rightarrow> Inl e
      | Inr (None, s') \<Rightarrow> Inr st
      | Inr (Some line, s') \<Rightarrow>
          (case ini_line handler line st of
             Inl e \<Rightarrow> Inl e
           | Inr st' \<Rightarrow> if ini_error st' \<noteq> 0 then Inr st' else ini_loop handler s' st'))"
  by pat_completeness auto
termination
  by (relation "measure (\<lambda>(handler, s, st). nat (st_left s))") (auto dest: reader_progress)

declare ini_loop.simps [simp del]

definition ini_init :: "'u \<Rightarrow> 'u ini_state" where
  "ini_init u = \<lparr>ini_section = [], ini_prev_name = [], ini_lineno = 0, ini_error = 0, ini_user = u\<rparr>"

text \<open>The result is what the handler left in \<open>user\<close> and the line of the first error, or 0.\<close>

definition ini_parse_stream :: "ini_stream \<Rightarrow> 'u ini_handler \<Rightarrow> 'u \<Rightarrow> ('u \<times> nat) res" where
  "ini_parse_stream s handler u =
     res_bind (ini_loop handler s (ini_init u)) (\<lambda>st. Inr (ini_user st, ini_error st))"

section \<open>Lines of a text\<close>

text \<open>
  The lines a text stands for: both \<open>\n\<close> and \<open>\r\<close> end a line, so that \<open>\r\n\<close> is an ending
  followed by an empty line.
\<close>

fun text_lines :: "string \<Rightarrow> string list" where
  "text_lines [] = [[]]"
| "text_lines (c # cs) =
     (if c = LF \<or> c = CR then [] # text_lines cs
      else (case text_lines cs of [] \<Rightarrow> [[c]] | l # ls \<Rightarrow> (c # l) # ls))"

text \<open>The parser loop over lines that are already there.\<close>

fun ini_lines :: "'u ini_handler \<Rightarrow> string list \<Rightarrow> 'u ini_state \<Rightarrow> 'u ini_state res" where
  "ini_lines handler [] st = Inr st"
| "ini_lines handler (l # ls) st =
     (case ini_line handler l st of
        Inl e \<Rightarrow> Inl e
      | Inr st' \<Rightarrow> if ini_error st' \<noteq> 0 then Inr st' else ini_lines handler ls st')"

definition newline :: "char \<Rightarrow> bool" where
  "newline c \<longleftrightarrow> c = LF \<or> c = CR"

definition one_line :: "string \<Rightarrow> bool" where
  "one_line l \<longleftrightarrow> (\<forall>c \<in> set l. \<not> newline c)"

lemma one_line_Nil [simp]: "one_line []"
  by (simp add: one_line_def)

lemma one_line_Cons [simp]: "one_line (c # l) \<longleftrightarrow> \<not> newline c \<and> one_line l"
  by (auto simp: one_line_def)

lemma one_line_append [simp]: "one_line (l @ m) \<longleftrightarrow> one_line l \<and> one_line m"
  by (auto simp: one_line_def)

lemma text_lines_one_line: "one_line l \<Longrightarrow> text_lines l = [l]"
  by (induction l) (auto simp: newline_def)

lemma text_lines_break: "one_line l \<Longrightarrow> newline c \<Longrightarrow> text_lines (l @ c # t) = l # text_lines t"
  by (induction l) (auto simp: newline_def)

lemma text_cases:
  obtains (last) "one_line t" | (break) l c u where "t = l @ c # u" "one_line l" "newline c"
proof (cases "one_line t")
  case False
  then have "\<exists>c \<in> set t. newline c" by (auto simp: one_line_def)
  then obtain l c u where "t = l @ c # u" "newline c" "\<forall>d \<in> set l. \<not> newline d"
    using split_list_first_prop[of t newline] by blast
  then show ?thesis using break by (auto simp: one_line_def)
qed (rule last)

lemma scan_last:
  "one_line l \<Longrightarrow> length l \<le> k \<Longrightarrow> left = int idx + int (length l) \<Longrightarrow>
    reader_scan k idx left l = Inr (idx + length l, NUL)"
proof (induction k idx left l rule: reader_scan.induct)
  case (2 k idx left ptr)
  then show ?case by (cases ptr) (auto simp: newline_def)
qed simp

lemma scan_break:
  "one_line l \<Longrightarrow> newline c \<Longrightarrow> length l \<le> k \<Longrightarrow> int idx + int (length l) < left \<Longrightarrow>
    reader_scan k idx left (l @ c # u) = Inr (idx + length l, if length l = k then NUL else c)"
proof (induction l arbitrary: k idx)
  case Nil
  then show ?case by (cases k) (auto simp: newline_def)
next
  case (Cons d l)
  then obtain k' where "k = Suc k'" by (cases k) auto
  then show ?case using Cons by (auto simp: newline_def)
qed

definition whole :: "string \<Rightarrow> ini_stream" where
  "whole t = \<lparr>st_ptr = t, st_left = int (length t)\<rparr>"

lemma reader_empty: "file_ini_stream_reader n (whole []) = Inr (None, whole [])"
  by (simp add: file_ini_stream_reader_def whole_def)

lemma reader_last:
  assumes "one_line t" "t \<noteq> []" "length t < n"
  shows "\<exists>s. file_ini_stream_reader n (whole t) = Inr (Some t, s) \<and> st_left s \<le> 0"
  using assms scan_last[of t "n - 1" "int (length t)" 0]
  by (simp add: file_ini_stream_reader_def whole_def Let_def)

lemma reader_break:
  assumes "one_line l" "newline c" "length l < n"
  shows "file_ini_stream_reader n (whole (l @ c # u)) = Inr (Some l, whole u)
    \<or> (\<exists>v. u = c # v \<and> file_ini_stream_reader n (whole (l @ c # u)) = Inr (Some l, whole v))"
proof -
  have "reader_scan (n - 1) 0 (int (length (l @ c # u))) (l @ c # u)
      = Inr (length l, if length l = n - 1 then NUL else c)"
    using scan_break[of l c "n - 1" 0 "int (length (l @ c # u))" u] assms by simp
  then show ?thesis
    by (cases u) (auto simp: file_ini_stream_reader_def whole_def Let_def)
qed

text \<open>All of a parser state except the exact line numbers.\<close>

definition ini_view :: "'u ini_state \<Rightarrow> string \<times> string \<times> bool \<times> bool \<times> 'u" where
  "ini_view st = (ini_section st, ini_prev_name st, ini_lineno st = 0, ini_error st = 0, ini_user st)"

definition ini_outcome :: "'u ini_state \<Rightarrow> 'u \<times> bool" where
  "ini_outcome st = (ini_user st, ini_error st = 0)"

lemma ini_line_blank: "ini_line h [] st = Inr (st\<lparr>ini_lineno := ini_lineno st + 1\<rparr>)"
  by (simp add: ini_line_def ini_body_def ini_rstrip_def ini_lskip_def ini_bom_def Let_def)

lemma ini_call_view:
  assumes "ini_view st1 = ini_view st2" "ini_lineno st1 \<noteq> 0"
  shows "map_sum id ini_view (ini_call h n v st1) = map_sum id ini_view (ini_call h n v st2)"
  using assms by (auto simp: ini_call_def ini_view_def res_bind_def split: sum.splits)

lemma ini_fail_view:
  assumes "ini_view st1 = ini_view st2" "ini_lineno st1 \<noteq> 0"
  shows "ini_view (ini_fail st1) = ini_view (ini_fail st2)"
  using assms by (auto simp: ini_fail_def ini_view_def)

lemma ini_body_view:
  assumes "ini_view st1 = ini_view st2" "ini_lineno st1 \<noteq> 0"
  shows "map_sum id ini_view (ini_body h start ind st1) = map_sum id ini_view (ini_body h start ind st2)"
proof (cases start)
  case Nil
  then show ?thesis using assms by (simp add: ini_body_def)
next
  case (Cons c rest)
  have v: "ini_prev_name st1 = ini_prev_name st2"
    "ini_view (st1\<lparr>ini_prev_name := n\<rparr>) = ini_view (st2\<lparr>ini_prev_name := n\<rparr>)"
    "ini_view (st1\<lparr>ini_section := m, ini_prev_name := n\<rparr>) = ini_view (st2\<lparr>ini_section := m, ini_prev_name := n\<rparr>)"
    for n m using assms by (auto simp: ini_view_def)
  have c: "map_sum id ini_view (ini_call h a b (st1\<lparr>ini_prev_name := n\<rparr>))
      = map_sum id ini_view (ini_call h a b (st2\<lparr>ini_prev_name := n\<rparr>))" for a b n
    by (rule ini_call_view) (use v assms in simp_all)
  show ?thesis
    using assms(1) ini_call_view[OF assms, of h] ini_fail_view[OF assms] c v(1)
    unfolding Cons ini_body_def Let_def list.case
    by (simp add: v if_distrib[of "map_sum id ini_view"] cong: if_cong split del: if_split)
qed

lemma ini_line_view:
  assumes "ini_view st1 = ini_view st2"
  shows "map_sum id ini_view (ini_line h l st1) = map_sum id ini_view (ini_line h l st2)"
proof -
  let ?up = "\<lambda>st. st\<lparr>ini_lineno := ini_lineno st + 1\<rparr>"
  have v: "ini_view (?up st1) = ini_view (?up st2)" "ini_lineno (?up st1) \<noteq> 0"
    and first: "(ini_lineno (?up st1) = 1) = (ini_lineno (?up st2) = 1)"
    using assms by (auto simp: ini_view_def)
  show ?thesis
    unfolding ini_line_def Let_def first by (rule ini_body_view[OF v])
qed

lemma ini_body_lineno: "ini_body h start ind st = Inr st' \<Longrightarrow> ini_lineno st' = ini_lineno st"
  by (auto simp: ini_body_def ini_call_def ini_fail_def res_bind_eq_Inr_iff Let_def
      split: list.splits if_splits)

lemma ini_line_lineno: "ini_line h l st = Inr st' \<Longrightarrow> ini_lineno st' = ini_lineno st + 1"
  by (auto simp: ini_line_def Let_def dest: ini_body_lineno)

text \<open>One more blank line does not matter once a line has been seen.\<close>

lemma ini_lines_view:
  assumes "ini_view st1 = ini_view st2"
  shows "map_sum id ini_outcome (ini_lines h ls st1) = map_sum id ini_outcome (ini_lines h ls st2)"
  using assms
proof (induction ls arbitrary: st1 st2)
  case Nil
  then show ?case by (simp add: ini_view_def ini_outcome_def)
next
  case (Cons l ls)
  show ?case
  proof (cases "ini_line h l st1")
    case (Inl e)
    then show ?thesis using ini_line_view[OF Cons.prems, of h l] by (cases "ini_line h l st2") auto
  next
    case (Inr s1)
    then obtain s2 where s2: "ini_line h l st2 = Inr s2" "ini_view s1 = ini_view s2"
      using ini_line_view[OF Cons.prems, of h l] by (cases "ini_line h l st2") auto
    then have "(ini_error s1 \<noteq> 0) = (ini_error s2 \<noteq> 0)" "ini_outcome s1 = ini_outcome s2"
      by (auto simp: ini_view_def ini_outcome_def)
    then show ?thesis using Inr s2 Cons.IH[OF s2(2)] by simp
  qed
qed

lemma ini_lines_blank:
  assumes "ini_error st = 0" "ini_lineno st \<noteq> 0"
  shows "map_sum id ini_outcome (ini_lines h ([] # ls) st) = map_sum id ini_outcome (ini_lines h ls st)"
  using assms by (simp add: ini_line_blank)
    (rule ini_lines_view, simp add: ini_view_def)

lemma ini_loop_left: "st_left s \<le> 0 \<Longrightarrow> ini_loop h s st = Inr st"
  by (subst ini_loop.simps) (simp add: file_ini_stream_reader_def)

lemma ini_loop_step:
  "file_ini_stream_reader INI_MAX_LINE s = Inr (Some l, s') \<Longrightarrow>
    ini_loop h s st = (case ini_line h l st of Inl e \<Rightarrow> Inl e
      | Inr st' \<Rightarrow> if ini_error st' \<noteq> 0 then Inr st' else ini_loop h s' st')"
  by (subst ini_loop.simps) simp

text \<open>The stream delivers the lines of the text, up to blank ones.\<close>

text \<open>One line read and handled, when what follows is known to agree.\<close>

lemma ini_loop_line:
  assumes "file_ini_stream_reader INI_MAX_LINE t = Inr (Some l, s')" "ini_view st1 = ini_view st2"
    and "\<And>s1 s2. ini_view s1 = ini_view s2 \<Longrightarrow> ini_error s1 = 0 \<Longrightarrow> ini_lineno s2 \<noteq> 0 \<Longrightarrow>
        map_sum id ini_outcome (ini_loop h s' s1) = map_sum id ini_outcome (ini_lines h ls s2)"
  shows "map_sum id ini_outcome (ini_loop h t st1) = map_sum id ini_outcome (ini_lines h (l # ls) st2)"
proof (cases "ini_line h l st1")
  case (Inl e)
  then show ?thesis
    using ini_line_view[OF assms(2), of h l] by (cases "ini_line h l st2") (auto simp: ini_loop_step[OF assms(1)])
next
  case (Inr s1)
  then obtain s2 where s2: "ini_line h l st2 = Inr s2" "ini_view s1 = ini_view s2"
    using ini_line_view[OF assms(2), of h l] by (cases "ini_line h l st2") auto
  then have e: "(ini_error s1 \<noteq> 0) = (ini_error s2 \<noteq> 0)" "ini_outcome s1 = ini_outcome s2"
    by (auto simp: ini_view_def ini_outcome_def)
  show ?thesis
    using Inr s2 e assms(3)[OF s2(2)] ini_line_lineno[OF s2(1)] by (auto simp: ini_loop_step[OF assms(1)])
qed

lemma ini_loop_lines:
  assumes "\<forall>l \<in> set (text_lines t). length l < INI_MAX_LINE" "ini_view st1 = ini_view st2"
    and "ini_error st1 = 0"
  shows "map_sum id ini_outcome (ini_loop h (whole t) st1)
    = map_sum id ini_outcome (ini_lines h (text_lines t) st2)"
  using assms
proof (induction "length t" arbitrary: t st1 st2 rule: less_induct)
  case less
  note step = ini_loop_line[OF _ less.prems(2)]
  show ?case
  proof (cases t rule: text_cases)
    case last
    show ?thesis
    proof (cases "t = []")
      case True
      then show ?thesis
        using less.prems(2) by (auto simp: ini_loop_left whole_def ini_line_blank ini_view_def ini_outcome_def)
    next
      case False
      obtain s where s: "file_ini_stream_reader INI_MAX_LINE (whole t) = Inr (Some t, s)" "st_left s \<le> 0"
        using reader_last[OF last False] less.prems(1) text_lines_one_line[OF last] by auto
      show ?thesis
        unfolding text_lines_one_line[OF last]
        by (rule step[OF s(1)]) (auto simp: ini_loop_left[OF s(2)] ini_view_def ini_outcome_def)
    qed
  next
    case (break l c u)
    have lines: "text_lines t = l # text_lines u"
      using text_lines_break[OF break(2,3)] break(1) by simp
    then have len: "length l < INI_MAX_LINE" "\<forall>l \<in> set (text_lines u). length l < INI_MAX_LINE"
      using less.prems(1) by auto
    consider (one) "file_ini_stream_reader INI_MAX_LINE (whole t) = Inr (Some l, whole u)"
      | (two) v where "u = c # v" "file_ini_stream_reader INI_MAX_LINE (whole t) = Inr (Some l, whole v)"
      using reader_break[OF break(2,3) len(1), of u] break(1) by blast
    then show ?thesis
    proof cases
      case one
      show ?thesis unfolding lines
        by (rule step[OF one]) (rule less.hyps, use break(1) len in simp_all)
    next
      case two
      have v: "text_lines u = [] # text_lines v"
        using two(1) break(3) by (auto simp: newline_def)
      show ?thesis unfolding lines v
      proof (rule step[OF two(2)])
        fix s1 s2 :: "'a ini_state"
        assume s: "ini_view s1 = ini_view s2" "ini_error s1 = 0" "ini_lineno s2 \<noteq> 0"
        have "map_sum id ini_outcome (ini_loop h (whole v) s1)
            = map_sum id ini_outcome (ini_lines h (text_lines v) s2)"
          by (rule less.hyps) (use break(1) two(1) len v s in auto)
        also have "\<dots> = map_sum id ini_outcome (ini_lines h ([] # text_lines v) s2)"
          using ini_lines_blank[of s2 h "text_lines v"] s by (simp add: ini_view_def)
        finally show "map_sum id ini_outcome (ini_loop h (whole v) s1)
            = map_sum id ini_outcome (ini_lines h ([] # text_lines v) s2)" .
      qed
    qed
  qed
qed

section \<open>Rendered documents\<close>

text \<open>
  A document is a list of pairs outside any section and a list of sections; a pair has a name,
  a value and further lines of the same value.
\<close>

type_synonym ini_pair = "string \<times> string \<times> string list"

record ini_doc =
  doc_top :: "ini_pair list"
  doc_sections :: "(string \<times> ini_pair list) list"

fun pair_lines :: "ini_pair \<Rightarrow> string list" where
  "pair_lines (n, v, cont) = (n @ CHR ''='' # v) # map (\<lambda>m. CHR '' '' # m) cont"

fun section_lines :: "string \<times> ini_pair list \<Rightarrow> string list" where
  "section_lines (s, pairs) = (CHR ''['' # s @ '']'') # concat (map pair_lines pairs)"

definition doc_lines :: "ini_doc \<Rightarrow> string list" where
  "doc_lines d = concat (map pair_lines (doc_top d)) @ concat (map section_lines (doc_sections d))"

definition render_doc :: "ini_doc \<Rightarrow> string" where
  "render_doc d = concat (map (\<lambda>l. l @ [LF]) (doc_lines d))"

fun pair_calls :: "string \<Rightarrow> ini_pair \<Rightarrow> (string \<times> string \<times> string) list" where
  "pair_calls s (n, v, cont) = (s, n, v) # map (\<lambda>m. (s, n, m)) cont"

definition doc_calls :: "ini_doc \<Rightarrow> (string \<times> string \<times> string) list" where
  "doc_calls d = concat (map (pair_calls []) (doc_top d))
     @ concat (map (\<lambda>(s, pairs). concat (map (pair_calls s) pairs)) (doc_sections d))"

text \<open>Text without a line end, without blanks at its ends and without an inline comment.\<close>

definition plain :: "string \<Rightarrow> bool" where
  "plain v \<longleftrightarrow> one_line v \<and> ini_find False [] v = length v
     \<and> (v = [] \<or> \<not> isspace (hd v) \<and> \<not> isspace (last v))"

definition good_section :: "string \<Rightarrow> bool" where
  "good_section s \<longleftrightarrow> one_line s \<and> ini_find False [] s = length s \<and> CHR '']'' \<notin> set s
     \<and> length s < MAX_SECTION"

definition good_name :: "string \<Rightarrow> bool" where
  "good_name n \<longleftrightarrow> plain n \<and> n \<noteq> [] \<and> CHR ''='' \<notin> set n \<and> CHR '':'' \<notin> set n
     \<and> hd n \<notin> {CHR '';'', CHR ''#'', CHR ''['', CHR 0xEF} \<and> length n < MAX_NAME"

fun good_pair :: "ini_pair \<Rightarrow> bool" where
  "good_pair (n, v, cont) = (good_name n \<and> plain v
     \<and> (\<forall>m \<in> set cont. plain m \<and> m \<noteq> [] \<and> hd m \<notin> {CHR '';'', CHR ''#''}))"

definition good_doc :: "ini_doc \<Rightarrow> bool" where
  "good_doc d \<longleftrightarrow> (\<forall>p \<in> set (doc_top d). good_pair p)
     \<and> (\<forall>(s, pairs) \<in> set (doc_sections d). good_section s \<and> (\<forall>p \<in> set pairs. good_pair p))
     \<and> (\<forall>l \<in> set (doc_lines d). length l < INI_MAX_LINE)"

lemma ini_find_stop:
  "ini_find ws [] s = length s \<Longrightarrow> set s \<inter> set cs = {} \<Longrightarrow> c \<in> set cs \<Longrightarrow>
    ini_find ws cs (s @ c # t) = length s"
  by (induction s arbitrary: ws) (auto split: if_splits)

lemma plain_trim: "plain v \<Longrightarrow> rstrip v = v \<and> lskip v = v"
  by (auto simp: plain_def intro: rstrip_id lskip_id)

lemma line_section:
  assumes "good_section s"
  shows "ini_line h (CHR ''['' # s @ '']'') st =
    (let st1 = st\<lparr>ini_lineno := ini_lineno st + 1\<rparr>
     in Inr (st1\<lparr>ini_section := s, ini_prev_name := []\<rparr>))"
proof -
  let ?l = "CHR ''['' # s @ '']''"
  have trim: "rstrip ?l = ?l" "lskip ?l = ?l"
    by (rule rstrip_id, simp add: isspace_def) (rule lskip_id, simp add: isspace_def)
  have k: "ini_find_chars_or_comment (s @ '']'') '']'' = length s"
    using ini_find_stop[of False s "'']''" "CHR '']''" "[]"] assms
    by (auto simp: good_section_def ini_find_chars_or_comment_def)
  have s: "ini_strncpy0 s MAX_SECTION = s"
    using assms by (simp add: ini_strncpy0_def good_section_def MAX_SECTION_def)
  show ?thesis
    by (simp add: ini_line_def ini_bom_def ini_rstrip_def ini_lskip_def trim ini_body_def k s Let_def)
qed

lemma line_pair:
  assumes "good_name n" "plain v"
  shows "ini_line h (n @ CHR ''='' # v) st =
    ini_call h n v (st\<lparr>ini_lineno := ini_lineno st + 1, ini_prev_name := n\<rparr>)"
proof -
  let ?l = "n @ CHR ''='' # v"
  obtain c n' where n: "n = c # n'"
    using assms(1) by (cases n) (auto simp: good_name_def)
  have c: "c \<notin> {CHR '';'', CHR ''#'', CHR ''['', CHR 0xEF}" "\<not> isspace c"
    using assms(1) by (auto simp: good_name_def plain_def n)
  have trim: "rstrip ?l = ?l" "lskip ?l = ?l"
    using assms(2) c(2)
    by (auto intro!: rstrip_id lskip_id simp: n plain_def isspace_def[of "CHR ''=''"] split: if_splits)
  have k: "ini_find_chars_or_comment ?l ''=:'' = length n"
    using ini_find_stop[of False n "''=:''" "CHR ''=''" v] assms(1)
    by (auto simp: good_name_def plain_def ini_find_chars_or_comment_def)
  have v: "ini_find_chars_or_comment v [] = length v"
    using assms(2) by (simp add: plain_def ini_find_chars_or_comment_def)
  have name: "ini_strncpy0 n MAX_NAME = n" "rstrip n = n"
    using assms(1) plain_trim by (auto simp: ini_strncpy0_def good_name_def)
  have bom: "take 3 ?l \<noteq> ini_bom"
    using c by (simp add: n ini_bom_def)
  have body: "ini_body h ?l False (st\<lparr>ini_lineno := ini_lineno st + 1\<rparr>)
      = ini_call h n v (st\<lparr>ini_lineno := ini_lineno st + 1, ini_prev_name := n\<rparr>)"
  proof -
    have "ini_body h ?l False st' = ini_call h n v (st'\<lparr>ini_prev_name := n\<rparr>)" for st'
      using c(1) k v name plain_trim[OF assms(2)]
      by (cases n) (simp_all add: n ini_body_def ini_rstrip_def ini_lskip_def Let_def)
    then show ?thesis by simp
  qed
  show ?thesis
    using body trim bom by (simp add: ini_line_def ini_rstrip_def ini_lskip_def Let_def)
qed

lemma line_continuation:
  assumes "plain m" "m \<noteq> []" "hd m \<notin> {CHR '';'', CHR ''#''}" "ini_prev_name st \<noteq> []"
  shows "ini_line h (CHR '' '' # m) st =
    ini_call h (ini_prev_name st) m (st\<lparr>ini_lineno := ini_lineno st + 1\<rparr>)"
proof -
  obtain c m' where m: "m = c # m'"
    using assms(2) by (cases m) auto
  have trim: "rstrip (CHR '' '' # m) = CHR '' '' # m" "lskip (CHR '' '' # m) = m"
    using assms(1,2) plain_trim[OF assms(1)] by (auto intro!: rstrip_id simp: plain_def lskip_Cons isspace_def)
  have v: "ini_find_chars_or_comment m [] = length m"
    using assms(1) by (simp add: plain_def ini_find_chars_or_comment_def)
  have body: "ini_body h m True (st\<lparr>ini_lineno := ini_lineno st + 1\<rparr>)
      = ini_call h (ini_prev_name st) m (st\<lparr>ini_lineno := ini_lineno st + 1\<rparr>)"
    using assms(3,4) v plain_trim[OF assms(1)] unfolding m
    by (simp add: ini_body_def ini_rstrip_def)
  show ?thesis
    using body by (simp add: ini_line_def ini_rstrip_def ini_lskip_def trim ini_bom_def Let_def)
qed

text \<open>A handler that accepts every pair it is given.\<close>

definition accepts_all :: "'u ini_handler \<Rightarrow> ('u \<Rightarrow> string \<times> string \<times> string \<Rightarrow> 'u res) \<Rightarrow> bool" where
  "accepts_all h g \<longleftrightarrow> (\<forall>u s n v. h u s n v = res_bind (g u (s, n, v)) (\<lambda>u'. Inr (u', True)))"

text \<open>A block of lines makes these calls and leaves the parser in this section.\<close>

definition makes_calls ::
  "'u ini_handler \<Rightarrow> ('u \<Rightarrow> string \<times> string \<times> string \<Rightarrow> 'u res) \<Rightarrow> string list
    \<Rightarrow> (string \<times> string \<times> string) list \<Rightarrow> string \<Rightarrow> string \<Rightarrow> bool" where
  "makes_calls h g ls calls s s' \<longleftrightarrow> (\<forall>st rest. ini_section st = s \<and> ini_error st = 0 \<longrightarrow>
     (case res_fold (\<lambda>c u. g u c) calls (ini_user st) of
        Inl e \<Rightarrow> ini_lines h (ls @ rest) st = Inl e
      | Inr u \<Rightarrow> (\<exists>st'. ini_lines h (ls @ rest) st = ini_lines h rest st'
          \<and> ini_section st' = s' \<and> ini_error st' = 0 \<and> ini_user st' = u)))"

lemma makes_calls_Nil: "makes_calls h g [] [] s s"
  by (auto simp: makes_calls_def)

lemma makes_calls_append:
  assumes "makes_calls h g ls calls s s'" "makes_calls h g ls' calls' s' s''"
  shows "makes_calls h g (ls @ ls') (calls @ calls') s s''"
  unfolding makes_calls_def
proof (intro allI impI)
  fix st :: "'a ini_state" and rest
  assume st: "ini_section st = s \<and> ini_error st = 0"
  show "case res_fold (\<lambda>c u. g u c) (calls @ calls') (ini_user st) of
        Inl e \<Rightarrow> ini_lines h ((ls @ ls') @ rest) st = Inl e
      | Inr u \<Rightarrow> (\<exists>st'. ini_lines h ((ls @ ls') @ rest) st = ini_lines h rest st'
          \<and> ini_section st' = s'' \<and> ini_error st' = 0 \<and> ini_user st' = u)"
  proof (cases "res_fold (\<lambda>c u. g u c) calls (ini_user st)")
    case (Inl e)
    then show ?thesis
      using assms(1)[unfolded makes_calls_def, rule_format, OF st, of "ls' @ rest"]
      by (simp add: res_fold_append)
  next
    case (Inr u)
    then obtain st1 where st1: "ini_lines h (ls @ ls' @ rest) st = ini_lines h (ls' @ rest) st1"
        "ini_section st1 = s' \<and> ini_error st1 = 0" "ini_user st1 = u"
      using assms(1)[unfolded makes_calls_def, rule_format, OF st, of "ls' @ rest"] by auto
    show ?thesis
      using assms(2)[unfolded makes_calls_def, rule_format, OF st1(2), of rest] Inr st1(1,3)
      by (cases "res_fold (\<lambda>c u. g u c) calls' u") (simp_all add: res_fold_append)
  qed
qed

lemma makes_calls_concat:
  assumes "\<And>x. x \<in> set xs \<Longrightarrow> makes_calls h g (f x) (k x) s s"
  shows "makes_calls h g (concat (map f xs)) (concat (map k xs)) s s"
  using assms by (induction xs) (auto intro: makes_calls_Nil makes_calls_append)

lemma ini_call_accepts:
  assumes "accepts_all h g" "ini_error st = 0"
  shows "ini_call h n v st
    = res_bind (g (ini_user st) (ini_section st, n, v)) (\<lambda>u. Inr (st\<lparr>ini_user := u\<rparr>))"
  using assms by (cases "g (ini_user st) (ini_section st, n, v)")
    (simp_all add: ini_call_def accepts_all_def)

lemma calls_continuations:
  assumes "accepts_all h g" "n \<noteq> []"
    and "\<forall>m \<in> set cont. plain m \<and> m \<noteq> [] \<and> hd m \<notin> {CHR '';'', CHR ''#''}"
    and "ini_prev_name st = n" "ini_section st = s" "ini_error st = 0"
  shows "case res_fold (\<lambda>c u. g u c) (map (\<lambda>m. (s, n, m)) cont) (ini_user st) of
      Inl e \<Rightarrow> ini_lines h (map (\<lambda>m. CHR '' '' # m) cont @ rest) st = Inl e
    | Inr u \<Rightarrow> (\<exists>st'. ini_lines h (map (\<lambda>m. CHR '' '' # m) cont @ rest) st = ini_lines h rest st'
        \<and> ini_section st' = s \<and> ini_error st' = 0 \<and> ini_user st' = u)"
  using assms(3-6)
proof (induction cont arbitrary: st)
  case Nil
  then show ?case by auto
next
  case (Cons m cont)
  let ?st = "st\<lparr>ini_lineno := ini_lineno st + 1\<rparr>"
  have line: "ini_line h (CHR '' '' # m) st
      = res_bind (g (ini_user st) (s, n, m)) (\<lambda>u. Inr (?st\<lparr>ini_user := u\<rparr>))"
    using line_continuation[of m st h] ini_call_accepts[OF assms(1), of ?st n m] Cons.prems assms(2)
    by simp
  show ?case
  proof (cases "g (ini_user st) (s, n, m)")
    case (Inl e)
    then show ?thesis using line by simp
  next
    case (Inr u)
    then show ?thesis
      using line Cons.IH[of "?st\<lparr>ini_user := u\<rparr>"] Cons.prems by (simp split: sum.splits)
  qed
qed

lemma pair_makes_calls:
  assumes "accepts_all h g" "good_pair p"
  shows "makes_calls h g (pair_lines p) (pair_calls s p) s s"
  unfolding makes_calls_def
proof (intro allI impI)
  fix st :: "'a ini_state" and rest
  assume st: "ini_section st = s \<and> ini_error st = 0"
  obtain n v cont where p: "p = (n, v, cont)" by (cases p)
  have good: "good_name n" "plain v" "n \<noteq> []"
    "\<forall>m \<in> set cont. plain m \<and> m \<noteq> [] \<and> hd m \<notin> {CHR '';'', CHR ''#''}"
    using assms(2) by (auto simp: p good_name_def)
  let ?st = "st\<lparr>ini_lineno := ini_lineno st + 1, ini_prev_name := n\<rparr>"
  have line: "ini_line h (n @ CHR ''='' # v) st
      = res_bind (g (ini_user st) (s, n, v)) (\<lambda>u. Inr (?st\<lparr>ini_user := u\<rparr>))"
    using line_pair[OF good(1,2), of h st] ini_call_accepts[OF assms(1), of ?st n v] st by simp
  show "case res_fold (\<lambda>c u. g u c) (pair_calls s p) (ini_user st) of
        Inl e \<Rightarrow> ini_lines h (pair_lines p @ rest) st = Inl e
      | Inr u \<Rightarrow> (\<exists>st'. ini_lines h (pair_lines p @ rest) st = ini_lines h rest st'
          \<and> ini_section st' = s \<and> ini_error st' = 0 \<and> ini_user st' = u)"
  proof (cases "g (ini_user st) (s, n, v)")
    case (Inl e)
    then show ?thesis using line by (simp add: p)
  next
    case (Inr u)
    then show ?thesis
      using line calls_continuations[OF assms(1) good(3,4), of "?st\<lparr>ini_user := u\<rparr>" s rest] st
      by (simp add: p split: sum.splits)
  qed
qed

lemma section_makes_calls:
  assumes "accepts_all h g" "good_section s" "\<forall>p \<in> set pairs. good_pair p"
  shows "makes_calls h g (section_lines (s, pairs)) (concat (map (pair_calls s) pairs)) s0 s"
proof -
  have "makes_calls h g [CHR ''['' # s @ '']''] [] s0 s"
    using line_section[OF assms(2), of h] by (auto simp: makes_calls_def Let_def)
  moreover have "makes_calls h g (concat (map pair_lines pairs)) (concat (map (pair_calls s) pairs)) s s"
    using assms(3) by (intro makes_calls_concat pair_makes_calls[OF assms(1)]) auto
  ultimately show ?thesis
    using makes_calls_append[of h g "[CHR ''['' # s @ '']'']" "[]" s0 s] by simp
qed

lemma sections_make_calls:
  assumes "accepts_all h g" "\<forall>(s, pairs) \<in> set secs. good_section s \<and> (\<forall>p \<in> set pairs. good_pair p)"
  shows "\<exists>s'. makes_calls h g (concat (map section_lines secs))
    (concat (map (\<lambda>(s, pairs). concat (map (pair_calls s) pairs)) secs)) s0 s'"
  using assms(2)
proof (induction secs arbitrary: s0)
  case Nil
  then show ?case using makes_calls_Nil by force
next
  case (Cons sec secs)
  obtain s pairs where sec: "sec = (s, pairs)" by (cases sec)
  obtain s' where "makes_calls h g (concat (map section_lines secs))
      (concat (map (\<lambda>(s, pairs). concat (map (pair_calls s) pairs)) secs)) s s'"
    using Cons.IH[of s] Cons.prems by (meson list.set_intros(2))
  then have "makes_calls h g (section_lines sec @ concat (map section_lines secs))
      (concat (map (pair_calls s) pairs) @ concat (map (\<lambda>(s, pairs). concat (map (pair_calls s) pairs)) secs)) s0 s'"
    using makes_calls_append section_makes_calls[OF assms(1), of s pairs s0] Cons.prems
    unfolding sec by fastforce
  then show ?case by (auto simp: sec)
qed

lemma text_lines_render:
  "\<forall>l \<in> set ls. one_line l \<Longrightarrow> text_lines (concat (map (\<lambda>l. l @ [LF]) ls)) = ls @ [[]]"
  by (induction ls) (simp_all add: text_lines_break newline_def)

lemma plain_one_line: "plain v \<Longrightarrow> one_line v"
  by (simp add: plain_def)

lemma doc_one_line:
  assumes "good_doc d"
  shows "\<forall>l \<in> set (doc_lines d). one_line l"
proof -
  have pair: "\<forall>l \<in> set (pair_lines p). one_line l" if "good_pair p" for p
    using that by (cases p) (auto simp: good_name_def newline_def dest: plain_one_line)
  have "\<forall>l \<in> set (section_lines (s, ps)). one_line l"
    if "good_section s" "\<forall>p \<in> set ps. good_pair p" for s ps
    using that pair by (auto simp: good_section_def newline_def simp del: pair_lines.simps good_pair.simps)
  then show ?thesis
    using assms pair unfolding doc_lines_def good_doc_def
    by (fastforce simp del: pair_lines.simps good_pair.simps section_lines.simps)
qed

text \<open>Parsing the rendering of a document makes exactly the calls the document stands for.\<close>

lemma parse_render:
  assumes "good_doc d" "accepts_all h g"
  shows "ini_parse_stream (whole (render_doc d)) h u
    = res_bind (res_fold (\<lambda>c u. g u c) (doc_calls d) u) (\<lambda>u'. Inr (u', 0))"
proof -
  have lines: "text_lines (render_doc d) = doc_lines d @ [[]]"
    using text_lines_render[OF doc_one_line[OF assms(1)]] by (simp add: render_doc_def)
  have len: "\<forall>l \<in> set (text_lines (render_doc d)). length l < INI_MAX_LINE"
    using assms(1) by (auto simp: lines good_doc_def INI_MAX_LINE_def)
  have "makes_calls h g (concat (map pair_lines (doc_top d))) (concat (map (pair_calls []) (doc_top d))) [] []"
    using assms(1) by (intro makes_calls_concat pair_makes_calls[OF assms(2)]) (auto simp: good_doc_def)
  moreover obtain s' where "makes_calls h g (concat (map section_lines (doc_sections d)))
      (concat (map (\<lambda>(s, pairs). concat (map (pair_calls s) pairs)) (doc_sections d))) [] s'"
    using sections_make_calls[OF assms(2), of "doc_sections d" "[]"] assms(1)
    by (auto simp: good_doc_def)
  ultimately have "makes_calls h g (doc_lines d) (doc_calls d) [] s'"
    unfolding doc_lines_def doc_calls_def by (rule makes_calls_append)
  then have calls: "case res_fold (\<lambda>c u. g u c) (doc_calls d) u of
        Inl e \<Rightarrow> ini_lines h (doc_lines d @ [[]]) (ini_init u) = Inl e
      | Inr u' \<Rightarrow> (\<exists>st'. ini_lines h (doc_lines d @ [[]]) (ini_init u) = ini_lines h [[]] st'
          \<and> ini_section st' = s' \<and> ini_error st' = 0 \<and> ini_user st' = u')"
    unfolding makes_calls_def by (drule_tac x = "ini_init u" in spec) (simp add: ini_init_def)
  have eq: "map_sum id ini_outcome (ini_loop h (whole (render_doc d)) (ini_init u))
      = map_sum id ini_outcome (ini_lines h (doc_lines d @ [[]]) (ini_init u))"
    using ini_loop_lines[OF len, of "ini_init u" "ini_init u" h] by (simp add: lines ini_init_def)
  show ?thesis
  proof (cases "res_fold (\<lambda>c u. g u c) (doc_calls d) u")
    case (Inl e)
    then show ?thesis
      using eq calls by (cases "ini_loop h (whole (render_doc d)) (ini_init u)")
        (auto simp: ini_parse_stream_def)
  next
    case (Inr u')
    then show ?thesis
      using eq calls by (cases "ini_loop h (whole (render_doc d)) (ini_init u)")
        (auto simp: ini_parse_stream_def ini_line_blank ini_outcome_def)
  qed
qed

section \<open>The reader stays inside the buffer\<close>

lemma reader_scan_safe:
  "left \<le> int idx + int (length ptr) \<Longrightarrow> int idx \<le> left \<Longrightarrow>
    \<exists>i nl. reader_scan k idx left ptr = Inr (i, nl) \<and> idx \<le> i \<and> int i \<le> left"
proof (induction k idx left ptr rule: reader_scan.induct)
  case (2 k idx left ptr)
  show ?case
  proof (cases ptr)
    case (Cons c cs)
    then show ?thesis
      using 2 by (cases "int idx = left \<or> c = LF \<or> c = CR") (auto dest: order_trans[rotated])
  qed (use 2 in auto)
qed auto

lemma reader_safe:
  assumes "st_left s \<le> int (length (st_ptr s))"
  shows "\<exists>r s'. file_ini_stream_reader n s = Inr (r, s') \<and> st_left s' \<le> int (length (st_ptr s'))"
proof (cases "st_left s \<le> 0")
  case True
  then show ?thesis using assms by (simp add: file_ini_stream_reader_def)
next
  case False
  then obtain i nl where "reader_scan (n - 1) 0 (st_left s) (st_ptr s) = Inr (i, nl)" "int i \<le> st_left s"
    using reader_scan_safe[of "st_left s" 0 "st_ptr s" "n - 1"] assms by auto
  then show ?thesis
    using False assms by (auto simp: file_ini_stream_reader_def Let_def split: list.split)
qed

lemma ini_call_returns: "(\<And>u s n v. returns (h u s n v)) \<Longrightarrow> returns (ini_call h n v st)"
  by (fastforce simp: ini_call_def returns_def res_bind_eq_Inr_iff)

lemma ini_line_returns: "(\<And>u s n v. returns (h u s n v)) \<Longrightarrow> returns (ini_line h l st)"
  by (auto simp: ini_line_def ini_body_def Let_def ini_call_returns split: list.split)

lemma ini_loop_returns:
  assumes "\<And>u s n v. returns (h u s n v)" "st_left s \<le> int (length (st_ptr s))"
  shows "returns (ini_loop h s st)"
  using assms(2)
proof (induction "nat (st_left s)" arbitrary: s st rule: less_induct)
  case less
  obtain r s' where rd: "file_ini_stream_reader INI_MAX_LINE s = Inr (r, s')"
      "st_left s' \<le> int (length (st_ptr s'))"
    using reader_safe[OF less.prems] by blast
  show ?case
  proof (cases r)
    case None
    then show ?thesis using rd by (subst ini_loop.simps) simp
  next
    case (Some l)
    obtain st' where "ini_line h l st = Inr st'"
      using ini_line_returns[of h l st] assms(1) by (auto simp: returns_def)
    moreover have "returns (ini_loop h s' st')"
      using less.hyps[of s'] reader_progress rd Some by blast
    ultimately show ?thesis
      using rd Some by (subst ini_loop.simps) simp
  qed
qed

section \<open>What the handler keeps\<close>

definition handler_keeps :: "('u \<Rightarrow> bool) \<Rightarrow> 'u ini_handler \<Rightarrow> bool" where
  "handler_keeps I h \<longleftrightarrow> (\<forall>u s n v u' b. I u \<longrightarrow> h u s n v = Inr (u', b) \<longrightarrow> I u')"

lemma ini_call_inv: "handler_keeps I h \<Longrightarrow> ini_call h n v z = Inr w \<Longrightarrow> I (ini_user z) \<Longrightarrow> I (ini_user w)"
  by (fastforce simp: handler_keeps_def ini_call_def res_bind_eq_Inr_iff)

lemma ini_body_inv:
  assumes "handler_keeps I h" "I (ini_user st)" "ini_body h start ind st = Inr st'"
  shows "I (ini_user st')"
  using assms(2,3)
  by (auto simp: ini_body_def ini_fail_def Let_def dest: ini_call_inv[OF assms(1)]
      split: list.splits if_splits)

lemma ini_line_inv:
  "handler_keeps I h \<Longrightarrow> I (ini_user st) \<Longrightarrow> ini_line h l st = Inr st' \<Longrightarrow> I (ini_user st')"
  unfolding ini_line_def Let_def by (erule ini_body_inv) simp_all

lemma ini_loop_stop:
  "file_ini_stream_reader INI_MAX_LINE s = Inr (None, s') \<Longrightarrow> ini_loop h s st = Inr st"
  by (subst ini_loop.simps) simp

lemma ini_loop_inv:
  assumes "handler_keeps I h"
  shows "I (ini_user st) \<Longrightarrow> ini_loop h s st = Inr st' \<Longrightarrow> I (ini_user st')"
proof (induction "nat (st_left s)" arbitrary: s st rule: less_induct)
  case less
  obtain r s1 where rd: "file_ini_stream_reader INI_MAX_LINE s = Inr (r, s1)"
    using less.prems(2) by (subst (asm) ini_loop.simps) (auto split: sum.splits)
  show ?case
  proof (cases r)
    case None
    then show ?thesis using less.prems ini_loop_stop[of s s1 h st] rd by simp
  next
    case (Some l)
    note step = ini_loop_step[OF rd[unfolded Some]]
    obtain st1 where st1: "ini_line h l st = Inr st1"
      using less.prems(2) step[of h st] by (auto split: sum.splits)
    have "I (ini_user st1)"
      using ini_line_inv[OF assms less.prems(1) st1] .
    moreover have "nat (st_left s1) < nat (st_left s)"
      using reader_progress rd Some by blast
    ultimately show ?thesis
      using less.hyps[of s1 st1] less.prems(2) step[of h st] st1 by (auto split: if_splits)
  qed
qed

section \<open>Properties\<close>

text \<open>The handler that only records the pairs it is given, for the witnesses.\<close>

definition record_pairs :: "(string \<times> string \<times> string) list ini_handler" where
  "record_pairs u s n v = Inr (u @ [(s, n, v)], True)"

text \<open>
  C26: Parsing ends for every text, however long its lines are: the reader never looks past the
  end of the text, so the only thing that can stop a parse is a handler that aborts.
\<close>

theorem ini_parse_total:
  assumes "\<And>u s n v. returns (h u s n v)"
  shows "returns (ini_parse_stream (whole t) h u)"
  using ini_loop_returns[of h "whole t" "ini_init u"] assms
  by (auto simp: ini_parse_stream_def whole_def returns_def)

theorem ini_parse_total_witness:
  "returns (ini_parse_stream (whole ''[s'') record_pairs [])"
  by (rule ini_parse_total) (simp add: record_pairs_def)

text \<open>
  C22: On a text whose lines fit the line buffer, the streaming reader and the parser loop together
  do exactly what parsing the list of lines one by one does: the same calls in the same order,
  the same accumulated state and the same verdict.
\<close>

theorem ini_parse_is_line_by_line:
  assumes "\<forall>l \<in> set (text_lines t). length l < INI_MAX_LINE"
  shows "map_sum id (\<lambda>(u, e). (u, e = 0)) (ini_parse_stream (whole t) h u)
    = map_sum id (\<lambda>st. (ini_user st, ini_error st = 0)) (ini_lines h (text_lines t) (ini_init u))"
proof -
  have "map_sum id ini_outcome (ini_loop h (whole t) (ini_init u))
      = map_sum id ini_outcome (ini_lines h (text_lines t) (ini_init u))"
    using ini_loop_lines[OF assms, of "ini_init u" "ini_init u" h] by (simp add: ini_init_def)
  moreover have "map_sum id (\<lambda>(u, e). (u, e = 0)) (ini_parse_stream (whole t) h u)
      = map_sum id ini_outcome (ini_loop h (whole t) (ini_init u))"
    by (cases "ini_loop h (whole t) (ini_init u)") (simp_all add: ini_parse_stream_def ini_outcome_def)
  ultimately show ?thesis by (simp add: ini_outcome_def[abs_def])
qed

theorem ini_parse_is_line_by_line_witness:
  "map_sum id (\<lambda>(u, e). (u, e = 0)) (ini_parse_stream (whole (''a=1'' @ [CR, LF, LF] @ ''b'')) record_pairs [])
    = Inr ([([], ''a'', ''1'')], False)"
proof -
  have lines: "text_lines (''a=1'' @ [CR, LF, LF] @ ''b'') = [''a=1'', [], [], ''b'']"
    by simp
  have "map_sum id (\<lambda>st. (ini_user st, ini_error st = 0))
      (ini_lines record_pairs [''a=1'', [], [], ''b''] (ini_init [])) = Inr ([([], ''a'', ''1'')], False)"
    by code_simp
  then show ?thesis
    using ini_parse_is_line_by_line[of "''a=1'' @ [CR, LF, LF] @ ''b''" record_pairs "[]"]
    unfolding lines by (simp add: INI_MAX_LINE_def)
qed

text \<open>
  C19: Round trip. Rendering a document (pairs, sections, values over several lines) and parsing the
  text calls the handler once per line of value, in order, with the section, name and value that
  were rendered, and reports no error.
\<close>

theorem ini_round_trip:
  assumes "good_doc d" "accepts_all h g"
  shows "ini_parse_stream (whole (render_doc d)) h u
    = res_bind (res_fold (\<lambda>c u. g u c) (doc_calls d) u) (\<lambda>u'. Inr (u', 0))"
  using assms by (rule parse_render)

definition sample_doc :: ini_doc where
  "sample_doc = \<lparr>doc_top = [(''top'', ''x = y'', [])],
     doc_sections = [(''s 1'', [(''a'', [], [''b;c'', ''d'']), (''k'', ''1'', [])]), (''t'', [])]\<rparr>"

theorem ini_round_trip_witness:
  "ini_parse_stream (whole (''top=x = y'' @ [LF] @ ''[s 1]'' @ [LF] @ ''a='' @ [LF] @ '' b;c'' @ [LF]
      @ '' d'' @ [LF] @ ''k=1'' @ [LF] @ ''[t]'' @ [LF])) record_pairs []
    = Inr ([([], ''top'', ''x = y''), (''s 1'', ''a'', []), (''s 1'', ''a'', ''b;c''),
            (''s 1'', ''a'', ''d''), (''s 1'', ''k'', ''1'')], 0)"
proof -
  have good: "good_doc sample_doc"
    by (simp add: good_doc_def sample_doc_def doc_lines_def good_section_def good_name_def plain_def
        newline_def isspace_def MAX_SECTION_def MAX_NAME_def INI_MAX_LINE_def)
  have handler: "accepts_all record_pairs (\<lambda>u c. Inr (u @ [c]))"
    by (simp add: accepts_all_def record_pairs_def)
  have rendered: "render_doc sample_doc = ''top=x = y'' @ [LF] @ ''[s 1]'' @ [LF] @ ''a='' @ [LF]
      @ '' b;c'' @ [LF] @ '' d'' @ [LF] @ ''k=1'' @ [LF] @ ''[t]'' @ [LF]"
    by (simp add: render_doc_def doc_lines_def sample_doc_def)
  show ?thesis
    using ini_round_trip[OF good handler, of "[]"] unfolding rendered
    by (simp add: doc_calls_def sample_doc_def)
qed

end
