(* ===== verification/Cjson.thy ===== *)
theory Cjson
  imports Cfg_Prelude
begin

unbundle bit_operations_syntax

text \<open>
  The parser of \<open>cJSON.c\<close>, as \<open>cJSON_ParseWithOpts\<close> reaches it. The offset into the buffer is
  the suffix that is left to read; the buffer is the text and its terminating NUL, which the
  parser may read. Doubles are a parameter (\<open>number_ops\<close>): \<open>strtod\<close>, the comparisons with the
  bounds of \<open>int\<close>, truncation, \<open>modf\<close> and the formatting the callers use. Strings in items are C
  strings: they end at the first NUL. Building the linked list cannot fail (no allocation failure).
\<close>

datatype 'd cjson =
    cJSON_NULL
  | cJSON_False
  | cJSON_True
  | cJSON_Number 'd int
  | cJSON_String string
  | cJSON_Raw string
  | cJSON_Array "'d cjson list"
  | cJSON_Object "(string \<times> 'd cjson) list"

record 'd number_ops =
  nm_strtod :: "string \<Rightarrow> 'd \<times> nat"
  nm_ge_int_max :: "'d \<Rightarrow> bool"
  nm_le_int_min :: "'d \<Rightarrow> bool"
  nm_trunc :: "'d \<Rightarrow> int"
  nm_integral :: "'d \<Rightarrow> bool"
  nm_format3 :: "'d \<Rightarrow> string"

datatype 'a parsed = Out_Of_Fuel | Failed | Parsed 'a string

fun parsed_bind :: "'a parsed \<Rightarrow> ('a \<Rightarrow> string \<Rightarrow> 'b parsed) \<Rightarrow> 'b parsed" where
  "parsed_bind Out_Of_Fuel f = Out_Of_Fuel"
| "parsed_bind Failed f = Failed"
| "parsed_bind (Parsed x s) f = f x s"

definition CJSON_NESTING_LIMIT :: nat where
  "CJSON_NESTING_LIMIT = 1000"

definition INT_MAX :: int where
  "INT_MAX = 2147483647"

definition INT_MIN :: int where
  "INT_MIN = - 2147483648"

section \<open>White space and marks\<close>

text \<open>
  \<open>buffer_skip_whitespace\<close>: the NUL at the end counts as white space, and a buffer skipped to its
  end is put back on its last byte.
\<close>

definition skip_ws :: "string \<Rightarrow> string" where
  "skip_ws s =
     (if s = [] then []
      else case dropWhile (\<lambda>c. byte c \<le> 32) s of [] \<Rightarrow> [last s] | c # cs \<Rightarrow> c # cs)"

definition skip_utf8_bom :: "string \<Rightarrow> string" where
  "skip_utf8_bom s =
     (if 4 < length s \<and> take 3 s = [CHR 0xEF, CHR 0xBB, CHR 0xBF] then drop 3 s else s)"

section \<open>Numbers\<close>

definition number_char :: "char \<Rightarrow> bool" where
  "number_char c \<longleftrightarrow> c \<in> set ''0123456789+-eE.''"

definition parse_number :: "'d number_ops \<Rightarrow> string \<Rightarrow> 'd cjson parsed" where
  "parse_number ops s =
     (case nm_strtod ops (takeWhile number_char (take 63 s)) of
        (d, n) \<Rightarrow>
          if n = 0 then Failed
          else Parsed
            (cJSON_Number d
               (if nm_ge_int_max ops d then INT_MAX
                else if nm_le_int_min ops d then INT_MIN
                else nm_trunc ops d))
            (drop n s))"

section \<open>Strings\<close>

fun hex_digit :: "char \<Rightarrow> nat option" where
  "hex_digit c =
     (if 48 \<le> byte c \<and> byte c \<le> 57 then Some (byte c - 48)
      else if 65 \<le> byte c \<and> byte c \<le> 70 then Some (10 + byte c - 65)
      else if 97 \<le> byte c \<and> byte c \<le> 102 then Some (10 + byte c - 97)
      else None)"

text \<open>\<open>parse_hex4\<close>: an invalid digit makes the whole number 0. \<open>h\<close> holds what was read so far.\<close>

fun hex_from :: "nat \<Rightarrow> 32 word \<Rightarrow> string \<Rightarrow> 32 word" where
  "hex_from 0 h s = h"
| "hex_from (Suc i) h [] = 0"
| "hex_from (Suc i) h (c # cs) =
     (case hex_digit c of
        None \<Rightarrow> 0
      | Some d \<Rightarrow>
          let h' = h + word_of_nat d
          in hex_from i (if i > 0 then push_bit 4 h' else h') cs)"

definition parse_hex4 :: "string \<Rightarrow> 32 word" where
  "parse_hex4 s = hex_from 4 0 s"

text \<open>
  The bytes of a code point: \<open>utf8_length\<close> bytes, the last ones first, each taking six bits.
\<close>

fun utf8_tail :: "nat \<Rightarrow> 64 word \<Rightarrow> string \<Rightarrow> 64 word \<times> string" where
  "utf8_tail 0 cp out = (cp, out)"
| "utf8_tail (Suc k) cp out =
     utf8_tail k (drop_bit 6 cp) (char_of (unat ((cp OR 0x80) AND 0xBF)) # out)"

definition encode_utf8 :: "64 word \<Rightarrow> string option" where
  "encode_utf8 codepoint =
     (let enc = (\<lambda>len mark. case utf8_tail (len - 1) codepoint [] of
            (cp, out) \<Rightarrow> Some (char_of (unat ((cp OR mark) AND 0xFF)) # out))
      in if codepoint < 0x80 then Some [char_of (unat (codepoint AND 0x7F))]
         else if codepoint < 0x800 then enc 2 0xC0
         else if codepoint < 0x10000 then enc 3 0xE0
         else if codepoint \<le> 0x10FFFF then enc 4 0xF0
         else None)"

text \<open>
  \<open>utf16_literal_to_utf8\<close>: \<open>n\<close> bytes are left before \<open>input_end\<close>; the result is the output and the
  length of the sequence read, None the return value 0.
\<close>

definition utf16_literal_to_utf8 :: "int \<Rightarrow> string \<Rightarrow> (string \<times> nat) option" where
  "utf16_literal_to_utf8 n s =
     (if n < 6 then None
      else let first = parse_hex4 (drop 2 s) in
        if first \<ge> 0xDC00 \<and> first \<le> 0xDFFF then None
        else if first \<ge> 0xD800 \<and> first \<le> 0xDBFF
        then (if n - 6 < 6 then None
              else if take 2 (drop 6 s) \<noteq> [CHR 0x5C, CHR ''u''] then None
              else let second = parse_hex4 (drop 8 s) in
                if second < 0xDC00 \<or> second > 0xDFFF then None
                else map_option (\<lambda>out. (out, 12))
                  (encode_utf8 (0x10000 +
                     (push_bit 10 (ucast first AND 0x3FF) OR (ucast second AND 0x3FF)))))
        else map_option (\<lambda>out. (out, 6)) (encode_utf8 (ucast first)))"

text \<open>The first pass of \<open>parse_string\<close>: how far the closing quote is, None when it is missing.\<close>

fun string_end :: "string \<Rightarrow> nat option" where
  "string_end [] = None"
| "string_end (c # cs) =
     (if c = CHR 0x22 then Some 0
      else if c = CHR 0x5C
      then (case cs of [] \<Rightarrow> None | d # ds \<Rightarrow> map_option (\<lambda>k. k + 2) (string_end ds))
      else map_option Suc (string_end cs))"

definition simple_escape :: "char \<Rightarrow> char option" where
  "simple_escape e =
     (if e = CHR ''b'' then Some (CHR 0x08)
      else if e = CHR ''f'' then Some (CHR 0x0C)
      else if e = CHR ''n'' then Some (CHR 0x0A)
      else if e = CHR ''r'' then Some (CHR 0x0D)
      else if e = CHR ''t'' then Some (CHR 0x09)
      else if e = CHR 0x22 \<or> e = CHR 0x5C \<or> e = CHR ''/'' then Some e
      else None)"

lemma utf16_length: "utf16_literal_to_utf8 n s = Some (out, len) \<Longrightarrow> len = 6 \<or> len = 12"
  by (auto simp: utf16_literal_to_utf8_def Let_def split: if_splits)

text \<open>
  The second pass: \<open>n\<close> is \<open>input_end - input_pointer\<close>, which an escape at the very end may take
  below 0; the byte at \<open>input_end\<close> is still there to be read.
\<close>

function unescape :: "int \<Rightarrow> string \<Rightarrow> string option" where
  "unescape n s =
     (if n \<le> 0 then Some []
      else case s of
        [] \<Rightarrow> Some []
      | c # cs \<Rightarrow>
          if c \<noteq> CHR 0x5C then map_option (\<lambda>out. c # out) (unescape (n - 1) cs)
          else (case cs of
              [] \<Rightarrow> None
            | e # es \<Rightarrow>
                if e = CHR ''u''
                then (case utf16_literal_to_utf8 n s of
                    None \<Rightarrow> None
                  | Some (bytes, len) \<Rightarrow>
                      map_option (\<lambda>out. bytes @ out) (unescape (n - int len) (drop len s)))
                else (case simple_escape e of
                    None \<Rightarrow> None
                  | Some d \<Rightarrow> map_option (\<lambda>out. d # out) (unescape (n - 2) es))))"
  by pat_completeness auto
termination
  by (relation "measure (\<lambda>(n, s). nat n)") (auto dest: utf16_length)

declare unescape.simps [simp del]

definition parse_string :: "string \<Rightarrow> string parsed" where
  "parse_string s =
     (case s of
        [] \<Rightarrow> Failed
      | q # rest \<Rightarrow>
          if q \<noteq> CHR 0x22 then Failed
          else (case string_end rest of
              None \<Rightarrow> Failed
            | Some k \<Rightarrow>
                (case unescape (int k) rest of
                   None \<Rightarrow> Failed
                 | Some out \<Rightarrow> Parsed (c_string out) (drop (k + 1) rest))))"

section \<open>Values\<close>

text \<open>
  The loops of \<open>parse_array\<close> and \<open>parse_object\<close>, from the byte after the bracket or the comma,
  for a parser \<open>pv\<close> of one value. The number is fuel, one unit per turn.
\<close>

fun parse_elements :: "(string \<Rightarrow> 'd cjson parsed) \<Rightarrow> nat \<Rightarrow> string \<Rightarrow> 'd cjson list parsed" where
  "parse_elements pv 0 s = Out_Of_Fuel"
| "parse_elements pv (Suc f) s =
     parsed_bind (pv (skip_ws s)) (\<lambda>item t.
       case skip_ws t of
         [] \<Rightarrow> Failed
       | c # cs \<Rightarrow>
           if c = CHR '','' then parsed_bind (parse_elements pv f cs) (\<lambda>items u. Parsed (item # items) u)
           else if c = CHR '']'' then Parsed [item] cs
           else Failed)"

fun parse_members ::
  "(string \<Rightarrow> 'd cjson parsed) \<Rightarrow> nat \<Rightarrow> string \<Rightarrow> (string \<times> 'd cjson) list parsed" where
  "parse_members pv 0 s = Out_Of_Fuel"
| "parse_members pv (Suc f) s =
     (if s = [] then Failed
      else parsed_bind (parse_string (skip_ws s)) (\<lambda>name t.
        case skip_ws t of
          [] \<Rightarrow> Failed
        | c # cs \<Rightarrow>
            if c \<noteq> CHR '':'' then Failed
            else parsed_bind (pv (skip_ws cs)) (\<lambda>item u.
              case skip_ws u of
                [] \<Rightarrow> Failed
              | d # ds \<Rightarrow>
                  if d = CHR '','' then parsed_bind (parse_members pv f ds) (\<lambda>items v. Parsed ((name, item) # items) v)
                  else if d = CHR ''}'' then Parsed [(name, item)] ds
                  else Failed)))"

text \<open>
  \<open>pv\<close> is None when the nesting limit is reached. A loop takes at least one byte per turn, so the
  length of what is left is fuel enough.
\<close>

definition parse_array :: "(string \<Rightarrow> 'd cjson parsed) option \<Rightarrow> string \<Rightarrow> 'd cjson parsed" where
  "parse_array nested s =
     (case nested of None \<Rightarrow> Failed
      | Some pv \<Rightarrow>
         (case s of
            [] \<Rightarrow> Failed
          | c # cs \<Rightarrow>
              if c \<noteq> CHR ''['' then Failed
              else (case skip_ws cs of
                  [] \<Rightarrow> Failed
                | d # ds \<Rightarrow>
                    if d = CHR '']'' then Parsed (cJSON_Array []) ds
                    else parsed_bind (parse_elements pv (length s + 1) (d # ds))
                           (\<lambda>items t. Parsed (cJSON_Array items) t))))"

definition parse_object :: "(string \<Rightarrow> 'd cjson parsed) option \<Rightarrow> string \<Rightarrow> 'd cjson parsed" where
  "parse_object nested s =
     (case nested of None \<Rightarrow> Failed
      | Some pv \<Rightarrow>
         (case s of
            [] \<Rightarrow> Failed
          | c # cs \<Rightarrow>
              if c \<noteq> CHR ''{'' then Failed
              else (case skip_ws cs of
                  [] \<Rightarrow> Failed
                | d # ds \<Rightarrow>
                    if d = CHR ''}'' then Parsed (cJSON_Object []) ds
                    else parsed_bind (parse_members pv (length s + 1) (d # ds))
                           (\<lambda>items t. Parsed (cJSON_Object items) t))))"

definition parse_value_with ::
  "'d number_ops \<Rightarrow> (string \<Rightarrow> 'd cjson parsed) option \<Rightarrow> string \<Rightarrow> 'd cjson parsed" where
  "parse_value_with ops nested s =
     (if has_prefix s ''null'' then Parsed cJSON_NULL (drop 4 s)
      else if has_prefix s ''false'' then Parsed cJSON_False (drop 5 s)
      else if has_prefix s ''true'' then Parsed cJSON_True (drop 4 s)
      else case s of
        [] \<Rightarrow> Failed
      | c # cs \<Rightarrow>
          if c = CHR 0x22 then parsed_bind (parse_string s) (\<lambda>v t. Parsed (cJSON_String v) t)
          else if c = CHR ''-'' \<or> 48 \<le> byte c \<and> byte c \<le> 57 then parse_number ops s
          else if c = CHR ''['' then parse_array nested s
          else if c = CHR ''{'' then parse_object nested s
          else Failed)"

text \<open>\<open>parse_value\<close>: the number is \<open>CJSON_NESTING_LIMIT - depth\<close>.\<close>

primrec parse_value :: "'d number_ops \<Rightarrow> nat \<Rightarrow> string \<Rightarrow> 'd cjson parsed" where
  "parse_value ops 0 = parse_value_with ops None"
| "parse_value ops (Suc room) = parse_value_with ops (Some (parse_value ops room))"

text \<open>\<open>cJSON_ParseWithOpts(value, ..., 0)\<close>: what follows the first value is not looked at.\<close>

definition cJSON_ParseWithOpts :: "'d number_ops \<Rightarrow> string \<Rightarrow> 'd cjson option" where
  "cJSON_ParseWithOpts ops t =
     (case parse_value ops CJSON_NESTING_LIMIT (skip_ws (skip_utf8_bom (t @ [NUL]))) of
        Parsed item rest \<Rightarrow> Some item
      | Failed \<Rightarrow> None
      | Out_Of_Fuel \<Rightarrow> None)"

section \<open>The loops never run out of fuel\<close>

lemma skip_ws_length: "length (skip_ws s) \<le> length s"
proof (cases "dropWhile (\<lambda>c. byte c \<le> 32) s")
  case Nil
  then show ?thesis by (cases s) (auto simp: skip_ws_def)
next
  case (Cons c cs)
  then show ?thesis using length_dropWhile_le[of "\<lambda>c. byte c \<le> 32" s] by (auto simp: skip_ws_def)
qed

lemma skip_ws_Cons_length: "skip_ws s = c # cs \<Longrightarrow> length cs < length s"
  using skip_ws_length[of s] by simp

text \<open>A parser that answers, and never gives back more than it was given.\<close>

definition sound_parser :: "(string \<Rightarrow> 'a parsed) \<Rightarrow> bool" where
  "sound_parser pv \<longleftrightarrow> (\<forall>s. case pv s of Out_Of_Fuel \<Rightarrow> False | Failed \<Rightarrow> True
     | Parsed v t \<Rightarrow> length t \<le> length s)"

lemma parse_string_sound: "sound_parser parse_string"
  by (auto simp: sound_parser_def parse_string_def split: list.splits option.splits)

lemma parse_number_sound: "sound_parser (parse_number ops)"
  by (auto simp: sound_parser_def parse_number_def split: prod.splits)

lemma parse_elements_sound:
  assumes "sound_parser pv" "length s < f"
  shows "case parse_elements pv f s of Out_Of_Fuel \<Rightarrow> False | Failed \<Rightarrow> True | Parsed v t \<Rightarrow> length t \<le> length s"
  using assms(2)
proof (induction f arbitrary: s)
  case (Suc f)
  show ?case
  proof (cases "pv (skip_ws s)")
    case (Parsed item t)
    then have t: "length t \<le> length s"
      using assms(1) skip_ws_length[of s] unfolding sound_parser_def
      by (metis (no_types, lifting) order_trans parsed.simps(10))
    show ?thesis
    proof (cases "skip_ws t")
      case (Cons c cs)
      then have "length cs < length s"
        using skip_ws_Cons_length t by fastforce
      then show ?thesis
        using Suc.IH[of cs] Suc.prems Parsed Cons
        by (cases "parse_elements pv f cs") auto
    qed (use Parsed in simp)
  qed (use assms(1) in \<open>auto simp: sound_parser_def split: parsed.splits\<close>)
qed simp

lemma sound_parserD:
  "sound_parser pv \<Longrightarrow> pv s \<noteq> Out_Of_Fuel"
  "sound_parser pv \<Longrightarrow> pv s = Parsed v t \<Longrightarrow> length t \<le> length s"
  unfolding sound_parser_def by (metis parsed.simps(8), metis parsed.simps(10))

lemma parse_members_sound:
  assumes "sound_parser pv" "length s < f"
  shows "case parse_members pv f s of Out_Of_Fuel \<Rightarrow> False | Failed \<Rightarrow> True | Parsed v t \<Rightarrow> length t \<le> length s"
  using assms(2)
proof (induction f arbitrary: s)
  case (Suc f)
  show ?case
  proof (cases "s = []")
    case nonempty: False
    show ?thesis
    proof (cases "parse_string (skip_ws s)")
      case name: (Parsed name t)
      have t: "length t \<le> length s"
        using sound_parserD(2)[OF parse_string_sound name] skip_ws_length[of s] by simp
      show ?thesis
      proof (cases "skip_ws t")
        case colon: (Cons c cs)
        have cs: "length cs < length s"
          using skip_ws_Cons_length[OF colon] t by simp
        show ?thesis
        proof (cases "pv (skip_ws cs)")
          case item: (Parsed item u)
          have u: "length u < length s"
            using sound_parserD(2)[OF assms(1) item] skip_ws_length[of cs] cs by simp
          show ?thesis
          proof (cases "skip_ws u")
            case (Cons d ds)
            then have "length ds < length s"
              using skip_ws_Cons_length u by fastforce
            then show ?thesis
              using Suc.IH[of ds] Suc.prems nonempty name colon item Cons
              by (cases "parse_members pv f ds") auto
          qed (use nonempty name colon item in simp)
        qed (use nonempty name colon sound_parserD(1)[OF assms(1)] in auto)
      qed (use nonempty name in simp)
    qed (use nonempty sound_parserD(1)[OF parse_string_sound] in auto)
  qed simp
qed simp

lemma parse_array_sound: "sound_parser pv \<Longrightarrow> sound_parser (parse_array (Some pv))"
  unfolding sound_parser_def
proof
  fix s :: string
  assume pv: "\<forall>s. case pv s of Out_Of_Fuel \<Rightarrow> False | Failed \<Rightarrow> True | Parsed v t \<Rightarrow> length t \<le> length s"
  show "case parse_array (Some pv) s of Out_Of_Fuel \<Rightarrow> False | Failed \<Rightarrow> True | Parsed v t \<Rightarrow> length t \<le> length s"
  proof (cases s)
    case (Cons c cs)
    show ?thesis
    proof (cases "skip_ws cs")
      case d: (Cons d ds)
      then have "length (d # ds) \<le> length cs"
        using skip_ws_length[of cs] by simp
      then show ?thesis
        using parse_elements_sound[of pv "d # ds" "length s + 1"] pv Cons d
        by (cases "parse_elements pv (length s + 1) (d # ds)")
           (auto simp: parse_array_def sound_parser_def simp del: parse_elements.simps)
    qed (use Cons in \<open>simp add: parse_array_def\<close>)
  qed (simp add: parse_array_def)
qed

lemma parse_object_sound: "sound_parser pv \<Longrightarrow> sound_parser (parse_object (Some pv))"
  unfolding sound_parser_def
proof
  fix s :: string
  assume pv: "\<forall>s. case pv s of Out_Of_Fuel \<Rightarrow> False | Failed \<Rightarrow> True | Parsed v t \<Rightarrow> length t \<le> length s"
  show "case parse_object (Some pv) s of Out_Of_Fuel \<Rightarrow> False | Failed \<Rightarrow> True | Parsed v t \<Rightarrow> length t \<le> length s"
  proof (cases s)
    case (Cons c cs)
    show ?thesis
    proof (cases "skip_ws cs")
      case d: (Cons d ds)
      then have "length (d # ds) \<le> length cs"
        using skip_ws_length[of cs] by simp
      then show ?thesis
        using parse_members_sound[of pv "d # ds" "length s + 1"] pv Cons d
        by (cases "parse_members pv (length s + 1) (d # ds)")
           (auto simp: parse_object_def sound_parser_def simp del: parse_members.simps)
    qed (use Cons in \<open>simp add: parse_object_def\<close>)
  qed (simp add: parse_object_def)
qed

lemma parse_value_with_sound:
  assumes "case nested of None \<Rightarrow> True | Some pv \<Rightarrow> sound_parser pv"
  shows "sound_parser (parse_value_with ops nested)"
proof -
  have "sound_parser (parse_array nested) \<and> sound_parser (parse_object nested)"
  proof (cases nested)
    case None
    then show ?thesis by (simp add: sound_parser_def parse_array_def parse_object_def)
  next
    case (Some pv)
    then show ?thesis using assms parse_array_sound[of pv] parse_object_sound[of pv] by simp
  qed
  then have array: "sound_parser (parse_array nested)" and object: "sound_parser (parse_object nested)"
    by simp_all
  have string: "case parsed_bind (parse_string s) (\<lambda>v t. Parsed (cJSON_String v) t) of
      Out_Of_Fuel \<Rightarrow> False | Failed \<Rightarrow> True | Parsed v t \<Rightarrow> length t \<le> length s" for s
    using parse_string_sound unfolding sound_parser_def
    by (cases "parse_string s") (auto dest: spec[of _ s])
  show ?thesis
    using array object parse_number_sound[of ops] string
    by (auto simp: sound_parser_def parse_value_with_def split: list.splits)
qed

lemma parse_value_sound: "sound_parser (parse_value ops room)"
  by (induction room) (auto intro!: parse_value_with_sound)

section \<open>Nesting\<close>

fun json_depth :: "'d cjson \<Rightarrow> nat" where
  "json_depth (cJSON_Array xs) = Suc (foldr (\<lambda>x m. max (json_depth x) m) xs 0)"
| "json_depth (cJSON_Object xs) = Suc (foldr (\<lambda>x m. max (json_depth (snd x)) m) xs 0)"
| "json_depth v = 0"

lemma foldr_max_le: "foldr (\<lambda>x m. max (f x) m) xs (0::nat) \<le> n \<longleftrightarrow> (\<forall>x \<in> set xs. f x \<le> n)"
  by (induction xs) auto

lemma parsed_bind_Parsed: "parsed_bind m f = Parsed v t \<longleftrightarrow> (\<exists>x s. m = Parsed x s \<and> f x s = Parsed v t)"
  by (cases m) auto

lemma parse_elements_step:
  assumes "parse_elements pv (Suc f) s = Parsed vs t"
  obtains item u us where "pv (skip_ws s) = Parsed item u" "vs = item # us"
    "us = [] \<or> (\<exists>cs. parse_elements pv f cs = Parsed us t)"
proof -
  obtain item u where u: "pv (skip_ws s) = Parsed item u"
    using assms by (auto simp: parsed_bind_Parsed)
  then obtain c cs where "skip_ws u = c # cs"
    using assms by (cases "skip_ws u") auto
  then show thesis
    using assms u that by (auto simp: parsed_bind_Parsed split: if_splits)
qed

lemma parse_members_step:
  assumes "parse_members pv (Suc f) s = Parsed vs t"
  obtains name item z u us where "pv z = Parsed item u" "vs = (name, item) # us"
    "us = [] \<or> (\<exists>cs. parse_members pv f cs = Parsed us t)"
proof -
  obtain name w where name: "parse_string (skip_ws s) = Parsed name w" "s \<noteq> []"
    using assms by (auto simp: parsed_bind_Parsed split: if_splits)
  obtain c cs where w: "skip_ws w = c # cs" "c = CHR '':''"
    using assms name by (cases "skip_ws w") (auto split: if_splits)
  obtain item u where u: "pv (skip_ws cs) = Parsed item u"
    using assms name w by (auto simp: parsed_bind_Parsed)
  obtain d ds where "skip_ws u = d # ds"
    using assms name w u by (cases "skip_ws u") auto
  then have "\<exists>us. vs = (name, item) # us \<and> (us = [] \<or> (\<exists>cs. parse_members pv f cs = Parsed us t))"
    using assms name w u by (auto simp: parsed_bind_Parsed split: if_splits)
  then show thesis using that[OF u] by blast
qed

lemma parse_elements_depth:
  assumes "\<And>s v t. pv s = Parsed v t \<Longrightarrow> json_depth v \<le> n"
  shows "parse_elements pv f s = Parsed vs t \<Longrightarrow> \<forall>v \<in> set vs. json_depth v \<le> n"
proof (induction f arbitrary: s vs t)
  case (Suc f)
  from Suc.prems show ?case
    by (rule parse_elements_step) (use assms Suc.IH in auto)
qed simp

lemma parse_members_depth:
  assumes "\<And>s v t. pv s = Parsed v t \<Longrightarrow> json_depth v \<le> n"
  shows "parse_members pv f s = Parsed vs t \<Longrightarrow> \<forall>x \<in> set vs. json_depth (snd x) \<le> n"
proof (induction f arbitrary: s vs t)
  case (Suc f)
  from Suc.prems show ?case
    by (rule parse_members_step) (use assms Suc.IH in \<open>fastforce\<close>)
qed simp

lemma parse_array_cases:
  assumes "parse_array (Some pv) s = Parsed v t"
  obtains "v = cJSON_Array []" | f u vs where "v = cJSON_Array vs" "parse_elements pv f u = Parsed vs t"
proof -
  obtain c cs d ds where s: "s = c # cs" "skip_ws cs = d # ds"
    using assms by (cases s; cases "skip_ws (tl s)") (auto simp: parse_array_def split: if_splits)
  show thesis
    using assms that by (auto simp: parse_array_def s parsed_bind_Parsed simp del: parse_elements.simps split: if_splits)
qed

lemma parse_object_cases:
  assumes "parse_object (Some pv) s = Parsed v t"
  obtains "v = cJSON_Object []" | f u vs where "v = cJSON_Object vs" "parse_members pv f u = Parsed vs t"
proof -
  obtain c cs d ds where s: "s = c # cs" "skip_ws cs = d # ds"
    using assms by (cases s; cases "skip_ws (tl s)") (auto simp: parse_object_def split: if_splits)
  show thesis
    using assms that by (auto simp: parse_object_def s parsed_bind_Parsed simp del: parse_members.simps split: if_splits)
qed

lemma parse_array_depth:
  assumes "\<And>s v t. pv s = Parsed v t \<Longrightarrow> json_depth v \<le> n" "parse_array (Some pv) s = Parsed v t"
  shows "json_depth v \<le> Suc n"
  using assms(2)
proof (cases rule: parse_array_cases)
  case (2 f u vs)
  then show ?thesis using parse_elements_depth[OF assms(1) 2(2)] by (simp add: foldr_max_le)
qed simp

lemma parse_object_depth:
  assumes "\<And>s v t. pv s = Parsed v t \<Longrightarrow> json_depth v \<le> n" "parse_object (Some pv) s = Parsed v t"
  shows "json_depth v \<le> Suc n"
  using assms(2)
proof (cases rule: parse_object_cases)
  case (2 f u vs)
  then show ?thesis using parse_members_depth[OF assms(1) 2(2)] by (auto simp: foldr_max_le)
qed simp

lemma parse_value_with_cases:
  assumes "parse_value_with ops nested s = Parsed v t"
  obtains "json_depth v = 0" | "parse_array nested s = Parsed v t" | "parse_object nested s = Parsed v t"
proof -
  have num: "parse_number ops s = Parsed v t \<Longrightarrow> json_depth v = 0"
    by (auto simp: parse_number_def split: prod.splits if_splits)
  show thesis
    using assms that num
    by (auto simp: parse_value_with_def parsed_bind_Parsed simp del: has_prefix.simps
        split: if_splits list.splits)
qed

lemma parse_value_depth: "parse_value ops room s = Parsed v t \<Longrightarrow> json_depth v \<le> room"
proof (induction room arbitrary: s v t)
  case 0
  then have "parse_value_with ops None s = Parsed v t" by simp
  then show ?case
    by (rule parse_value_with_cases) (simp_all add: parse_array_def parse_object_def)
next
  case (Suc room)
  then have "parse_value_with ops (Some (parse_value ops room)) s = Parsed v t" by simp
  then show ?case
  proof (rule parse_value_with_cases)
    show "parse_array (Some (parse_value ops room)) s = Parsed v t \<Longrightarrow> json_depth v \<le> Suc room"
      using parse_array_depth[OF Suc.IH] .
    show "parse_object (Some (parse_value ops room)) s = Parsed v t \<Longrightarrow> json_depth v \<le> Suc room"
      using parse_object_depth[OF Suc.IH] .
  qed simp
qed

section \<open>Properties\<close>

text \<open>
  C25: The JSON parser answers for every text: at every nesting depth it either fails or returns a
  value and a rest no longer than what it was given; its loops never run out of turns.
\<close>

theorem json_parser_total:
  "parse_value ops room s = Failed
    \<or> (\<exists>v t. parse_value ops room s = Parsed v t \<and> length t \<le> length s)"
  using sound_parserD[OF parse_value_sound, of ops room s]
  by (cases "parse_value ops room s") auto

text \<open>
  No parsed value nests deeper than \<open>CJSON_NESTING_LIMIT\<close>, so the recursion of whoever walks
  the tree afterwards is bounded by 1000 whatever the remote text says.
\<close>

lemma json_depth_bounded:
  assumes "cJSON_ParseWithOpts ops t = Some v"
  shows "json_depth v \<le> CJSON_NESTING_LIMIT"
  using assms parse_value_depth[of ops CJSON_NESTING_LIMIT]
  by (auto simp: cJSON_ParseWithOpts_def split: parsed.splits)

text \<open>Numbers read as the sum of their digits, for the witnesses only.\<close>

definition sample_numbers :: "int number_ops" where
  "sample_numbers = \<lparr>nm_strtod = (\<lambda>s. (foldl (\<lambda>n c. 10 * n + int (byte c) - 48) 0 s, length s)),
     nm_ge_int_max = (\<lambda>d. d \<ge> INT_MAX), nm_le_int_min = (\<lambda>d. d \<le> INT_MIN), nm_trunc = id,
     nm_integral = (\<lambda>d. True), nm_format3 = (\<lambda>d. ''0.000'')\<rparr>"

end
