(* ===== verification/Json_Dump.thy ===== *)
theory Json_Dump
  imports Variables Cjson
begin

text \<open>
  The two JSON ends of the module put together: what \<open>dump_variables\<close> writes, the parser of
  \<open>cJSON.c\<close> reads back.
\<close>

definition ascii :: "string \<Rightarrow> bool" where
  "ascii v \<longleftrightarrow> (\<forall>c \<in> set v. 0 < byte c \<and> byte c < 128)"

lemma ascii_Cons [simp]: "ascii (c # v) \<longleftrightarrow> 0 < byte c \<and> byte c < 128 \<and> ascii v"
  by (auto simp: ascii_def)

lemma ascii_Nil [simp]: "ascii []"
  by (simp add: ascii_def)

lemma ascii_c_string: "ascii v \<Longrightarrow> c_string v = v"
  by (rule c_string_id) (auto simp: ascii_def)

text \<open>The escapes of the 128 ASCII bytes, one by one.\<close>

definition escape_ok :: "nat \<Rightarrow> bool" where
  "escape_ok k =
     (case dump_escape (char_of k) of
        [c] \<Rightarrow> c = char_of k \<and> c \<noteq> CHR 0x5C \<and> c \<noteq> CHR 0x22
      | [b, e] \<Rightarrow> b = CHR 0x5C \<and> e \<noteq> CHR ''u'' \<and> simple_escape e = Some (char_of k)
      | [b, u, z1, z2, h, l] \<Rightarrow> b = CHR 0x5C \<and> u = CHR ''u'' \<and> h \<notin> {CHR 0x22, CHR 0x5C}
          \<and> l \<notin> {CHR 0x22, CHR 0x5C} \<and> z1 = CHR ''0'' \<and> z2 = CHR ''0''
          \<and> parse_hex4 [z1, z2, h, l] = word_of_nat k
          \<and> encode_utf8 (word_of_nat k) = Some [char_of k]
      | _ \<Rightarrow> False)"

lemma escape_ok_special: "list_all escape_ok ([1..<32] @ [34, 92, 127])"
  by code_simp

lemma escape_ok_ascii:
  assumes "0 < byte c" "byte c < 128"
  shows "escape_ok (byte c)"
proof (cases "31 < byte c \<and> byte c < 127 \<and> c \<noteq> CHR 0x22 \<and> c \<noteq> CHR 0x5C")
  case True
  then show ?thesis by (simp add: escape_ok_def dump_escape_def)
next
  case False
  have "byte c \<in> set ([1..<32] @ [34, 92, 127])"
  proof (cases "c = CHR 0x22 \<or> c = CHR 0x5C")
    case True
    then show ?thesis by auto
  next
    case other: False
    then show ?thesis using False assms by auto
  qed
  then show ?thesis
    using escape_ok_special unfolding list_all_iff by blast
qed

lemma escape_cases:
  assumes "0 < byte c" "byte c < 128"
  obtains (plain) "dump_escape c = [c]" "c \<noteq> CHR 0x5C" "c \<noteq> CHR 0x22"
    | (short) e where "dump_escape c = [CHR 0x5C, e]" "e \<noteq> CHR ''u''" "simple_escape e = Some c"
    | (unicode) h l where "dump_escape c = [CHR 0x5C, CHR ''u'', CHR ''0'', CHR ''0'', h, l]"
        "h \<notin> {CHR 0x22, CHR 0x5C}" "l \<notin> {CHR 0x22, CHR 0x5C}"
        "parse_hex4 [CHR ''0'', CHR ''0'', h, l] = word_of_nat (byte c)"
        "encode_utf8 (word_of_nat (byte c)) = Some [c]"
proof -
  have ok: "escape_ok (byte c)"
    by (rule escape_ok_ascii[OF assms])
  have c: "char_of (byte c) = c" by simp
  show thesis
    using ok plain short unicode unfolding escape_ok_def c
    by (auto split: list.splits)
qed

lemma string_end_plain:
  assumes "ascii v"
  shows "string_end (concat (map dump_escape v) @ CHR 0x22 # t) = Some (length (concat (map dump_escape v)))"
  using assms
proof (induction v)
  case (Cons c v)
  then have "0 < byte c" "byte c < 128" by simp_all
  then show ?case
    by (cases rule: escape_cases) (use Cons in \<open>auto simp: simple_escape_def\<close>)
qed simp

lemma hex_from_append: "i \<le> length xs \<Longrightarrow> hex_from i h (xs @ t) = hex_from i h xs"
proof (induction i arbitrary: h xs)
  case (Suc i)
  then show ?case by (cases xs) (auto simp: Let_def split: option.splits simp del: hex_digit.simps)
qed simp

lemma utf16_ascii:
  assumes "parse_hex4 [CHR ''0'', CHR ''0'', h, l] = word_of_nat k" "k < 128" "n \<ge> 6"
    and "encode_utf8 (word_of_nat k) = Some out"
  shows "utf16_literal_to_utf8 n (CHR 0x5C # CHR ''u'' # CHR ''0'' # CHR ''0'' # h # l # t) = Some (out, 6)"
proof -
  have "parse_hex4 (CHR ''0'' # CHR ''0'' # h # l # t) = word_of_nat k"
    using assms(1) hex_from_append[of 4 "[CHR ''0'', CHR ''0'', h, l]" 0 t]
    by (simp add: parse_hex4_def)
  then have first: "parse_hex4 (drop 2 (CHR 0x5C # CHR ''u'' # CHR ''0'' # CHR ''0'' # h # l # t)) = word_of_nat k"
    by simp
  have k: "unat (word_of_nat k :: 32 word) = k"
    using assms(2) by (simp add: unat_of_nat)
  have low: "\<not> (0xDC00 :: 32 word) \<le> word_of_nat k" "\<not> (0xD800 :: 32 word) \<le> word_of_nat k"
    using assms(2) unfolding word_le_nat_alt k by simp_all
  have wide: "ucast (word_of_nat k :: 32 word) = (word_of_nat k :: 64 word)"
    using k by (metis of_nat_unat)
  show ?thesis
    unfolding utf16_literal_to_utf8_def Let_def first wide
    using assms(3,4) low by simp
qed

lemma unescape_plain:
  assumes "ascii v"
  shows "unescape (int (length (concat (map dump_escape v)))) (concat (map dump_escape v) @ CHR 0x22 # t) = Some v"
  using assms
proof (induction v)
  case Nil
  then show ?case by (simp add: unescape.simps)
next
  case (Cons c v)
  let ?rest = "concat (map dump_escape v) @ CHR 0x22 # t"
  have IH: "unescape (int (length (concat (map dump_escape v)))) ?rest = Some v"
    using Cons by simp
  have c: "0 < byte c" "byte c < 128"
    using Cons.prems by simp_all
  from c show ?case
  proof (cases rule: escape_cases)
    case plain
    then show ?thesis using IH by (subst unescape.simps) simp
  next
    case (short e)
    then show ?thesis using IH by (subst unescape.simps) simp
  next
    case (unicode h l)
    let ?n = "int (length (concat (map dump_escape (c # v))))"
    have "utf16_literal_to_utf8 ?n (CHR 0x5C # CHR ''u'' # CHR ''0'' # CHR ''0'' # h # l # ?rest) = Some ([c], 6)"
      by (rule utf16_ascii[OF unicode(4) c(2) _ unicode(5)]) (simp add: unicode(1))
    then show ?thesis using IH unicode by (subst unescape.simps) simp
  qed
qed

lemma parse_string_json:
  assumes "ascii v"
  shows "parse_string (json_string v @ t) = Parsed v t"
  using string_end_plain[OF assms, of t] unescape_plain[OF assms, of t] ascii_c_string[OF assms]
  by (simp add: parse_string_def json_string_def)

text \<open>Parsing an object of strings; \<open>nested\<close> does not matter, strings do not nest.\<close>

lemma has_prefix_hd: "p \<noteq> [] \<Longrightarrow> hd p \<noteq> c \<Longrightarrow> \<not> has_prefix (c # s) p"
  by (cases p) auto

lemma parse_value_string:
  assumes "ascii v"
  shows "parse_value ops room (json_string v @ t) = Parsed (cJSON_String v) t"
proof -
  have "parse_value_with ops nested (json_string v @ t) = Parsed (cJSON_String v) t" for nested
    using parse_string_json[OF assms, of t]
    by (simp add: parse_value_with_def json_string_def has_prefix_hd)
  then show ?thesis by (cases room) simp_all
qed

lemma skip_ws_id: "32 < byte c \<Longrightarrow> skip_ws (c # s) = c # s"
  by (simp add: skip_ws_def)

lemma skip_ws_json_string: "skip_ws (json_string v @ t) = json_string v @ t"
  by (simp add: json_string_def skip_ws_id)

lemma skip_ws_punct: "c \<in> {CHR '','', CHR '':'', CHR ''{'', CHR ''}''} \<Longrightarrow> skip_ws (c # s) = c # s"
  by (auto intro: skip_ws_id)

definition json_pairs :: "variable list \<Rightarrow> (string \<times> 'd cjson) list" where
  "json_pairs vs = map (\<lambda>v. (var_name v, cJSON_String (var_value v))) vs"

lemma json_member_ne: "json_member v @ t \<noteq> []"
  by (simp add: json_member_def json_string_def)

lemma parse_members_json:
  assumes "vs \<noteq> []" "\<forall>v \<in> set vs. ascii (var_name v) \<and> ascii (var_value v)" "length vs \<le> f"
  shows "parse_members (parse_value ops room) f (json_members vs @ CHR ''}'' # t) = Parsed (json_pairs vs) t"
  using assms
proof (induction vs arbitrary: f rule: json_members.induct)
  case (2 v)
  then obtain f' where "f = Suc f'" by (cases f) auto
  then show ?case
    using 2 json_member_ne[of v]
    by (simp add: json_member_def skip_ws_json_string parse_string_json skip_ws_punct
        parse_value_string json_pairs_def)
next
  case (3 v w vs)
  then obtain f' where f: "f = Suc f'" by (cases f) auto
  have "parse_members (parse_value ops room) f' (json_members (w # vs) @ CHR ''}'' # t)
      = Parsed (json_pairs (w # vs)) t"
    using 3 f by auto
  then show ?case
    using 3 f json_member_ne[of v]
    by (simp add: json_member_def skip_ws_json_string parse_string_json skip_ws_punct
        parse_value_string json_pairs_def)
qed simp

lemma json_members_length: "length vs \<le> length (json_members vs)"
  by (induction vs rule: json_members.induct) (auto simp: json_member_def json_string_def)

lemma json_members_hd: "vs \<noteq> [] \<Longrightarrow> \<exists>s. json_members vs = CHR 0x22 # s"
  by (cases vs rule: json_members.cases) (auto simp: json_member_def json_string_def)

lemma parse_json_object:
  assumes "\<forall>v \<in> set vs. ascii (var_name v) \<and> ascii (var_value v)"
  shows "cJSON_ParseWithOpts ops (json_object vs) = Some (cJSON_Object (json_pairs vs))"
proof -
  let ?b = "json_members vs @ CHR ''}'' # [NUL]"
  have start: "skip_ws (skip_utf8_bom (json_object vs @ [NUL])) = CHR ''{'' # ?b"
    by (simp add: json_object_def skip_utf8_bom_def skip_ws_punct)
  have room: "parse_value ops CJSON_NESTING_LIMIT
      = parse_value_with ops (Some (parse_value ops 999))"
    by (simp add: CJSON_NESTING_LIMIT_def numeral_eq_Suc)
  have object: "parse_object (Some (parse_value ops 999)) (CHR ''{'' # ?b)
      = Parsed (cJSON_Object (json_pairs vs)) [NUL]"
  proof (cases "vs = []")
    case True
    then show ?thesis
      by (simp add: parse_object_def skip_ws_punct json_pairs_def)
  next
    case False
    obtain s where s: "json_members vs = CHR 0x22 # s"
      using json_members_hd[OF False] by blast
    have "parse_members (parse_value ops 999) (length (CHR ''{'' # ?b) + 1) ?b = Parsed (json_pairs vs) [NUL]"
      using json_members_length[of vs] by (intro parse_members_json[OF False assms]) simp
    then show ?thesis
      by (simp add: parse_object_def s skip_ws_id del: parse_members.simps)
  qed
  show ?thesis
    unfolding cJSON_ParseWithOpts_def start room
    by (simp add: parse_value_with_def has_prefix_hd object del: parse_value.simps)
qed

section \<open>Property\<close>

text \<open>
  C17: Round trip. Whatever \<open>dump_variables\<close> returns in the workspace for variables with ASCII
  names and values (control characters, quotes and backslashes included), the JSON parser reads
  back as an object with exactly the selected variables, in name order. (A byte above 127 is
  dumped as a code point of its own, so UTF-8 text does not come back.)
\<close>

theorem dump_parses_back:
  assumes "dump_variables ops ctx vs stream prefix = Inr (ctx', Some js)" "js \<noteq> []"
    and "\<forall>v \<in> set (inorder vs). ascii (var_name v) \<and> ascii (var_value v)"
  shows "cJSON_ParseWithOpts nops js = Some (cJSON_Object
    (map (\<lambda>v. (var_name v, cJSON_String (var_value v)))
      (filter (dump_selected prefix) (inorder vs))))"
proof -
  have "js = json_object (filter (dump_selected prefix) (inorder vs))"
  proof (cases "stream \<and> streams_to_body ctx")
    case True
    then have "ws_reserve_all ops (ctx_ws ctx) > 0 \<Longrightarrow> js = []"
      using assms(1) dump_streaming[of stream ctx ops vs prefix] by simp
    then show ?thesis
      using assms(1,2) by (cases "ws_reserve_all ops (ctx_ws ctx)") (auto simp: dump_variables_def)
  next
    case False
    have "ws_reserve_all ops (ctx_ws ctx) > 0"
      using assms(1) by (cases "ws_reserve_all ops (ctx_ws ctx)") (auto simp: dump_variables_def)
    then show ?thesis
      using assms(1) dump_to_workspace[of stream ctx ops _ prefix vs, OF False _ refl] by (auto split: if_splits)
  qed
  then show ?thesis
    using assms(3) parse_json_object[of "filter (dump_selected prefix) (inorder vs)" nops]
    by (simp add: json_pairs_def)
qed

theorem dump_parses_back_witness:
  "cJSON_ParseWithOpts sample_numbers
     (CHR ''{'' # CHR 0x22 # CHR ''b'' # CHR 0x22 # CHR '':'' # CHR 0x22 # CHR ''2'' # CHR 0x22 # ''}'')
   = Some (cJSON_Object [(''b'', cJSON_String ''2'')])"
proof -
  let ?ctx = "\<lparr>ctx_ws = 50, ctx_method = MET_OTHER, ctx_vsb = [], ctx_fails = [], ctx_http = ()\<rparr>"
  let ?js = "CHR ''{'' # CHR 0x22 # CHR ''b'' # CHR 0x22 # CHR '':'' # CHR 0x22 # CHR ''2'' # CHR 0x22 # ''}''"
  have sel: "filter (dump_selected (Some ''b'')) (inorder sample_variables) = [\<lparr>var_name = ''b'', var_value = ''2''\<rparr>]"
    unfolding sample_variables_eval by (simp add: dump_selected_def)
  have dump: "dump_variables counting_ws ?ctx sample_variables False (Some ''b'')
      = Inr (?ctx\<lparr>ctx_ws := 40\<rparr>, Some ?js)"
    using dump_to_workspace[of False ?ctx counting_ws ?js "Some ''b''" sample_variables]
    by (simp add: sel counting_ws_def json_object_def json_member_def json_string_def dump_escape_def)
  have asc: "\<forall>v \<in> set (inorder sample_variables). ascii (var_name v) \<and> ascii (var_value v)"
    unfolding sample_variables_eval by simp
  show ?thesis
    using dump_parses_back[OF dump _ asc, of sample_numbers] sel by simp
qed

end
