(* ===== verification/File.thy ===== *)
theory File
  imports Variables Remote Ini Cjson
begin

text \<open>
  \<open>vmod_cfg_file.c\<close>: the object \<open>cfg.file\<close>, variables loaded from a remote INI or JSON text. Both
  parsers build a new tree of variables; the callback swaps it in and flushes the old one, so
  a text that is rejected leaves the object as it was. The read-write lock only orders the swap.
\<close>

datatype file_format = Format_Ini | Format_Json

record cfg_file =
  file_name :: string
  file_remote :: remote
  file_name_delimiter :: string
  file_value_delimiter :: string
  file_parse :: file_format
  file_variables :: variables

section \<open>INI\<close>

definition file_parse_ini_handler :: "cfg_file \<Rightarrow> variables ini_handler" where
  "file_parse_ini_handler file vs sec name val =
     (let flatten = length sec > 0;
          buffer = (if flatten then sec else []) @ (if flatten then file_name_delimiter file else []) @ name
      in must (length buffer > 0)
        (res_bind
          (case find_variable vs buffer of
             None \<Rightarrow> insert_variable (new_global_variable buffer (length buffer) val) vs
           | Some v \<Rightarrow> Inr (assign_variable buffer
               ((if length (var_value v) > 0 then var_value v @ file_value_delimiter file else var_value v) @ val) vs))
          (\<lambda>vs'. Inr (vs', True))))"

text \<open>\<open>.left = strlen(contents)\<close>: an \<open>int\<close>, so longer texts than 2 GiB wrap around.\<close>

definition ini_left :: "string \<Rightarrow> int" where
  "ini_left t = sint (word_of_nat (length t) :: 32 word)"

definition file_parse_ini :: "cfg_file \<Rightarrow> string \<Rightarrow> variables option res" where
  "file_parse_ini file t =
     res_bind (ini_parse_stream \<lparr>st_ptr = t, st_left = ini_left t\<rparr> (file_parse_ini_handler file) Leaf)
       (\<lambda>(vs, rc).
         if rc = 0 then Inr (Some vs)
         else res_bind (flush_global_variables vs) (\<lambda>_. Inr None))"

section \<open>JSON\<close>

text \<open>\<open>"%d"\<close>.\<close>

fun decimal_nat :: "nat \<Rightarrow> string" where
  "decimal_nat n =
     (if n < 10 then [char_of (48 + n)] else decimal_nat (n div 10) @ [char_of (48 + n mod 10)])"

declare decimal_nat.simps [simp del]

definition decimal :: "int \<Rightarrow> string" where
  "decimal i = (if i < 0 then CHR ''-'' # decimal_nat (nat (- i)) else decimal_nat (nat i))"

fun json_value :: "'d number_ops \<Rightarrow> 'd cjson \<Rightarrow> string option" where
  "json_value nops cJSON_False = Some ''false''"
| "json_value nops cJSON_True = Some ''true''"
| "json_value nops (cJSON_Number d i) =
     Some (if nm_integral nops d then decimal i else nm_format3 nops d)"
| "json_value nops (cJSON_Raw s) = Some s"
| "json_value nops (cJSON_String s) = Some s"
| "json_value nops item = None"

fun is_number :: "'d cjson \<Rightarrow> bool" where
  "is_number (cJSON_Number d i) = True"
| "is_number item = False"

definition file_parse_json_emit ::
  "'d number_ops \<Rightarrow> string \<Rightarrow> string \<Rightarrow> 'd cjson \<Rightarrow> variables \<Rightarrow> variables res" where
  "file_parse_json_emit nops prefix key item vs =
     (case json_value nops item of
        None \<Rightarrow> Inr vs
      | Some val \<Rightarrow>
          must (is_number item \<longrightarrow> length val > 0)
            (let name = prefix @ key
             in must (length name > 0)
               (insert_variable (new_global_variable name (length name) val) vs)))"

fun is_object :: "'d cjson \<Rightarrow> bool" where
  "is_object (cJSON_Object items) = True"
| "is_object item = False"

fun file_parse_json_walk ::
  "'d number_ops \<Rightarrow> string \<Rightarrow> 'd cjson \<Rightarrow> string \<Rightarrow> variables \<Rightarrow> variables res" where
  "file_parse_json_walk nops delim (cJSON_Object items) prefix vs =
     res_fold (\<lambda>(key, item) vs.
       if is_object item then file_parse_json_walk nops delim item (prefix @ key @ delim) vs
       else file_parse_json_emit nops prefix key item vs) items vs"
| "file_parse_json_walk nops delim item prefix vs = Inl Assert_Failed"

definition file_parse_json :: "'d number_ops \<Rightarrow> cfg_file \<Rightarrow> string \<Rightarrow> variables option res" where
  "file_parse_json nops file t =
     (case cJSON_ParseWithOpts nops t of
        None \<Rightarrow> Inr None
      | Some root \<Rightarrow>
          if is_object root
          then res_bind (file_parse_json_walk nops (file_name_delimiter file) root [] Leaf) (\<lambda>vs. Inr (Some vs))
          else Inr None)"

section \<open>The object\<close>

definition file_parse_contents :: "'d number_ops \<Rightarrow> cfg_file \<Rightarrow> string \<Rightarrow> variables option res" where
  "file_parse_contents nops file t =
     (case file_parse file of Format_Ini \<Rightarrow> file_parse_ini file t | Format_Json \<Rightarrow> file_parse_json nops file t)"

text \<open>The state the callback changes is \<open>state.variables\<close>; the parsers do not write the buffer.\<close>

definition file_check_callback :: "'d number_ops \<Rightarrow> cfg_file \<Rightarrow> variables remote_callback" where
  "file_check_callback nops file vs t is_backup =
     res_bind (file_parse_contents nops file t) (\<lambda>r. case r of
         None \<Rightarrow> Inr (False, t, vs)
       | Some vs' \<Rightarrow> res_bind (flush_global_variables vs) (\<lambda>_. Inr (True, t, vs')))"

definition file_check ::
  "'d number_ops \<Rightarrow> os \<Rightarrow> int \<Rightarrow> int \<Rightarrow> cfg_file \<Rightarrow> bool \<Rightarrow> bool \<Rightarrow> (bool \<times> cfg_file \<times> os) res" where
  "file_check nops os now later file force_load force_backup =
     res_bind (check_remote os force_load force_backup (file_check_callback nops file) now later
         (file_remote file) (file_variables file))
       (\<lambda>(result, r, os', vs). Inr (result, file\<lparr>file_remote := r, file_variables := vs\<rparr>, os'))"

definition vmod_file__fini :: "cfg_file option \<Rightarrow> cfg_file option res" where
  "vmod_file__fini slot =
     (case slot of
        None \<Rightarrow> Inl Assert_Failed
      | Some file \<Rightarrow> res_bind (flush_global_variables (file_variables file)) (\<lambda>_. Inr None))"

definition vmod_file__init ::
  "'d number_ops \<Rightarrow> os \<Rightarrow> int \<Rightarrow> int \<Rightarrow> ('w, 'h) vrt_ctx \<Rightarrow> cfg_file option \<Rightarrow> string \<Rightarrow> remote_args
    \<Rightarrow> file_format \<Rightarrow> string option \<Rightarrow> string option \<Rightarrow> (cfg_file option \<times> ('w, 'h) vrt_ctx \<times> os) res" where
  "vmod_file__init nops os now later ctx slot vcl_name args format name_delim value_delim =
     must (slot = None)
       (case (location_given args \<and> numbers_ok args, name_delim, value_delim) of
          (True, Some nd, Some vd) \<Rightarrow>
            (let file = \<lparr>file_name = vcl_name, file_remote = new_remote_from args,
                   file_name_delimiter = nd, file_value_delimiter = vd, file_parse = format,
                   file_variables = Leaf\<rparr>
             in res_bind (file_check nops os now later file True False) (\<lambda>(loaded, file', os').
                  if \<not> loaded \<and> \<not> ra_ignore_load_failures args
                  then res_bind (vmod_file__fini (Some file')) (\<lambda>_. Inr (None, vrt_fail Instance_Failed ctx, os'))
                  else Inr (Some file', ctx, os')))
        | _ \<Rightarrow> Inr (None, vrt_fail Instance_Failed ctx, os))"

definition vmod_file_reload ::
  "'d number_ops \<Rightarrow> os \<Rightarrow> int \<Rightarrow> int \<Rightarrow> cfg_file \<Rightarrow> bool \<Rightarrow> (bool \<times> cfg_file \<times> os) res" where
  "vmod_file_reload nops os now later file force_backup = file_check nops os now later file True force_backup"

definition vmod_file_dump ::
  "'d number_ops \<Rightarrow> 'w ws_ops \<Rightarrow> os \<Rightarrow> int \<Rightarrow> int \<Rightarrow> ('w, 'h) vrt_ctx \<Rightarrow> cfg_file \<Rightarrow> bool \<Rightarrow> string option
    \<Rightarrow> (string option \<times> ('w, 'h) vrt_ctx \<times> cfg_file \<times> os) res" where
  "vmod_file_dump nops ops os now later ctx file stream prefix =
     res_bind (file_check nops os now later file False False) (\<lambda>(_, file', os').
     res_bind (dump_variables ops ctx (file_variables file') stream prefix) (\<lambda>(ctx', result).
       Inr (result, ctx', file', os')))"

definition vmod_file_inspect ::
  "'d number_ops \<Rightarrow> os \<Rightarrow> int \<Rightarrow> int \<Rightarrow> ('w, 'h) vrt_ctx \<Rightarrow> cfg_file \<Rightarrow> (('w, 'h) vrt_ctx \<times> cfg_file \<times> os) res" where
  "vmod_file_inspect nops os now later ctx file =
     res_bind (file_check nops os now later file False False) (\<lambda>(_, file', os').
       Inr (inspect_remote ctx (file_remote file'), file', os'))"

definition vmod_file_is_set ::
  "'d number_ops \<Rightarrow> os \<Rightarrow> int \<Rightarrow> int \<Rightarrow> cfg_file \<Rightarrow> string option \<Rightarrow> (bool \<times> cfg_file \<times> os) res" where
  "vmod_file_is_set nops os now later file name =
     res_bind (file_check nops os now later file False False) (\<lambda>(_, file', os').
       Inr (is_set_variable (file_variables file') name, file', os'))"

definition vmod_file_get ::
  "'d number_ops \<Rightarrow> 'w ws_ops \<Rightarrow> os \<Rightarrow> int \<Rightarrow> int \<Rightarrow> ('w, 'h) vrt_ctx \<Rightarrow> cfg_file \<Rightarrow> string option
    \<Rightarrow> string option \<Rightarrow> (string option \<times> ('w, 'h) vrt_ctx \<times> cfg_file \<times> os) res" where
  "vmod_file_get nops ops os now later ctx file name fallback =
     res_bind (file_check nops os now later file False False) (\<lambda>(_, file', os').
       case get_variable ops ctx (file_variables file') name fallback of
         (ctx', result) \<Rightarrow> Inr (result, ctx', file', os'))"

section \<open>What a text stands for\<close>

text \<open>
  INI: the binding a call makes. A repeated name (also a value over several lines) joins its
  values with the delimiter; an empty value so far takes no delimiter.
\<close>

definition ini_key :: "cfg_file \<Rightarrow> string \<Rightarrow> string \<Rightarrow> string" where
  "ini_key file s n = (if s = [] then n else s @ file_name_delimiter file @ n)"

definition ini_bind ::
  "cfg_file \<Rightarrow> (string \<Rightarrow> string option) \<Rightarrow> string \<times> string \<times> string \<Rightarrow> (string \<Rightarrow> string option)" where
  "ini_bind file m c =
     (case c of (s, n, v) \<Rightarrow>
        m(ini_key file s n \<mapsto> (case m (ini_key file s n) of
            None \<Rightarrow> v
          | Some old \<Rightarrow> (if old = [] then v else old @ file_value_delimiter file @ v))))"

definition ini_store :: "cfg_file \<Rightarrow> variables \<Rightarrow> string \<times> string \<times> string \<Rightarrow> variables res" where
  "ini_store file vs c =
     (case c of (s, n, v) \<Rightarrow>
        must (ini_key file s n \<noteq> [])
          (case lookup_value vs (ini_key file s n) of
             None \<Rightarrow> add_variable (ini_key file s n) v vs
           | Some old \<Rightarrow> Inr (assign_variable (ini_key file s n)
               (if old = [] then v else old @ file_value_delimiter file @ v) vs)))"

lemma handler_store:
  "file_parse_ini_handler file vs s n v = res_bind (ini_store file vs (s, n, v)) (\<lambda>vs'. Inr (vs', True))"
proof -
  have key: "(if length s > 0 then s else []) @ (if length s > 0 then file_name_delimiter file else []) @ n
      = ini_key file s n"
    by (simp add: ini_key_def)
  show ?thesis
    unfolding file_parse_ini_handler_def Let_def key ini_store_def
    by (cases "find_variable vs (ini_key file s n)"; cases "ini_key file s n = []")
       (simp_all add: lookup_value_def add_variable_def)
qed

lemma handler_accepts: "accepts_all (file_parse_ini_handler file) (ini_store file)"
  by (simp add: accepts_all_def handler_store)

lemma ini_store_correct:
  assumes "vars_ok vs" "ini_key file s n \<noteq> []"
  shows "\<exists>vs'. ini_store file vs (s, n, v) = Inr vs' \<and> vars_ok vs'
    \<and> lookup_value vs' = ini_bind file (lookup_value vs) (s, n, v)"
  using vars.upsert[OF assms(1), of "ini_key file s n" v
      "\<lambda>old. if old = [] then v else old @ file_value_delimiter file @ v"] assms(2)
  by (simp add: ini_store_def ini_bind_def)

lemma ini_store_keeps: "vars_ok vs \<Longrightarrow> ini_store file vs c = Inr vs' \<Longrightarrow> vars_ok vs'"
proof -
  assume vs: "vars_ok vs" "ini_store file vs c = Inr vs'"
  obtain s n v where c: "c = (s, n, v)" by (cases c)
  then have "ini_key file s n \<noteq> []"
    using vs(2) by (auto simp: ini_store_def must_def split: if_splits)
  then show ?thesis using ini_store_correct[OF vs(1), of "file" s n v] vs(2) c by simp
qed

lemma ini_store_all:
  assumes "vars_ok vs" "\<forall>(s, n, v) \<in> set cs. ini_key file s n \<noteq> []"
  shows "\<exists>vs'. res_fold (\<lambda>c vs. ini_store file vs c) cs vs = Inr vs' \<and> vars_ok vs'
    \<and> lookup_value vs' = foldl (ini_bind file) (lookup_value vs) cs"
  using assms
proof (induction cs arbitrary: vs)
  case (Cons c cs)
  obtain s n v where c: "c = (s, n, v)" by (cases c)
  obtain vs1 where vs1: "ini_store file vs c = Inr vs1" "vars_ok vs1"
      "lookup_value vs1 = ini_bind file (lookup_value vs) c"
    using ini_store_correct[of vs "file" s n v] Cons.prems c by auto
  then show ?case using Cons.IH[OF vs1(2)] Cons.prems(2) by auto
qed simp

lemma ini_left_eq: "length t < 2 ^ 31 \<Longrightarrow> ini_left t = int (length t)"
  by (simp add: ini_left_def signed_of_nat signed_take_bit_int_eq_self)

lemma file_parse_ini_keeps:
  assumes "file_parse_ini file t = Inr (Some vs)"
  shows "vars_ok vs"
proof -
  have "handler_keeps vars_ok (file_parse_ini_handler file)"
    using ini_store_keeps by (fastforce simp: handler_keeps_def handler_store res_bind_eq_Inr_iff)
  then show ?thesis
    using assms ini_loop_inv[of vars_ok "file_parse_ini_handler file" "ini_init Leaf"]
    by (auto simp: file_parse_ini_def ini_parse_stream_def res_bind_eq_Inr_iff ini_init_def split: if_splits)
qed

lemma pair_key_nonempty: "good_pair p \<Longrightarrow> (s', n, v) \<in> set (pair_calls s p) \<Longrightarrow> ini_key file s' n \<noteq> []"
  by (cases p) (auto simp: ini_key_def good_name_def)

lemma ini_key_nonempty:
  assumes "good_doc d"
  shows "\<forall>(s, n, v) \<in> set (doc_calls d). ini_key file s n \<noteq> []"
proof clarify
  fix s n v
  assume c: "(s, n, v) \<in> set (doc_calls d)" "ini_key file s n = []"
  consider p where "p \<in> set (doc_top d)" "(s, n, v) \<in> set (pair_calls [] p)"
    | s0 ps p where "(s0, ps) \<in> set (doc_sections d)" "p \<in> set ps" "(s, n, v) \<in> set (pair_calls s0 p)"
    using c(1) unfolding doc_calls_def by auto
  then show False
  proof cases
    case 1
    then show ?thesis using assms c(2) pair_key_nonempty[of p s n v "[]" "file"] by (simp add: good_doc_def)
  next
    case 2
    then have "good_pair p" using assms by (fastforce simp: good_doc_def)
    then show ?thesis using 2(3) c(2) pair_key_nonempty by blast
  qed
qed

text \<open>JSON: the bindings of an object, with the names of nested objects joined.\<close>

fun json_entries :: "'d number_ops \<Rightarrow> string \<Rightarrow> 'd cjson \<Rightarrow> string \<Rightarrow> (string \<times> string) list" where
  "json_entries nops delim (cJSON_Object items) prefix =
     concat (map (\<lambda>(key, item).
       if is_object item then json_entries nops delim item (prefix @ key @ delim)
       else (case json_value nops item of None \<Rightarrow> [] | Some v \<Rightarrow> [(prefix @ key, v)])) items)"
| "json_entries nops delim item prefix = []"

definition add_named :: "string \<times> string \<Rightarrow> variables \<Rightarrow> variables res" where
  "add_named e vs = (case e of (n, v) \<Rightarrow> must (n \<noteq> []) (add_variable n v vs))"

lemma decimal_nonempty [simp]: "decimal_nat n \<noteq> []" "decimal i \<noteq> []"
proof -
  show "decimal_nat n \<noteq> []" for n
    by (subst decimal_nat.simps) simp
  then show "decimal i \<noteq> []"
    by (simp add: decimal_def)
qed

lemma emit_entries:
  assumes "\<forall>d. nm_format3 nops d \<noteq> []" "\<not> is_object item"
  shows "file_parse_json_emit nops prefix key item vs =
    res_fold add_named (case json_value nops item of None \<Rightarrow> [] | Some v \<Rightarrow> [(prefix @ key, v)]) vs"
  using assms
  by (cases item)
     (auto simp: file_parse_json_emit_def add_named_def add_variable_def Let_def res_fold_Nil_ext)

lemma res_fold_concat: "res_fold f (concat xss) s = res_fold (\<lambda>xs. res_fold f xs) xss s"
  by (induction xss arbitrary: s) (auto simp: res_fold_append intro!: res_bind_cong)

lemma walk_entries:
  assumes "\<forall>d. nm_format3 nops d \<noteq> []"
  shows "is_object root \<Longrightarrow> file_parse_json_walk nops delim root prefix vs
    = res_fold add_named (json_entries nops delim root prefix) vs"
  using assms
proof (induction nops delim root prefix vs rule: file_parse_json_walk.induct)
  case (1 nops delim items prefix vs)
  have "file_parse_json_walk nops delim (cJSON_Object items) prefix vs
      = res_fold (\<lambda>x vs. res_fold add_named ((\<lambda>(key, item).
          if is_object item then json_entries nops delim item (prefix @ key @ delim)
          else (case json_value nops item of None \<Rightarrow> [] | Some v \<Rightarrow> [(prefix @ key, v)])) x) vs) items vs"
    unfolding file_parse_json_walk.simps
  proof (rule res_fold_cong[OF refl refl])
    fix x u assume x: "x \<in> set items"
    obtain key item where xk: "x = (key, item)" by (cases x)
    show "(case x of (key, item) \<Rightarrow> \<lambda>vs. if is_object item
          then file_parse_json_walk nops delim item (prefix @ key @ delim) vs
          else file_parse_json_emit nops prefix key item vs) u
        = res_fold add_named (case x of (key, item) \<Rightarrow>
          if is_object item then json_entries nops delim item (prefix @ key @ delim)
          else (case json_value nops item of None \<Rightarrow> [] | Some v \<Rightarrow> [(prefix @ key, v)])) u"
      using 1 x emit_entries[of nops item prefix key u] unfolding xk by (cases "is_object item") auto
  qed
  then show ?case
    by (simp add: res_fold_concat res_fold_map)
qed auto

lemma add_named_nonempty: "n \<noteq> [] \<Longrightarrow> add_named (n, v) vs = add_variable n v vs"
  by (simp add: add_named_def)

lemma add_variable_cases:
  assumes "vars_ok vs"
  obtains vs' where "add_variable n v vs = Inr vs'" "vars_ok vs'" | "add_variable n v vs = Inl Assert_Failed"
  using add_variable_new[OF assms, of n v] add_variable_present[OF assms, of n v] by blast

lemma add_named_all:
  assumes "vars_ok vs"
  shows "if distinct (map fst es) \<and> [] \<notin> fst ` set es \<and> (\<forall>n \<in> fst ` set es. lookup_value vs n = None)
    then \<exists>vs'. res_fold add_named es vs = Inr vs' \<and> vars_ok vs' \<and> lookup_value vs' = lookup_value vs ++ map_of es
    else res_fold add_named es vs = Inl Assert_Failed"
proof (cases "[] \<notin> fst ` set es")
  case True
  then have eq: "res_fold add_named es vs = res_fold (\<lambda>(n, v). add_variable n v) es vs"
  proof (intro res_fold_cong[OF refl refl])
    fix x u assume "x \<in> set es"
    then have "fst x \<noteq> []"
      using True by (metis imageI)
    then obtain n v where "x = (n, v)" "n \<noteq> []"
      by (cases x) simp
    then show "add_named x u = (case x of (n, v) \<Rightarrow> add_variable n v) u"
      by (simp add: add_named_nonempty)
  qed
  show ?thesis
    using vars.add_all[OF assms, of es] vars.add_all_clash[OF assms, of es] True unfolding eq by auto
next
  case False
  have "res_fold add_named es vs = Inl Assert_Failed"
    using assms False
  proof (induction es arbitrary: vs)
    case (Cons e es)
    obtain n v where e: "e = (n, v)" by (cases e)
    show ?case
    proof (cases "n = []")
      case True
      then show ?thesis by (simp add: e add_named_def)
    next
      case n: False
      then have rest: "\<not> [] \<notin> fst ` set es"
        using Cons.prems(2) e by auto
      from Cons.prems(1) show ?thesis
        by (rule add_variable_cases[of vs n v]) (use Cons.IH rest n e add_named_nonempty in auto)
    qed
  qed simp
  then show ?thesis using False by auto
qed

lemma lookup_Leaf: "lookup_value Leaf = Map.empty"
  by (simp add: fun_eq_iff)

lemma file_parse_json_outcome:
  assumes "\<forall>d. nm_format3 nops d \<noteq> []" "cJSON_ParseWithOpts nops t = Some root" "is_object root"
  shows "if distinct (map fst (json_entries nops (file_name_delimiter file) root []))
      \<and> [] \<notin> fst ` set (json_entries nops (file_name_delimiter file) root [])
    then \<exists>vs. file_parse_json nops file t = Inr (Some vs) \<and> vars_ok vs
      \<and> lookup_value vs = map_of (json_entries nops (file_name_delimiter file) root [])
    else file_parse_json nops file t = Inl Assert_Failed"
proof -
  let ?es = "json_entries nops (file_name_delimiter file) root []"
  have parse: "file_parse_json nops file t = res_bind (res_fold add_named ?es Leaf) (\<lambda>vs. Inr (Some vs))"
    using walk_entries[of nops root] assms by (simp add: file_parse_json_def)
  show ?thesis
    using add_named_all[OF vars_ok_Leaf, of ?es] unfolding parse
    by (cases "distinct (map fst ?es) \<and> [] \<notin> fst ` set ?es") (auto simp: lookup_Leaf split: if_splits)
qed

lemma insert_variable_keeps: "vars_ok vs \<Longrightarrow> insert_variable v vs = Inr vs' \<Longrightarrow> vars_ok vs'"
  using add_variable_cases[of vs "var_name v" "var_value v"]
  by (metis Inl_Inr_False add_variable_insert sum.inject(2))

lemma emit_keeps: "vars_ok vs \<Longrightarrow> file_parse_json_emit nops prefix key item vs = Inr vs' \<Longrightarrow> vars_ok vs'"
  by (auto simp: file_parse_json_emit_def must_eq_Inr_iff Let_def split: option.splits
      dest: insert_variable_keeps)

lemma walk_keeps: "file_parse_json_walk nops delim root prefix vs = Inr vs' \<Longrightarrow> vars_ok vs \<Longrightarrow> vars_ok vs'"
proof (induction nops delim root prefix vs arbitrary: vs' rule: file_parse_json_walk.induct)
  case (1 nops delim items prefix vs)
  have "vars_ok u'" if "x \<in> set items" "vars_ok u"
      "(case x of (key, item) \<Rightarrow> \<lambda>vs. if is_object item
          then file_parse_json_walk nops delim item (prefix @ key @ delim) vs
          else file_parse_json_emit nops prefix key item vs) u = Inr u'" for x u u'
  proof -
    obtain key item where x: "x = (key, item)" by (cases x)
    show ?thesis
      using that 1(1)[of "(key, item)" key item u u'] emit_keeps[of u nops prefix key item u'] unfolding x
      by (cases "is_object item") auto
  qed
  then show ?case
    using res_fold_inv[of vars_ok vs items] 1(2,3) unfolding file_parse_json_walk.simps by blast
qed auto

lemma file_parse_json_keeps:
  assumes "file_parse_json nops file t = Inr (Some vs)"
  shows "vars_ok vs"
  using assms by (auto simp: file_parse_json_def res_bind_eq_Inr_iff split: option.splits if_splits
      dest: walk_keeps)

section \<open>A file is a client of its remote\<close>

lemma file_parse_contents_keeps: "file_parse_contents nops file t = Inr (Some vs) \<Longrightarrow> vars_ok vs"
  using file_parse_ini_keeps file_parse_json_keeps
  by (auto simp: file_parse_contents_def split: file_format.splits)

lemma file_callback_accept:
  "vars_ok z \<Longrightarrow> file_check_callback nops file z t b =
    res_bind (file_parse_contents nops file t) (\<lambda>r. case r of
        None \<Rightarrow> Inr (False, t, z) | Some vs' \<Rightarrow> Inr (True, t, vs'))"
  using flush_global_variables_correct[of z]
  by (cases "file_parse_contents nops file t") (auto simp: file_check_callback_def split: option.splits)

interpretation file_client: remote_client "file_check_callback nops file" vars_ok "\<lambda>vs vs'. vs' = vs" lookup_value
  for nops :: "'d number_ops" and "file" :: cfg_file
proof (unfold_locales, goal_cases)
  case (3 s t b res t' s')
  then show ?case by (auto simp: file_callback_accept res_bind_eq_Inr_iff split: option.splits)
next
  case (4 s t b res t' s')
  then show ?case
    using file_parse_contents_keeps
    by (auto simp: file_callback_accept res_bind_eq_Inr_iff split: option.splits)
next
  case (5 s t b t' s')
  then show ?case by (auto simp: file_callback_accept res_bind_eq_Inr_iff split: option.splits)
next
  case (6 s z t b t' s' c)
  then show ?case by (auto simp: file_callback_accept res_bind_eq_Inr_iff split: option.splits)
qed simp_all

lemma same_parser:
  "file_parse_contents nops (file\<lparr>file_remote := r, file_variables := vs\<rparr>) = file_parse_contents nops file"
proof -
  have e: "file_name_delimiter (file\<lparr>file_remote := r, file_variables := vs\<rparr>) = file_name_delimiter file"
    "file_value_delimiter (file\<lparr>file_remote := r, file_variables := vs\<rparr>) = file_value_delimiter file"
    by simp_all
  have h: "file_parse_ini_handler (file\<lparr>file_remote := r, file_variables := vs\<rparr>) = file_parse_ini_handler file"
    unfolding file_parse_ini_handler_def e ..
  have p: "file_parse (file\<lparr>file_remote := r, file_variables := vs\<rparr>) = file_parse file"
    by simp
  show ?thesis
    unfolding file_parse_contents_def file_parse_ini_def file_parse_json_def h p e ..
qed

lemma same_callback:
  "file_check_callback nops (file\<lparr>file_remote := r, file_variables := vs\<rparr>) = file_check_callback nops file"
  by (simp add: fun_eq_iff file_check_callback_def same_parser)

lemma reload_outcome:
  assumes "vars_ok (file_variables file)"
    and "file_check nops os now later file True force_backup = Inr (result, file', os')"
  shows "vars_ok (file_variables file') \<and>
    (if result
     then \<exists>t. t \<noteq> [] \<and> file_parse_contents nops file t = Inr (Some (file_variables file'))
       \<and> contents (file_remote file') = Some t \<and> tst (file_remote file') = later
       \<and> (read_remote os (file_remote file) = Inr (Some t) \<or> read_backup os (file_remote file) = Inr (Some t))
     else file' = file \<and> os' = os)"
proof -
  obtain r vs where check: "check_remote os True force_backup (file_check_callback nops file) now later
      (file_remote file) (file_variables file) = Inr (result, r, os', vs)"
    and file': "file' = file\<lparr>file_remote := r, file_variables := vs\<rparr>"
    using assms(2) by (auto simp: file_check_def res_bind_eq_Inr_iff)
  note outcome = file_client.check_outcome[OF assms(1) check]
  show ?thesis
  proof (cases result)
    case True
    then obtain t b where t: "t \<noteq> []" "file_check_callback nops file (file_variables file) t b = Inr (True, t, vs)"
        "r = (file_remote file)\<lparr>contents := Some t, tst := later\<rparr>"
        "read_remote os (file_remote file) = Inr (Some t) \<or> read_backup os (file_remote file) = Inr (Some t)"
      using outcome by (auto split: if_splits)
    have "file_parse_contents nops file t = Inr (Some vs)"
      using t(2) assms(1) by (auto simp: file_callback_accept res_bind_eq_Inr_iff split: option.splits)
    then show ?thesis using True t outcome file' by auto
  next
    case False
    then show ?thesis using outcome file' assms(1) by simp
  qed
qed

section \<open>Properties\<close>

definition sample_file :: "file_format \<Rightarrow> cfg_file" where
  "sample_file format = \<lparr>file_name = ''f'', file_remote = sample_remote, file_name_delimiter = '':'',
     file_value_delimiter = '';'', file_parse = format, file_variables = Leaf\<rparr>"

lemma whole_left: "length t < 2 ^ 31 \<Longrightarrow> \<lparr>st_ptr = t, st_left = ini_left t\<rparr> = whole t"
  by (simp add: whole_def ini_left_eq)

text \<open>
  C23: An INI document, rendered and loaded, defines exactly its bindings: \<open>section + delimiter +
  name\<close>, the values of a repeated name and the lines of a long value joined by the value
  delimiter in the order of the document.
\<close>

theorem file_ini_document:
  assumes "good_doc d" "length (render_doc d) < 2 ^ 31"
  shows "\<exists>vs. file_parse_ini file (render_doc d) = Inr (Some vs) \<and> vars_ok vs
    \<and> lookup_value vs = foldl (ini_bind file) Map.empty (doc_calls d)"
proof -
  obtain vs where "res_fold (\<lambda>c vs. ini_store file vs c) (doc_calls d) Leaf = Inr vs" "vars_ok vs"
      "lookup_value vs = foldl (ini_bind file) Map.empty (doc_calls d)"
    using ini_store_all[OF vars_ok_Leaf ini_key_nonempty[OF assms(1), of "file"]] by (auto simp: lookup_Leaf)
  then show ?thesis
    using parse_render[OF assms(1) handler_accepts, of "file" Leaf]
    by (simp add: file_parse_ini_def whole_left[OF assms(2)])
qed

theorem file_ini_document_witness:
  "\<exists>vs. file_parse_ini (sample_file Format_Ini) (render_doc sample_doc) = Inr (Some vs)
     \<and> lookup_value vs ''s 1:a'' = Some ''b;c;d'' \<and> lookup_value vs ''top'' = Some ''x = y''
     \<and> lookup_value vs ''a'' = None"
proof -
  have good: "good_doc sample_doc"
    by (simp add: good_doc_def sample_doc_def doc_lines_def good_section_def good_name_def plain_def
        newline_def isspace_def MAX_SECTION_def MAX_NAME_def INI_MAX_LINE_def)
  have len: "length (render_doc sample_doc) < 2 ^ 31"
    by (simp add: render_doc_def doc_lines_def sample_doc_def)
  have calls: "doc_calls sample_doc = [([], ''top'', ''x = y''), (''s 1'', ''a'', []), (''s 1'', ''a'', ''b;c''),
            (''s 1'', ''a'', ''d''), (''s 1'', ''k'', ''1'')]"
    by (simp add: doc_calls_def sample_doc_def)
  show ?thesis
    using file_ini_document[OF good len, of "sample_file Format_Ini"] unfolding calls
    by (auto simp: ini_bind_def ini_key_def sample_file_def)
qed

text \<open>
  A pair without a name outside any section, such as the line \<open>=x\<close>, does not make the text
  invalid: it stops the worker process, because \<open>asprintf\<close> is asserted to print something.
\<close>

lemma ini_nameless_pair_aborts:
  "file_parse_ini file ''=x'' = Inl Assert_Failed"
proof -
  have h: "file_parse_ini_handler file Leaf [] [] v = Inl Assert_Failed" for v
    by (simp add: file_parse_ini_handler_def)
  have line: "ini_line (file_parse_ini_handler file) ''=x'' (ini_init Leaf) = Inl Assert_Failed"
    by (simp add: ini_line_def ini_init_def ini_bom_def ini_rstrip_def ini_lskip_def rstrip_def lskip_def
        isspace_def ini_body_def ini_find_chars_or_comment_def ini_strncpy0_def ini_call_def h)
  have rd: "\<exists>s. file_ini_stream_reader INI_MAX_LINE (whole ''=x'') = Inr (Some ''=x'', s)"
    using reader_last[of "''=x''" INI_MAX_LINE] by (auto simp: newline_def INI_MAX_LINE_def)
  have "ini_parse_stream (whole ''=x'') (file_parse_ini_handler file) Leaf = Inl Assert_Failed"
    using rd line by (auto simp: ini_parse_stream_def ini_loop_step)
  then show ?thesis
    using whole_left[of "''=x''"] by (simp add: file_parse_ini_def)
qed

text \<open>
  C24: The outcome of loading a JSON text in every case. A text that does not parse, or whose root is
  not an object, is rejected. An object whose flattened names are distinct and not empty gives
  exactly its scalar members; a repeated or colliding name, or an empty one, stops the process.
\<close>

theorem file_json_outcome:
  assumes "\<forall>d. nm_format3 nops d \<noteq> []"
  shows "case cJSON_ParseWithOpts nops t of
      None \<Rightarrow> file_parse_json nops file t = Inr None
    | Some root \<Rightarrow>
        (let es = json_entries nops (file_name_delimiter file) root []
         in if \<not> is_object root then file_parse_json nops file t = Inr None
            else if distinct (map fst es) \<and> [] \<notin> fst ` set es
            then \<exists>vs. file_parse_json nops file t = Inr (Some vs) \<and> vars_ok vs \<and> lookup_value vs = map_of es
            else file_parse_json nops file t = Inl Assert_Failed)"
proof (cases "cJSON_ParseWithOpts nops t")
  case None
  then show ?thesis by (simp add: file_parse_json_def)
next
  case (Some root)
  then show ?thesis
    using file_parse_json_outcome[OF assms Some, of "file"]
    by (cases "is_object root") (simp_all add: Let_def file_parse_json_def)
qed

text \<open>The text \<open>{"a":"1","a":"2"}\<close>.\<close>

definition twice_a :: string where
  "twice_a = CHR ''{'' # CHR 0x22 # CHR ''a'' # CHR 0x22 # CHR '':'' # CHR 0x22 # CHR ''1'' # CHR 0x22
     # CHR '','' # CHR 0x22 # CHR ''a'' # CHR 0x22 # CHR '':'' # CHR 0x22 # CHR ''2'' # CHR 0x22 # ''}''"

lemma parse_twice_a:
  "cJSON_ParseWithOpts nops twice_a = Some (cJSON_Object [(''a'', cJSON_String ''1''), (''a'', cJSON_String ''2'')])"
proof -
  have room: "parse_value nops CJSON_NESTING_LIMIT
      = parse_value_with nops (Some (parse_value_with nops (Some (parse_value nops 998))))"
    by (simp add: CJSON_NESTING_LIMIT_def numeral_eq_Suc)
  show ?thesis
    unfolding cJSON_ParseWithOpts_def room twice_a_def
    by (simp add: skip_ws_def skip_utf8_bom_def parse_value_with_def parse_object_def parse_string_def
        unescape.simps c_string_def)
qed

theorem file_json_outcome_witness:
  "file_parse_json sample_numbers (sample_file Format_Json) twice_a = Inl Assert_Failed"
proof -
  have "\<forall>d. nm_format3 sample_numbers d \<noteq> []"
    by (simp add: sample_numbers_def)
  from file_json_outcome[OF this, of "sample_file Format_Json" twice_a] show ?thesis
    by (simp add: parse_twice_a Let_def)
qed

text \<open>
  C8: Last known good. A forced reload that fails leaves the whole object, its variables, its
  remote and the disk as they were; one that succeeds leaves exactly the variables of a non-empty
  text it read, remembers that text and the time, and the tree of variables stays well formed.
\<close>

theorem file_reload_last_known_good:
  assumes "vars_ok (file_variables file)"
    and "vmod_file_reload nops os now later file force_backup = Inr (result, file', os')"
  shows "vars_ok (file_variables file') \<and>
    (if result
     then \<exists>t. t \<noteq> [] \<and> file_parse_contents nops file t = Inr (Some (file_variables file'))
       \<and> contents (file_remote file') = Some t \<and> tst (file_remote file') = later
       \<and> (read_remote os (file_remote file) = Inr (Some t) \<or> read_backup os (file_remote file) = Inr (Some t))
     else file' = file \<and> os' = os)"
  by (rule reload_outcome[OF assms(1) assms(2)[unfolded vmod_file_reload_def]])

theorem file_reload_last_known_good_witness:
  "\<exists>file' os'. vmod_file_reload sample_numbers (sample_os Map.empty) 5 6 (sample_file Format_Json) False
     = Inr (False, file', os') \<and> file' = sample_file Format_Json"
proof -
  obtain file' os' where r: "vmod_file_reload sample_numbers (sample_os Map.empty) 5 6 (sample_file Format_Json) False
     = Inr (False, file', os')"
    by (simp add: vmod_file_reload_def file_check_def check_remote_def reload_due_def load_remote_def
        read_remote_def read_path_def read_file_def sample_os_def sample_file_def sample_remote_def
        new_remote_def locate_def set_location_def offer_def optional_string_def)
  have "vars_ok (file_variables (sample_file Format_Json))"
    by (simp add: sample_file_def)
  then show ?thesis using file_reload_last_known_good[OF _ r] r by auto
qed

text \<open>
  C20: Backup round trip. After a load from the remote with backups on and a working disk, a later
  load that cannot read the remote takes the same text from the backup file and ends with the
  same variables.
\<close>

theorem file_backup_round_trip:
  assumes "vars_ok (file_variables file)" "backup (file_remote file) = Some f"
    and "automated_backups (file_remote file) \<or> force_backup" "os_can_write os f" "os_fputs os f t = (t, b)"
    and "read_remote os (file_remote file) = Inr (Some t)" "t \<noteq> []"
    and "file_parse_contents nops file t = Inr (Some vs)"
    and "vmod_file_reload nops os now later file force_backup = Inr (result, file1, os1)"
    and "os_files os2 f = os_files os1 f" "os_fread os2 f t = length t"
    and "read_remote os2 (file_remote file1) = Inr None"
  shows "\<exists>file2. vmod_file_reload nops os2 now' later' file1 again = Inr (True, file2, os2)
    \<and> file_variables file1 = vs \<and> file_variables file2 = vs
    \<and> contents (file_remote file2) = contents (file_remote file1)"
proof -
  let ?cb = "file_check_callback nops file"
  obtain r1 vs1 where check: "check_remote os True force_backup ?cb now later
      (file_remote file) (file_variables file) = Inr (result, r1, os1, vs1)"
    and file1: "file1 = file\<lparr>file_remote := r1, file_variables := vs1\<rparr>"
    using assms(9) by (auto simp: vmod_file_reload_def file_check_def res_bind_eq_Inr_iff)
  have cb: "?cb (file_variables file) t False = Inr (True, t, vs)"
    using assms(1,8) by (simp add: file_callback_accept)
  have vs: "vars_ok vs"
    using file_parse_contents_keeps[OF assms(8)] .
  have second: "read_remote os2 r1 = Inr None"
    using assms(12) file1 by simp
  have trip: "result \<and> vs1 = vs \<and> (\<exists>r2 z1.
    check_remote os2 True again ?cb now' later' r1 vs = Inr (True, r2, os2, z1)
    \<and> lookup_value z1 = lookup_value vs \<and> contents r2 = contents r1)"
    using file_client.backup_round_trip[OF assms(1) vs assms(6,7) cb assms(2,3,4,5) check assms(10,11) second,
      where again = again and now' = now' and later' = later'] .
  then have vs1: "vs1 = vs" by simp
  obtain r2 z1 where z1: "check_remote os2 True again ?cb now' later' r1 vs = Inr (True, r2, os2, z1)"
      "contents r2 = contents r1"
    using trip by blast
  have same: "file_check_callback nops file1 = ?cb"
    by (simp add: file1 same_callback)
  obtain t' c where t': "?cb vs t' c = Inr (True, t', z1)"
      "read_remote os2 r1 = Inr (Some t') \<or> read_backup os2 r1 = Inr (Some t')"
    using file_client.check_outcome[OF vs z1(1)] by (auto split: if_splits)
  have "backup r1 = Some f"
    using check_flags[OF check] assms(2) by (metis remote.select_convs(3) remote.surjective remote.update_convs(8) remote.update_convs(10))
  moreover have "os_files os2 f = Some t"
    using check assms(2-10) cb
    by (auto simp: check_remote_def reload_due_def load_remote_def offer_def write_backup_def res_bind_eq_Inr_iff)
  ultimately have "t' = t"
    using t'(2) second assms(11) read_remote_no_nul[OF assms(6)]
    by (auto simp: read_backup_def read_file_def c_string_id)
  then have "z1 = vs"
    using t'(1) vs assms(8) by (simp add: file_callback_accept)
  then show ?thesis
    using z1 vs1 by (simp add: vmod_file_reload_def file_check_def file1 same_callback)
qed

text \<open>The text \<open>{"a":"1"}\<close> and the variables it stands for.\<close>

definition one_a :: string where
  "one_a = CHR ''{'' # CHR 0x22 # CHR ''a'' # CHR 0x22 # CHR '':'' # CHR 0x22 # CHR ''1'' # CHR 0x22 # ''}''"

definition one_a_variables :: variables where
  "one_a_variables = Node Black Leaf \<lparr>var_name = ''a'', var_value = ''1''\<rparr> Leaf"

lemma parse_one_a: "cJSON_ParseWithOpts nops one_a = Some (cJSON_Object [(''a'', cJSON_String ''1'')])"
proof -
  have room: "parse_value nops CJSON_NESTING_LIMIT
      = parse_value_with nops (Some (parse_value_with nops (Some (parse_value nops 998))))"
    by (simp add: CJSON_NESTING_LIMIT_def numeral_eq_Suc)
  show ?thesis
    unfolding cJSON_ParseWithOpts_def room one_a_def
    by (simp add: skip_ws_def skip_utf8_bom_def parse_value_with_def parse_object_def parse_string_def
        unescape.simps c_string_def)
qed

lemma load_one_a: "file_parse_contents nops (sample_file Format_Json) one_a = Inr (Some one_a_variables)"
  by (simp add: file_parse_contents_def sample_file_def file_parse_json_def parse_one_a
      file_parse_json_emit_def insert_variable_def new_global_variable_def vrbt_insert_def one_a_variables_def Let_def)

lemma one_a_c_string: "c_string one_a = one_a" "one_a \<noteq> []"
  by (simp_all add: one_a_def c_string_def)

lemma sample_reload:
  "vmod_file_reload nops (sample_os (Map.empty(''/etc/c'' \<mapsto> one_a))) 5 6 (sample_file Format_Json) False
    = Inr (True, (sample_file Format_Json)\<lparr>file_remote := sample_remote\<lparr>contents := Some one_a, tst := 6\<rparr>,
             file_variables := one_a_variables\<rparr>,
           sample_os (Map.empty(''/etc/c'' \<mapsto> one_a, ''/var/c'' \<mapsto> one_a)))"
proof -
  have cb: "file_check_callback nops (sample_file Format_Json) Leaf one_a False = Inr (True, one_a, one_a_variables)"
    by (simp add: file_callback_accept load_one_a)
  have fields: "file_variables (sample_file Format_Json) = Leaf"
    "file_remote (sample_file Format_Json) = sample_remote"
    by (simp_all add: sample_file_def)
  have rem: "read_remote (sample_os (Map.empty(''/etc/c'' \<mapsto> one_a))) sample_remote = Inr (Some one_a)"
    "backup sample_remote = Some ''/var/c''" "automated_backups sample_remote" "\<not> reloading sample_remote"
    by (simp_all add: sample_os_def sample_remote_def new_remote_def locate_def
        set_location_def optional_string_def read_remote_def read_path_def read_file_def one_a_c_string)
  have disk: "write_backup ''/var/c'' one_a (sample_os (Map.empty(''/etc/c'' \<mapsto> one_a)))
      = sample_os (Map.empty(''/etc/c'' \<mapsto> one_a, ''/var/c'' \<mapsto> one_a))"
    by (simp add: write_backup_def sample_os_def)
  show ?thesis
    by (simp add: vmod_file_reload_def file_check_def check_remote_def reload_due_def load_remote_def
        fields rem disk cb offer_def one_a_c_string finish_reload_def Let_def)
       (simp add: store_contents_def)
qed

theorem file_backup_round_trip_witness:
  "\<exists>file2. vmod_file_reload sample_numbers (sample_os (Map.empty(''/var/c'' \<mapsto> one_a))) 99 100
      ((sample_file Format_Json)\<lparr>file_remote := sample_remote\<lparr>contents := Some one_a, tst := 6\<rparr>,
             file_variables := one_a_variables\<rparr>) True
      = Inr (True, file2, sample_os (Map.empty(''/var/c'' \<mapsto> one_a)))
    \<and> file_variables file2 = one_a_variables"
proof -
  let ?os = "sample_os (Map.empty(''/etc/c'' \<mapsto> one_a))"
  let ?os2 = "sample_os (Map.empty(''/var/c'' \<mapsto> one_a))"
  have facts: "vars_ok (file_variables (sample_file Format_Json))"
    "backup (file_remote (sample_file Format_Json)) = Some ''/var/c''"
    "automated_backups (file_remote (sample_file Format_Json)) \<or> False"
    "os_can_write ?os ''/var/c''" "os_fputs ?os ''/var/c'' one_a = (one_a, True)"
    "read_remote ?os (file_remote (sample_file Format_Json)) = Inr (Some one_a)"
    by (simp_all add: sample_file_def sample_os_def sample_remote_def new_remote_def locate_def
        set_location_def optional_string_def read_remote_def read_path_def read_file_def one_a_c_string)
  show ?thesis
    using file_backup_round_trip[OF facts(1-6) one_a_c_string(2) load_one_a sample_reload, of ?os2 sample_numbers 99 100 True]
    by (simp add: sample_os_def read_remote_def read_path_def read_file_def sample_remote_def
        new_remote_def locate_def set_location_def) blast
qed

text \<open>
  Between reloads, reading a file object is reading its variables: when no periodic reload is
  due, \<open>get\<close> answers from the current tree exactly as \<open>get_variable\<close> does, and neither the object
  nor the disk changes.
\<close>

lemma file_get_between_reloads:
  assumes "reloading (file_remote file) \<or> period (file_remote file) = 0
      \<or> now - tst (file_remote file) \<le> uint (period (file_remote file))"
  shows "vmod_file_get nops ops os now later ctx file name fallback =
    (case get_variable ops ctx (file_variables file) name fallback of
       (ctx', result) \<Rightarrow> Inr (result, ctx', file, os))"
  by (simp add: vmod_file_get_def file_check_def check_not_due[OF assms])

text \<open>
  What the constructor can end in. With unusable arguments nothing is read and no object is
  made; a load that fails makes no object unless failures are ignored, and then the object is
  there with no variables; in every case without an object the VCL load is failed.
\<close>

lemma file_init_outcome:
  assumes "vmod_file__init nops os now later ctx slot vcl_name args format nd vd = Inr (slot', ctx', os')"
  shows "slot = None \<and>
    (case slot' of
       None \<Rightarrow> ctx' = vrt_fail Instance_Failed ctx \<and> os' = os
     | Some file \<Rightarrow> ctx' = ctx \<and> location_given args \<and> numbers_ok args \<and> nd \<noteq> None \<and> vd \<noteq> None
         \<and> vars_ok (file_variables file)
         \<and> (file_variables file = Leaf \<and> contents (file_remote file) = None \<and> ra_ignore_load_failures args \<and> os' = os
            \<or> (\<exists>t. t \<noteq> [] \<and> contents (file_remote file) = Some t \<and> tst (file_remote file) = later
                \<and> file_parse_contents nops file t = Inr (Some (file_variables file)))))"
proof -
  have slot: "slot = None"
    using assms by (auto simp: vmod_file__init_def must_eq_Inr_iff)
  show ?thesis
  proof (cases "location_given args \<and> numbers_ok args \<and> nd \<noteq> None \<and> vd \<noteq> None")
    case False
    then show ?thesis
      using assms slot by (auto simp: vmod_file__init_def must_eq_Inr_iff split: bool.splits option.splits)
  next
    case True
    then obtain n v where d: "nd = Some n" "vd = Some v" by auto
    define file0 where "file0 = \<lparr>file_name = vcl_name, file_remote = new_remote_from args,
                   file_name_delimiter = n, file_value_delimiter = v, file_parse = format,
                   file_variables = Leaf\<rparr>"
    obtain loaded file1 os1 where check: "file_check nops os now later file0 True False = Inr (loaded, file1, os1)"
      and res: "(if \<not> loaded \<and> \<not> ra_ignore_load_failures args
                  then res_bind (vmod_file__fini (Some file1)) (\<lambda>_. Inr (None, vrt_fail Instance_Failed ctx, os1))
                  else Inr (Some file1, ctx, os1)) = Inr (slot', ctx', os')"
      using assms True by (auto simp: vmod_file__init_def must_eq_Inr_iff d file0_def Let_def res_bind_eq_Inr_iff)
    have ok: "vars_ok (file_variables file0)"
      by (simp add: file0_def)
    note outcome = reload_outcome[OF ok check]
    have start: "contents (file_remote file0) = None" "file_variables file0 = Leaf"
      by (simp_all add: file0_def new_remote_from_def new_remote_def split: prod.split)
    have "file_parse_contents nops file1 = file_parse_contents nops file0"
      using check by (auto simp: file_check_def res_bind_eq_Inr_iff same_parser)
    then show ?thesis
      using slot res outcome start True
      by (auto simp: vmod_file__fini_def res_bind_eq_Inr_iff split: if_splits)
  qed
qed

definition sample_ctx :: "(nat, unit) vrt_ctx" where
  "sample_ctx = \<lparr>ctx_ws = 9, ctx_method = MET_OTHER, ctx_vsb = [], ctx_fails = [], ctx_http = ()\<rparr>"

end
