(* ===== verification/Rules.thy ===== *)
theory Rules
  imports Remote
begin

text \<open>
  \<open>vmod_cfg_rules.c\<close>: the object \<open>cfg.rules\<close>, an ordered list of \<open>regexp -> value\<close> lines loaded from
  a remote. The parser works in place on the buffer: it writes NUL bytes over line, regexp and
  value ends and puts the old bytes back. Pointers into the buffer are indices, and the buffer
  includes its terminating NUL.
\<close>

abbreviation EOL :: char where
  "EOL \<equiv> CHR 0x0A"

record 're rule =
  rule_vre :: 're
  rule_value :: string

type_synonym 're rules = "'re rule list"

record 're cfg_rules =
  rules_name :: string
  rules_remote :: remote
  rules_list :: "'re rules"

section \<open>The list of rules\<close>

definition new_rule :: "'re \<Rightarrow> string \<Rightarrow> 're rule" where
  "new_rule vre v = \<lparr>rule_vre = vre, rule_value = v\<rparr>"

text \<open>What is left of the list, and what was handed to \<open>free_rule\<close>.\<close>

fun flush_rules :: "'re rules \<Rightarrow> 're rules \<times> 're rules" where
  "flush_rules [] = ([], [])"
| "flush_rules (r # rs) = (case flush_rules rs of (left, freed) \<Rightarrow> (left, r # freed))"

section \<open>Parsing\<close>

text \<open>The C string a pointer stands for.\<close>

definition c_at :: "string \<Rightarrow> nat \<Rightarrow> string" where
  "c_at b p = c_string (drop p b)"

fun strstr :: "string \<Rightarrow> string \<Rightarrow> nat option" where
  "strstr [] needle = (if needle = [] then Some 0 else None)"
| "strstr (c # cs) needle =
     (if has_prefix (c # cs) needle then Some 0 else map_option Suc (strstr cs needle))"

text \<open>\<open>for (; (*p != '\0') && isspace(*p); p++);\<close> and the loop that walks back over spaces.\<close>

function skip_spaces :: "string \<Rightarrow> nat \<Rightarrow> nat" where
  "skip_spaces b p = (if p < length b \<and> b ! p \<noteq> NUL \<and> isspace (b ! p) then skip_spaces b (p + 1) else p)"
  by pat_completeness auto
termination by (relation "measure (\<lambda>(b, p). length b - p)") auto

fun back_spaces :: "string \<Rightarrow> nat \<Rightarrow> nat \<Rightarrow> nat" where
  "back_spaces b start p =
     (if p > start \<and> isspace (b ! (p - 1)) then back_spaces b start (p - 1) else p)"

declare skip_spaces.simps [simp del] back_spaces.simps [simp del]

datatype 're line_outcome = Skipped | Failed nat | Parsed "'re rule"

text \<open>
  From the isolated line (\<open>*line_end = '\0'\<close>) to the \<open>skip\<close> label: the outcome and the buffer.
\<close>

definition rules_isolated ::
  "'re vre_ops \<Rightarrow> string \<Rightarrow> nat \<Rightarrow> nat \<Rightarrow> 're line_outcome \<times> string" where
  "rules_isolated re b line line_end =
     (let regexp = skip_spaces b line in
      if b ! regexp = NUL then (Skipped, b)
      else (case strstr (c_at b regexp) ''->'' of
          None \<Rightarrow> (Failed 1, b)
        | Some k \<Rightarrow>
            let arrow = regexp + k in
            if arrow = regexp then (Failed 2, b)
            else
              let regexp_end = back_spaces b regexp arrow;
                  val = skip_spaces b (arrow + 2);
                  val_end = back_spaces b val line_end;
                  regexp_end_char = b ! regexp_end;
                  b1 = b[regexp_end := NUL];
                  val_end_char = b1 ! val_end;
                  b2 = b1[val_end := NUL];
                  outcome = (case re_compile re (c_at b2 regexp) of
                      None \<Rightarrow> Failed 3
                    | Some vre \<Rightarrow> Parsed (new_rule vre (c_at b2 val)));
                  b3 = b2[regexp_end := regexp_end_char];
                  b4 = b3[val_end := val_end_char]
              in (outcome, b4)))"

text \<open>One turn of the loop: the outcome, the buffer and where the next line starts.\<close>

definition rules_line :: "'re vre_ops \<Rightarrow> string \<Rightarrow> nat \<Rightarrow> 're line_outcome \<times> string \<times> nat" where
  "rules_line re b line =
     (let (line_end, b1, line_end_char) =
        (case strchr (c_at b line) EOL of
           Some k \<Rightarrow> (line + k, b[line + k := NUL], EOL)
         | None \<Rightarrow> (line + length (c_at b line), b, NUL));
        (outcome, b2) = rules_isolated re b1 line line_end;
        b3 = b2[line_end := line_end_char]
      in (outcome, b3, if b3 ! line_end = EOL then line_end + 1 else line_end))"

lemma rules_isolated_length: "rules_isolated re b line line_end = (outcome, b') \<Longrightarrow> length b' = length b"
  by (auto simp: rules_isolated_def Let_def split: if_splits option.splits)

lemma rules_line_progress:
  assumes "rules_line re b line = (outcome, b', next_line)" "line < length b" "b ! line \<noteq> NUL"
  shows "length b' = length b \<and> line < next_line"
proof (cases "strchr (c_at b line) EOL")
  case None
  have "drop line b = b ! line # drop (Suc line) b"
    using assms(2) by (simp add: Cons_nth_drop_Suc)
  then have "length (c_at b line) > 0"
    using assms(3) by (simp add: c_at_def c_string_def)
  then show ?thesis
    using assms(1) None rules_isolated_length[of re b line "line + length (c_at b line)"]
    by (fastforce simp: rules_line_def Let_def split: prod.splits)
next
  case (Some k)
  have "length (c_at b line) \<le> length b - line"
    by (simp add: c_at_def c_string_def length_takeWhile_le[THEN order_trans])
  then have "line + k < length b"
    using strchr_Some[OF Some] assms(2) by linarith
  then show ?thesis
    using assms(1) Some rules_isolated_length[of re "b[line + k := NUL]" line "line + k"]
    by (fastforce simp: rules_line_def Let_def split: prod.splits)
qed

text \<open>The loop. \<open>line\<close> past the buffer would be a read outside of it.\<close>

function rules_loop ::
  "'re vre_ops \<Rightarrow> string \<Rightarrow> nat \<Rightarrow> 're rules \<Rightarrow> ('re rules option \<times> string) res" where
  "rules_loop re b line result =
     (if length b \<le> line then Inl Out_Of_Bounds
      else if b ! line = NUL then Inr (Some result, b)
      else (case rules_line re b line of
          (Failed e, b', next_line) \<Rightarrow> (case flush_rules result of (_, freed) \<Rightarrow> Inr (None, b'))
        | (Skipped, b', next_line) \<Rightarrow> rules_loop re b' next_line result
        | (Parsed r, b', next_line) \<Rightarrow> rules_loop re b' next_line (result @ [r])))"
  by pat_completeness auto
termination
proof (relation "measure (\<lambda>(re, b, line, result). length b - line)", goal_cases)
  case (2 re b line result x y xa ya)
  then have "rules_line re b line = (x, xa, ya)" by simp
  from rules_line_progress[OF this] show ?case using 2 by auto
next
  case (3 re b line result x y r xa ya)
  then have "rules_line re b line = (x, xa, ya)" by simp
  from rules_line_progress[OF this] show ?case using 3 by auto
qed simp

declare rules_loop.simps [simp del]

definition rules_parse :: "'re vre_ops \<Rightarrow> string \<Rightarrow> ('re rules option \<times> string) res" where
  "rules_parse re b = rules_loop re b 0 []"

section \<open>The object\<close>

text \<open>
  The state the callback changes is \<open>state.rules\<close>. The buffer it is given is a C string: the parser
  sees its terminating NUL, and what it leaves is again read up to a NUL.
\<close>

definition rules_check_callback :: "'re vre_ops \<Rightarrow> 're rules remote_callback" where
  "rules_check_callback re rules t is_backup =
     res_bind (rules_parse re (t @ [NUL])) (\<lambda>(r, b). case r of
         None \<Rightarrow> Inr (False, c_string b, rules)
       | Some rules' \<Rightarrow> (case flush_rules rules of (_, freed) \<Rightarrow> Inr (True, c_string b, rules')))"

definition rules_check ::
  "'re vre_ops \<Rightarrow> os \<Rightarrow> int \<Rightarrow> int \<Rightarrow> 're cfg_rules \<Rightarrow> bool \<Rightarrow> bool \<Rightarrow> (bool \<times> 're cfg_rules \<times> os) res" where
  "rules_check re os now later rules force_load force_backup =
     res_bind (check_remote os force_load force_backup (rules_check_callback re) now later
         (rules_remote rules) (rules_list rules))
       (\<lambda>(result, r, os', rs). Inr (result, rules\<lparr>rules_remote := r, rules_list := rs\<rparr>, os'))"

definition vmod_rules__fini :: "'re cfg_rules option \<Rightarrow> 're cfg_rules option res" where
  "vmod_rules__fini slot =
     (case slot of
        None \<Rightarrow> Inl Assert_Failed
      | Some rules \<Rightarrow> (case flush_rules (rules_list rules) of (_, freed) \<Rightarrow> Inr None))"

definition vmod_rules__init ::
  "'re vre_ops \<Rightarrow> os \<Rightarrow> int \<Rightarrow> int \<Rightarrow> ('w, 'h) vrt_ctx \<Rightarrow> 're cfg_rules option \<Rightarrow> string \<Rightarrow> remote_args
    \<Rightarrow> ('re cfg_rules option \<times> ('w, 'h) vrt_ctx \<times> os) res" where
  "vmod_rules__init re os now later ctx slot vcl_name args =
     must (slot = None)
       (if location_given args \<and> numbers_ok args
        then res_bind (rules_check re os now later
                 \<lparr>rules_name = vcl_name, rules_remote = new_remote_from args, rules_list = []\<rparr> True False)
               (\<lambda>(loaded, rules, os').
                  if \<not> loaded \<and> \<not> ra_ignore_load_failures args
                  then res_bind (vmod_rules__fini (Some rules)) (\<lambda>_. Inr (None, vrt_fail Instance_Failed ctx, os'))
                  else Inr (Some rules, ctx, os'))
        else Inr (None, vrt_fail Instance_Failed ctx, os))"

definition vmod_rules_reload ::
  "'re vre_ops \<Rightarrow> os \<Rightarrow> int \<Rightarrow> int \<Rightarrow> 're cfg_rules \<Rightarrow> bool \<Rightarrow> (bool \<times> 're cfg_rules \<times> os) res" where
  "vmod_rules_reload re os now later rules force_backup = rules_check re os now later rules True force_backup"

definition vmod_rules_inspect ::
  "'re vre_ops \<Rightarrow> os \<Rightarrow> int \<Rightarrow> int \<Rightarrow> ('w, 'h) vrt_ctx \<Rightarrow> 're cfg_rules \<Rightarrow> (('w, 'h) vrt_ctx \<times> 're cfg_rules \<times> os) res" where
  "vmod_rules_inspect re os now later ctx rules =
     res_bind (rules_check re os now later rules False False) (\<lambda>(_, rules', os').
       Inr (inspect_remote ctx (rules_remote rules'), rules', os'))"

text \<open>The \<open>VTAILQ_FOREACH\<close> of \<open>vmod_rules_get\<close>: the value of the first rule that matches.\<close>

fun first_match :: "'re vre_ops \<Rightarrow> string option \<Rightarrow> 're rules \<Rightarrow> string option \<Rightarrow> string option" where
  "first_match re val [] fallback = fallback"
| "first_match re val (r # rs) fallback =
     (if re_match re (rule_vre r) val then Some (rule_value r) else first_match re val rs fallback)"

definition vmod_rules_get ::
  "'re vre_ops \<Rightarrow> 'w ws_ops \<Rightarrow> os \<Rightarrow> int \<Rightarrow> int \<Rightarrow> ('w, 'h) vrt_ctx \<Rightarrow> 're cfg_rules \<Rightarrow> string option
    \<Rightarrow> string option \<Rightarrow> (string option \<times> ('w, 'h) vrt_ctx \<times> 're cfg_rules \<times> os) res" where
  "vmod_rules_get re ops os now later ctx rules val fallback =
     res_bind (rules_check re os now later rules False False) (\<lambda>(_, rules', os').
       case copy_result ops ctx (first_match re val (rules_list rules') fallback) of
         (ctx', result) \<Rightarrow> Inr (result, ctx', rules', os'))"

section \<open>What a text stands for\<close>

text \<open>The meaning of one line, and of a whole text, without pointers.\<close>

definition rule_of_line :: "'re vre_ops \<Rightarrow> string \<Rightarrow> 're line_outcome" where
  "rule_of_line re l =
     (if lskip l = [] then Skipped
      else (case strstr (lskip l) ''->'' of
          None \<Rightarrow> Failed 1
        | Some k \<Rightarrow>
            if k = 0 then Failed 2
            else (case re_compile re (rstrip (take k (lskip l))) of
                None \<Rightarrow> Failed 3
              | Some vre \<Rightarrow> Parsed (new_rule vre (rstrip (lskip (drop (k + 2) (lskip l))))))))"

fun rules_of_lines :: "'re vre_ops \<Rightarrow> string list \<Rightarrow> 're rules option" where
  "rules_of_lines re [] = Some []"
| "rules_of_lines re (l # ls) =
     (case rule_of_line re l of
        Skipped \<Rightarrow> rules_of_lines re ls
      | Failed e \<Rightarrow> None
      | Parsed r \<Rightarrow> map_option (Cons r) (rules_of_lines re ls))"

fun split_lines :: "string \<Rightarrow> string list" where
  "split_lines [] = [[]]"
| "split_lines (c # cs) =
     (if c = EOL then [] # split_lines cs
      else (case split_lines cs of [] \<Rightarrow> [[c]] | l # ls \<Rightarrow> (c # l) # ls))"

lemma split_lines_last: "EOL \<notin> set l \<Longrightarrow> split_lines l = [l]"
  by (induction l) auto

lemma split_lines_break: "EOL \<notin> set l \<Longrightarrow> split_lines (l @ EOL # t) = l # split_lines t"
  by (induction l) auto

lemma flush_rules_all: "flush_rules rs = ([], rs)"
  by (induction rs) auto

lemma flush_rules_case: "(case flush_rules rs of (left, freed) \<Rightarrow> r) = r"
  by (simp split: prod.split)

section \<open>Pointers and strings\<close>

text \<open>
  \<open>b\<close> holds the line \<open>l\<close> at \<open>p\<close>, ended by a NUL byte: the shape of the buffer once the line has been
  isolated. Every pointer is then an offset into \<open>l\<close>.
\<close>

definition line_at :: "string \<Rightarrow> nat \<Rightarrow> string \<Rightarrow> bool" where
  "line_at b p l \<longleftrightarrow> p + length l < length b \<and> b ! (p + length l) = NUL \<and> NUL \<notin> set l
     \<and> (\<forall>i < length l. b ! (p + i) = l ! i)"

lemma line_at_drop:
  assumes "line_at b p l" "i \<le> length l"
  shows "line_at b (p + i) (drop i l)"
  using assms by (auto simp: line_at_def add.assoc dest: in_set_dropD)

lemma isspace_NUL [simp]: "\<not> isspace NUL"
  by (simp add: isspace_def)

lemma c_string_stop: "NUL \<notin> set l \<Longrightarrow> c_string (l @ NUL # rest) = l"
  by (induction l) (auto simp: c_string_def)

lemma c_at_line: "line_at b p l \<Longrightarrow> c_at b p = l"
proof -
  assume l: "line_at b p l"
  have "drop p b = l @ NUL # drop (Suc (p + length l)) b"
    using l by (intro nth_equalityI) (auto simp: line_at_def nth_append nth_Cons' add.commute add.left_commute)
  then show "c_at b p = l"
    using l by (simp add: c_at_def c_string_stop line_at_def)
qed

lemma line_at_end: "line_at b p l \<Longrightarrow> b ! p = NUL \<longleftrightarrow> l = []"
  by (cases l) (auto simp: line_at_def dest: spec[of _ 0])

lemma skip_spaces_line: "line_at b p l \<Longrightarrow>
    \<exists>i \<le> length l. skip_spaces b p = p + i \<and> drop i l = lskip l"
proof (induction l arbitrary: p)
  case Nil
  then show ?case by (simp add: skip_spaces.simps line_at_def)
next
  case (Cons c l)
  have here: "b ! p = c" "p < length b" "c \<noteq> NUL"
    using Cons.prems by (auto simp: line_at_def dest: spec[of _ 0])
  have "line_at b (p + 1) l"
    using line_at_drop[OF Cons.prems, of 1] by simp
  from Cons.IH[OF this] obtain i where "i \<le> length l" "skip_spaces b (p + 1) = p + 1 + i" "drop i l = lskip l"
    by blast
  then show ?case
    using here by (cases "isspace c") (auto simp: skip_spaces.simps[of b p] lskip_def intro: exI[of _ "Suc i"])
qed

lemma back_spaces_line: "line_at b p l \<Longrightarrow> i \<le> j \<Longrightarrow> j \<le> length l \<Longrightarrow>
    \<exists>k. i \<le> k \<and> k \<le> j \<and> back_spaces b (p + i) (p + j) = p + k \<and> take (k - i) (drop i l) = rstrip (take (j - i) (drop i l))"
proof (induction j)
  case 0
  then show ?case by (simp add: back_spaces.simps)
next
  case (Suc j)
  show ?case
  proof (cases "i = Suc j")
    case True
    then show ?thesis by (simp add: back_spaces.simps)
  next
    case False
    then have ij: "i \<le> j" "j < length l" using Suc.prems by auto
    have here: "b ! (p + j) = l ! j"
      using Suc.prems(1) ij by (simp add: line_at_def)
    have last: "take (Suc j - i) (drop i l) = take (j - i) (drop i l) @ [l ! j]"
      using ij by (simp add: Suc_diff_le take_Suc_conv_app_nth)
    obtain k where k: "i \<le> k" "k \<le> j" "back_spaces b (p + i) (p + j) = p + k"
        "take (k - i) (drop i l) = rstrip (take (j - i) (drop i l))"
      using Suc.IH Suc.prems(1) ij by auto
    show ?thesis
    proof (cases "isspace (l ! j)")
      case True
      then show ?thesis
        using k ij here last by (intro exI[of _ k]) (simp add: back_spaces.simps[of b "p + i" "Suc (p + j)"] rstrip_snoc)
    next
      case False
      then show ?thesis
        using ij here last Suc.prems
        by (intro exI[of _ "Suc j"]) (simp add: back_spaces.simps[of b "p + i" "Suc (p + j)"] rstrip_snoc)
    qed
  qed
qed

lemma line_at_cut:
  assumes "line_at b p l" "j \<le> length l" "length b' = length b" "b' ! (p + j) = NUL"
    and "\<And>k. k < j \<Longrightarrow> b' ! (p + k) = b ! (p + k)"
  shows "line_at b' p (take j l)"
  using assms by (auto simp: line_at_def dest: in_set_takeD)

lemma strstr_Some: "strstr s needle = Some k \<Longrightarrow> k + length needle \<le> length s"
proof (induction s needle arbitrary: k rule: strstr.induct)
  case (2 c cs needle)
  then show ?case
    using length_take[of "length needle" "c # cs"]
    by (auto simp: has_prefix_iff min_def split: if_splits simp del: length_take)
qed (auto split: if_splits)

lemma two_writes_undone:
  "x \<noteq> y \<Longrightarrow> b[x := c, y := d, x := b ! x, y := b[x := c] ! y] = b"
  by (cases "x < length b"; cases "y < length b") (auto simp: list_eq_iff_nth_eq nth_list_update)

text \<open>The two strings of a rule, once their ends have been overwritten with NUL.\<close>

lemma rule_cut_line:
  assumes "line_at b p l" "i \<le> length l" "drop i l = lskip l" "strstr (lskip l) ''->'' = Some k"
  obtains e a w where "back_spaces b (p + i) (p + i + k) = p + i + e" "skip_spaces b (p + i + k + 2) = p + a"
    and "back_spaces b (p + a) (p + length l) = p + w" "p + i + e \<noteq> p + w"
    and "c_at (b[p + i + e := NUL, p + w := NUL]) (p + i) = rstrip (take k (lskip l))"
    and "c_at (b[p + i + e := NUL, p + w := NUL]) (p + a) = rstrip (lskip (drop (k + 2) (lskip l)))"
proof -
  note m = line_at_drop[OF assms(1,2), unfolded assms(3)]
  have len: "length (lskip l) = length l - i" using assms(3) by (metis length_drop)
  have k: "i + k + 2 \<le> length l" using strstr_Some[OF assms(4)] len assms(2) by simp
  have "k \<le> length (lskip l)" using k len by linarith
  then obtain e where e: "e \<le> k" "back_spaces b (p + i) (p + i + k) = p + i + e"
      "take e (lskip l) = rstrip (take k (lskip l))"
    using back_spaces_line[OF m, of 0 k] by auto
  have rest: "drop (k + 2) (lskip l) = drop (i + k + 2) l"
    by (simp add: assms(3)[symmetric] add.commute add.left_commute)
  obtain v where v: "v \<le> length l - (i + k + 2)" "skip_spaces b (p + (i + k + 2)) = p + (i + k + 2) + v"
      "drop v (drop (i + k + 2) l) = lskip (drop (i + k + 2) l)"
    using skip_spaces_line[OF line_at_drop[OF assms(1) k]] by auto
  define a where "a = i + k + 2 + v"
  have a: "a \<le> length l" "skip_spaces b (p + i + k + 2) = p + a"
      "drop a l = lskip (drop (k + 2) (lskip l))"
    using v k rest by (simp_all add: a_def ac_simps)
  obtain w where w: "a \<le> w" "w \<le> length l" "back_spaces b (p + a) (p + length l) = p + w"
      "take (w - a) (drop a l) = rstrip (drop a l)"
    using back_spaces_line[OF assms(1) a(1) order_refl] by auto
  have apart: "p + i + e \<noteq> p + w" "i + e < a" "i + e < w" "p + w < length b" "p + i + e < length b"
    using e w(1,2) assms(1) by (auto simp: a_def line_at_def)
  let ?b2 = "b[p + i + e := NUL, p + w := NUL]"
  have "line_at ?b2 (p + i) (take e (lskip l))"
    using m e(1) k len apart by (intro line_at_cut[OF m]) (auto simp: nth_list_update)
  then have re: "c_at ?b2 (p + i) = rstrip (take k (lskip l))"
    using c_at_line e(3) by simp
  have "line_at ?b2 (p + a) (take (w - a) (drop a l))"
    using w apart by (intro line_at_cut[OF line_at_drop[OF assms(1) a(1)]]) (auto simp: nth_list_update)
  then have val: "c_at ?b2 (p + a) = rstrip (lskip (drop (k + 2) (lskip l)))"
    using c_at_line w(4) a(3) by simp
  show thesis by (rule that[OF e(2) a(2) w(3) apart(1) re val])
qed

text \<open>An isolated line is parsed like its string, and the buffer is as before.\<close>

lemma rules_isolated_line:
  assumes "line_at b p l"
  shows "rules_isolated re b p (p + length l) = (rule_of_line re l, b)"
proof -
  obtain i where i: "i \<le> length l" "skip_spaces b p = p + i" "drop i l = lskip l"
    using skip_spaces_line[OF assms] by blast
  note m = line_at_drop[OF assms i(1), unfolded i(3)]
  note simps = rules_isolated_def rule_of_line_def Let_def
  consider (blank) "lskip l = []" | (none) "lskip l \<noteq> []" "strstr (lskip l) ''->'' = None"
    | (empty) "lskip l \<noteq> []" "strstr (lskip l) ''->'' = Some 0"
    | (rule) k where "lskip l \<noteq> []" "strstr (lskip l) ''->'' = Some k" "k \<noteq> 0"
    by (cases "strstr (lskip l) ''->''") auto
  then show ?thesis
  proof cases
    case (rule k)
    obtain e a w where cut: "back_spaces b (p + i) (p + i + k) = p + i + e" "skip_spaces b (p + i + k + 2) = p + a"
        "back_spaces b (p + a) (p + length l) = p + w" "p + i + e \<noteq> p + w"
        "c_at (b[p + i + e := NUL, p + w := NUL]) (p + i) = rstrip (take k (lskip l))"
        "c_at (b[p + i + e := NUL, p + w := NUL]) (p + a) = rstrip (lskip (drop (k + 2) (lskip l)))"
      by (rule rule_cut_line[OF assms i(1,3) rule(2)])
    have ne: "b ! (p + i) \<noteq> NUL" "p + i + k \<noteq> p + i" using line_at_end[OF m] rule by auto
    show ?thesis
      unfolding rules_isolated_def Let_def i(2) c_at_line[OF m] rule(2) option.case if_not_P[OF ne(1)]
        if_not_P[OF ne(2)] cut two_writes_undone[OF cut(4)]
      using rule by (simp add: rule_of_line_def del: drop_drop)
  qed (use line_at_end[OF m] i(2) c_at_line[OF m] in \<open>simp_all add: simps\<close>)
qed

section \<open>The loop, line by line\<close>

definition holds_text :: "string \<Rightarrow> nat \<Rightarrow> string \<Rightarrow> bool" where
  "holds_text b p t \<longleftrightarrow> p \<le> length b \<and> drop p b = t @ [NUL] \<and> NUL \<notin> set t"

lemma holds_text_line: "holds_text b p t \<Longrightarrow> line_at b p t"
proof -
  assume t: "holds_text b p t"
  have "b ! (p + i) = (t @ [NUL]) ! i" for i
    using t by (metis holds_text_def nth_drop)
  moreover have "length b = p + length t + 1"
    using t by (metis (no_types, lifting) add.assoc holds_text_def le_add_diff_inverse length_append length_drop
        length_Cons list.size(3) One_nat_def)
  ultimately show ?thesis
    using t by (auto simp: line_at_def holds_text_def nth_append)
qed

lemma rules_line_last:
  assumes "holds_text b p t" "EOL \<notin> set t"
  shows "rules_line re b p = (rule_of_line re t, b, p + length t)"
proof -
  note t = holds_text_line[OF assms(1)]
  have "b[p + length t := NUL] = b" "b ! (p + length t) = NUL"
    using t list_update_id[of b "p + length t"] by (simp_all add: line_at_def)
  moreover have none: "strchr t EOL = None"
    using assms(2) by simp
  ultimately show ?thesis
    unfolding rules_line_def c_at_line[OF t] none option.case by (simp add: rules_isolated_line[OF t])
qed

lemma rules_line_break:
  assumes "holds_text b p (l @ EOL # u)" "EOL \<notin> set l"
  shows "rules_line re b p = (rule_of_line re l, b, p + length l + 1)
    \<and> holds_text b (p + length l + 1) u"
proof -
  note t = holds_text_line[OF assms(1)]
  have eol: "b ! (p + length l) = EOL" "p + length l < length b"
    using t by (auto simp: line_at_def dest: spec[of _ "length l"])
  have "line_at (b[p + length l := NUL]) p (take (length l) (l @ EOL # u))"
    using eol by (intro line_at_cut[OF t]) auto
  then have l: "line_at (b[p + length l := NUL]) p l" by simp
  have undone: "b[p + length l := NUL, p + length l := EOL] = b"
    using eol(1) list_update_id[of b "p + length l"] by simp
  have "drop (length l + 1) (drop p b) = u @ [NUL]"
    using assms(1) by (simp add: holds_text_def del: drop_drop)
  then have "holds_text b (p + length l + 1) u"
    using assms(1) eol(2) by (simp add: holds_text_def ac_simps)
  then show ?thesis
    using undone eol(1)
    by (simp add: rules_line_def c_at_line[OF t] strchr_append[OF assms(2)] rules_isolated_line[OF l])
qed

lemma rules_loop_text:
  assumes "holds_text b p t"
  shows "rules_loop re b p acc = Inr (map_option ((@) acc) (rules_of_lines re (split_lines t)), b)"
  using assms
proof (induction "length t" arbitrary: t p acc rule: less_induct)
  case less
  note t = holds_text_line[OF less.prems]
  have inside: "\<not> length b \<le> p"
    using t by (simp add: line_at_def)
  have halt: "rules_loop re b q acc' = Inr (Some acc', b)" if "q < length b" "b ! q = NUL" for q acc'
    using that by (simp add: rules_loop.simps[of re b q])
  show ?case
  proof (cases "t = []")
    case True
    then show ?thesis
      using inside line_at_end[OF t] halt by (simp add: rule_of_line_def)
  next
    case False
    then have nul: "b ! p \<noteq> NUL"
      using line_at_end[OF t] by simp
    show ?thesis
    proof (cases "EOL \<in> set t")
      case True
      then obtain l u where lu: "t = l @ EOL # u" "EOL \<notin> set l"
        using split_list_first by fast
      note line = rules_line_break[OF less.prems[unfolded lu(1)] lu(2), of re]
      note rest = less.hyps[of u "p + length l + 1", OF _ conjunct2[OF line]]
      show ?thesis
        using inside nul conjunct1[OF line] rest lu split_lines_break[OF lu(2), of u]
        by (cases "rule_of_line re l"; cases "rules_of_lines re (split_lines u)")
           (simp_all add: rules_loop.simps[of re b p] flush_rules_case)
    next
      case last: False
      have stop: "p + length t < length b" "b ! (p + length t) = NUL"
        using t by (simp_all add: line_at_def)
      show ?thesis
        using inside nul rules_line_last[OF less.prems last, of re] halt[OF stop] split_lines_last[OF last]
        by (cases "rule_of_line re t") (simp_all add: rules_loop.simps[of re b p] flush_rules_case)
    qed
  qed
qed

lemma rules_parse_text:
  "NUL \<notin> set t \<Longrightarrow> rules_parse re (t @ [NUL]) = Inr (rules_of_lines re (split_lines t), t @ [NUL])"
proof -
  assume "NUL \<notin> set t"
  then have "holds_text (t @ [NUL]) 0 t" by (simp add: holds_text_def)
  from rules_loop_text[OF this, of re "[]"] show ?thesis
    by (cases "rules_of_lines re (split_lines t)") (simp_all add: rules_parse_def)
qed

section \<open>Rules are a client of their remote\<close>

lemma rules_callback_text:
  assumes "NUL \<notin> set t"
  shows "rules_check_callback re rs t b =
    (case rules_of_lines re (split_lines t) of
       None \<Rightarrow> Inr (False, t, rs) | Some rs' \<Rightarrow> Inr (True, t, rs'))"
  by (simp add: rules_check_callback_def rules_parse_text[OF assms] c_string_stop[OF assms] flush_rules_case
      split: option.splits)

interpretation rules_client: remote_client "rules_check_callback re" "\<lambda>rs. True" "\<lambda>rs rs'. rs' = rs" "\<lambda>rs. rs"
  for re :: "'re vre_ops"
  by unfold_locales (auto simp: rules_callback_text split: option.splits)

interpretation rules_loader: total_loader "rules_check_callback re" "\<lambda>rs. True" "\<lambda>rs rs'. rs' = rs"
  for re :: "'re vre_ops"
  by unfold_locales (auto simp: rules_callback_text split: option.splits)

lemma rules_reload_outcome:
  assumes "rules_check re os now later rules True force_backup = Inr (result, rules', os')"
  shows "if result
    then \<exists>t. t \<noteq> [] \<and> NUL \<notin> set t \<and> rules_of_lines re (split_lines t) = Some (rules_list rules')
      \<and> contents (rules_remote rules') = Some t \<and> tst (rules_remote rules') = later
      \<and> (read_remote os (rules_remote rules) = Inr (Some t) \<or> read_backup os (rules_remote rules) = Inr (Some t))
    else rules' = rules \<and> os' = os"
proof -
  obtain r rs where check: "check_remote os True force_backup (rules_check_callback re) now later
      (rules_remote rules) (rules_list rules) = Inr (result, r, os', rs)"
    and rules': "rules' = rules\<lparr>rules_remote := r, rules_list := rs\<rparr>"
    using assms by (auto simp: rules_check_def res_bind_eq_Inr_iff)
  note outcome = rules_client.check_outcome[OF TrueI check]
  show ?thesis
  proof (cases result)
    case True
    then obtain t b where t: "t \<noteq> []" "rules_check_callback re (rules_list rules) t b = Inr (True, t, rs)"
        "r = (rules_remote rules)\<lparr>contents := Some t, tst := later\<rparr>"
        "read_remote os (rules_remote rules) = Inr (Some t) \<or> read_backup os (rules_remote rules) = Inr (Some t)"
      using outcome by (auto split: if_splits)
    have nul: "NUL \<notin> set t"
      using t(4) read_remote_no_nul read_backup_no_nul by blast
    then have "rules_of_lines re (split_lines t) = Some rs"
      using t(2) by (auto simp: rules_callback_text split: option.splits)
    then show ?thesis using True t nul rules' by auto
  next
    case False
    then show ?thesis using outcome rules' by simp
  qed
qed

section \<open>Rendering\<close>

text \<open>
  The rules a person writes: \<open>regexp -> value\<close>, a line each. A regexp can be written when it is not
  empty, does not contain the arrow and does not begin or end with a space.
\<close>

definition trimmed :: "string \<Rightarrow> bool" where
  "trimmed s \<longleftrightarrow> (s = [] \<or> \<not> isspace (hd s) \<and> \<not> isspace (last s)) \<and> EOL \<notin> set s \<and> NUL \<notin> set s"

definition good_rule :: "string \<times> string \<Rightarrow> bool" where
  "good_rule r \<longleftrightarrow> trimmed (fst r) \<and> fst r \<noteq> [] \<and> strstr (fst r) ''->'' = None \<and> trimmed (snd r)"

fun render_rule :: "string \<times> string \<Rightarrow> string" where
  "render_rule (re, v) = re @ '' -> '' @ v @ [EOL]"

definition render_rules :: "(string \<times> string) list \<Rightarrow> string" where
  "render_rules rs = concat (map render_rule rs)"

text \<open>What the rules mean: compile each regexp, in order.\<close>

fun compile_rules :: "'re vre_ops \<Rightarrow> (string \<times> string) list \<Rightarrow> 're rules option" where
  "compile_rules re [] = Some []"
| "compile_rules re ((t, v) # rs) =
     (case re_compile re t of
        None \<Rightarrow> None
      | Some vre \<Rightarrow> map_option (Cons (new_rule vre v)) (compile_rules re rs))"

lemma strstr_arrow: "strstr s ''->'' = None \<Longrightarrow> strstr (s @ '' -> '' @ v) ''->'' = Some (length s + 1)"
proof (induction s)
  case (Cons c s)
  then show ?case
    by (cases s) (auto split: if_splits)
qed simp

lemma rule_of_rendered:
  assumes "good_rule (t, v)"
  shows "rule_of_line re (t @ '' -> '' @ v)
    = (case re_compile re t of None \<Rightarrow> Failed 3 | Some vre \<Rightarrow> Parsed (new_rule vre v))"
proof -
  have t: "t \<noteq> []" "\<not> isspace (hd t)" "\<not> isspace (last t)" "strstr t ''->'' = None"
    using assms by (auto simp: good_rule_def trimmed_def)
  have whole: "lskip (t @ '' -> '' @ v) = t @ '' -> '' @ v"
    using t by (intro lskip_id) simp
  have cut: "drop (length t + 1 + 2) (t @ '' -> '' @ v) = CHR '' '' # v"
    by simp
  have "rstrip (t @ '' '') = t"
    using t by (simp add: rstrip_snoc isspace_def rstrip_id)
  moreover have "rstrip (lskip (CHR '' '' # v)) = v"
    using assms by (auto simp: lskip_Cons isspace_def good_rule_def trimmed_def lskip_id rstrip_id)
  ultimately show ?thesis
    using t unfolding rule_of_line_def whole strstr_arrow[OF t(4)] option.case cut
    by (simp split: option.split)
qed

lemma parse_rendered:
  "\<forall>r \<in> set rs. good_rule r \<Longrightarrow> rules_of_lines re (split_lines (render_rules rs)) = compile_rules re rs"
proof (induction rs)
  case Nil
  then show ?case by (simp add: render_rules_def rule_of_line_def)
next
  case (Cons r rs)
  obtain t v where r: "r = (t, v)" by (cases r)
  have good: "good_rule (t, v)" "EOL \<notin> set (t @ '' -> '' @ v)"
    using Cons.prems r by (auto simp: good_rule_def trimmed_def)
  have "render_rules (r # rs) = (t @ '' -> '' @ v) @ EOL # render_rules rs"
    by (simp add: render_rules_def r)
  then show ?case
    using split_lines_break[OF good(2), of "render_rules rs"] rule_of_rendered[OF good(1), of re] Cons r
    by (cases "re_compile re t") simp_all
qed

lemma render_no_nul: "\<forall>r \<in> set rs. good_rule r \<Longrightarrow> NUL \<notin> set (render_rules rs)"
  by (induction rs) (auto simp: render_rules_def good_rule_def trimmed_def)

section \<open>Properties\<close>

definition sample_rules :: "string cfg_rules" where
  "sample_rules = \<lparr>rules_name = ''r'', rules_remote = sample_remote, rules_list = []\<rparr>"

text \<open>
  C4: The in-place parser, on every text: it returns, reads nothing outside the buffer, gives the
  buffer back byte for byte, and its answer is that of reading the text line by line. Blank
  lines are skipped; a line without \<open>->\<close>, with nothing before it or with a regexp that does not
  compile rejects the whole text; spaces around regexp and value do not count.
\<close>

theorem rules_parse_is_line_by_line:
  assumes "NUL \<notin> set t"
  shows "rules_parse re (t @ [NUL]) = Inr (rules_of_lines re (split_lines t), t @ [NUL])"
  using assms by (rule rules_parse_text)

theorem rules_parse_is_line_by_line_witness:
  "rules_parse literal_vre ('' a->  b '' @ [EOL, EOL] @ ''c -> d'' @ [NUL])
    = Inr (Some [new_rule ''a'' ''b'', new_rule ''c'' ''d''], '' a->  b '' @ [EOL, EOL] @ ''c -> d'' @ [NUL])"
  using rules_parse_is_line_by_line[of "'' a->  b '' @ [EOL, EOL] @ ''c -> d''" literal_vre]
  by (simp add: rule_of_line_def lskip_def rstrip_def isspace_def literal_vre_def numeral_eq_Suc)

text \<open>
  Render and parse. A text written from rules, a \<open>regexp -> value\<close> line each, parses to the
  compiled regexps with their values, in the order they were written, and is rejected exactly
  when one of the regexps does not compile.
\<close>

lemma rules_round_trip:
  assumes "\<forall>r \<in> set rs. good_rule r"
  shows "rules_parse re (render_rules rs @ [NUL]) = Inr (compile_rules re rs, render_rules rs @ [NUL])"
  by (simp add: rules_parse_text[OF render_no_nul[OF assms]] parse_rendered[OF assms])

definition sample_rule_list :: "(string \<times> string) list" where
  "sample_rule_list = [(''/x-y'', ''one two''), (''/x'', ''2''), (''/'', ''- > 3'')]"

lemma sample_rule_list_good: "\<forall>r \<in> set sample_rule_list. good_rule r"
  by (simp add: sample_rule_list_def good_rule_def trimmed_def isspace_def)

lemma sample_rule_list_compiled:
  "compile_rules literal_vre sample_rule_list
    = Some [new_rule ''/x-y'' ''one two'', new_rule ''/x'' ''2'', new_rule ''/'' ''- > 3'']"
  by (simp add: sample_rule_list_def literal_vre_def)

text \<open>
  Last known good. A forced reload of the rules that fails leaves the object and the disk as
  they were; one that succeeds leaves exactly the rules of a non-empty text it read, and
  remembers that text.
\<close>

lemma rules_reload_last_known_good:
  assumes "vmod_rules_reload re os now later rules force_backup = Inr (result, rules', os')"
  shows "if result
    then \<exists>t. t \<noteq> [] \<and> NUL \<notin> set t \<and> rules_of_lines re (split_lines t) = Some (rules_list rules')
      \<and> contents (rules_remote rules') = Some t \<and> tst (rules_remote rules') = later
      \<and> (read_remote os (rules_remote rules) = Inr (Some t) \<or> read_backup os (rules_remote rules) = Inr (Some t))
    else rules' = rules \<and> os' = os"
  by (rule rules_reload_outcome[OF assms[unfolded vmod_rules_reload_def]])

lemma load_good_rules:
  assumes "\<forall>r \<in> set rs. good_rule r" "rs \<noteq> []" "compile_rules re rs = Some crs"
    and "read_remote os r = Inr (Some (render_rules rs))"
  shows "\<exists>os'. load_remote os force_backup (rules_check_callback re) r old
    = Inr (True, store_contents (render_rules rs) r, os', crs)"
proof -
  have "rules_check_callback re old (render_rules rs) False = Inr (True, render_rules rs, crs)"
    using assms(3) by (simp add: rules_callback_text[OF render_no_nul[OF assms(1)]] parse_rendered[OF assms(1)])
  moreover have "render_rules rs \<noteq> []"
    using assms(2) by (cases rs) (auto simp: render_rules_def)
  ultimately show ?thesis
    using assms(4) by (simp add: load_remote_def offer_def Let_def)
qed

lemma first_match_compiled:
  assumes "compile_rules re rs = Some crs" "rs = before_rs @ (t, v) # after_rs"
    and "\<forall>(t', v') \<in> set before_rs. \<forall>vre. re_compile re t' = Some vre \<longrightarrow> \<not> re_match re vre val"
    and "re_compile re t = Some vre" "re_match re vre val"
  shows "first_match re val crs fallback = Some v"
  using assms
proof (induction before_rs arbitrary: rs crs)
  case (Cons r before_rs)
  then show ?case
    by (cases r) (force split: option.splits simp: new_rule_def)
qed (auto split: option.splits simp: new_rule_def)



end
