(* ===== verification/Swapping.thy ===== *)
theory Swapping
  imports File Rules Ownership
begin

text \<open>
  How \<open>cfg.file\<close> and \<open>cfg.rules\<close> replace their contents while other threads read them. A callback builds
  a new container, swaps the pointer under the write lock and flushes the old one after it; readers
  follow the pointer under the read lock. \<open>File\<close> and \<open>Rules\<close> have the same code as seen by one thread;
  here every point where threads can interleave is a step. Containers are addresses in a heap.
\<close>

section \<open>Objects, threads and steps\<close>

text \<open>
  \<open>sw_readers\<close> and \<open>sw_writer\<close> are the threads that hold \<open>state.rwlock\<close>, which POSIX gives to many readers
  or to one writer. A thread is \<open>Inside\<close> between \<open>rdlock\<close> and \<open>unlock\<close>; \<open>Loose\<close> when it left with a pointer to
  the item \<open>n\<close> of the container; \<open>Parsed\<close>, \<open>Writing\<close> and \<open>Swapped\<close> before the write lock, with it, and with
  it after the swap; \<open>Retiring\<close> when the lock is released and the old container not yet freed.
\<close>

datatype stage = Away | Inside | Loose nat nat | Parsed_New nat | Writing nat | Swapped nat | Retiring nat

record 'c swap_sys =
  sw_current :: nat
  sw_heap :: "nat \<Rightarrow> 'c option"
  sw_readers :: "nat set"
  sw_writer :: "nat option"
  sw_stage :: "nat \<Rightarrow> stage"

text \<open>\<open>old = file->state.variables; file->state.variables = variables;\<close>, and so for the rules.\<close>

definition swap_in :: "nat \<Rightarrow> 'c swap_sys \<Rightarrow> nat \<times> 'c swap_sys" where
  "swap_in a s = (sw_current s, s\<lparr>sw_current := a\<rparr>)"

text \<open>What follows the pointer of the object, and what flushes and frees a container.\<close>

definition at_current :: "('c \<Rightarrow> 'r) \<Rightarrow> 'c swap_sys \<Rightarrow> 'r res" where
  "at_current read s = (case sw_heap s (sw_current s) of None \<Rightarrow> Inl Use_After_Free | Some c \<Rightarrow> Inr (read c))"

definition retire :: "('c \<Rightarrow> unit res) \<Rightarrow> nat \<Rightarrow> 'c swap_sys \<Rightarrow> 'c swap_sys res" where
  "retire flush old s =
     (case sw_heap s old of
        None \<Rightarrow> Inl Use_After_Free
      | Some c \<Rightarrow> res_bind (flush c) (\<lambda>_. Inr (s\<lparr>sw_heap := (sw_heap s)(old := None)\<rparr>)))"

text \<open>\<open>flush_global_variables(old); free(old);\<close> and \<open>flush_rules(old); free(old);\<close>.\<close>

definition file_flush :: "variables \<Rightarrow> unit res" where
  "file_flush vs = res_bind (flush_global_variables vs) (\<lambda>_. Inr ())"

definition rules_flush :: "'re rules \<Rightarrow> unit res" where
  "rules_flush rs = (case flush_rules rs of (_, freed) \<Rightarrow> Inr ())"

text \<open>The body of \<open>vmod_file_get\<close> between the lock and the unlock.\<close>

definition file_get_inside ::
  "'w ws_ops \<Rightarrow> ('w, 'h) vrt_ctx \<Rightarrow> string option \<Rightarrow> string option \<Rightarrow> variables swap_sys \<Rightarrow> (('w, 'h) vrt_ctx \<times> string option) res" where
  "file_get_inside ops ctx name fallback = at_current (\<lambda>vs. get_variable ops ctx vs name fallback)"

text \<open>
  The loop of \<open>vmod_rules_get\<close>, under the lock, finds a rule; the copy of its value is after the unlock. The
  pointer \<open>result\<close> is the rule's place in its container, or the fallback.
\<close>

fun matching_rule :: "'re vre_ops \<Rightarrow> string option \<Rightarrow> 're rules \<Rightarrow> nat option" where
  "matching_rule re val [] = None"
| "matching_rule re val (r # rs) = (if re_match re (rule_vre r) val then Some 0 else map_option Suc (matching_rule re val rs))"

definition rules_get_inside :: "'re vre_ops \<Rightarrow> string option \<Rightarrow> 're rules swap_sys \<Rightarrow> nat option res" where
  "rules_get_inside re val = at_current (matching_rule re val)"

definition rules_get_copy ::
  "'w ws_ops \<Rightarrow> ('w, 'h) vrt_ctx \<Rightarrow> nat \<Rightarrow> nat option \<Rightarrow> string option \<Rightarrow> 're rules swap_sys \<Rightarrow> (('w, 'h) vrt_ctx \<times> string option) res" where
  "rules_get_copy ops ctx a result fallback s =
     (case result of
        None \<Rightarrow> Inr (copy_result ops ctx fallback)
      | Some n \<Rightarrow>
          (case sw_heap s a of
             None \<Rightarrow> Inl Use_After_Free
           | Some rs \<Rightarrow> if n < length rs then Inr (copy_result ops ctx (Some (rule_value (rs ! n)))) else Inl Use_After_Free))"

text \<open>
  The threads. \<open>keep q c\<close> is the item of \<open>c\<close> that the answer to the call \<open>q\<close> points to after the unlock, if
  it does. \<open>calloc\<close> gives a new container an address that is free, which may have been used before.
\<close>

inductive swap_step ::
  "('q \<Rightarrow> 'c \<Rightarrow> nat option) \<Rightarrow> ('c \<Rightarrow> bool) \<Rightarrow> ('c \<Rightarrow> unit res) \<Rightarrow> 'c swap_sys \<Rightarrow> 'c swap_sys \<Rightarrow> bool"
  for keep good flush where
  sw_rdlock: "sw_stage s i = Away \<Longrightarrow> sw_writer s = None \<Longrightarrow>
    swap_step keep good flush s (s\<lparr>sw_readers := insert i (sw_readers s), sw_stage := (sw_stage s)(i := Inside)\<rparr>)"
| sw_leave: "sw_stage s i = Inside \<Longrightarrow> at_current (keep q) s = Inr found \<Longrightarrow>
    swap_step keep good flush s (s\<lparr>sw_readers := sw_readers s - {i}, sw_stage := (sw_stage s)(i :=
      (case found of None \<Rightarrow> Away | Some n \<Rightarrow> Loose (sw_current s) n))\<rparr>)"
| sw_copied: "sw_stage s i = Loose a n \<Longrightarrow>
    swap_step keep good flush s (s\<lparr>sw_stage := (sw_stage s)(i := Away)\<rparr>)"
| sw_parsed: "sw_stage s i = Away \<Longrightarrow> sw_heap s a = None \<Longrightarrow> good c \<Longrightarrow>
    swap_step keep good flush s (s\<lparr>sw_heap := (sw_heap s)(a \<mapsto> c), sw_stage := (sw_stage s)(i := Parsed_New a)\<rparr>)"
| sw_wrlock: "sw_stage s i = Parsed_New a \<Longrightarrow> sw_writer s = None \<Longrightarrow> sw_readers s = {} \<Longrightarrow>
    swap_step keep good flush s (s\<lparr>sw_writer := Some i, sw_stage := (sw_stage s)(i := Writing a)\<rparr>)"
| sw_swap: "sw_stage s i = Writing a \<Longrightarrow> swap_in a s = (old, s') \<Longrightarrow>
    swap_step keep good flush s (s'\<lparr>sw_stage := (sw_stage s')(i := Swapped old)\<rparr>)"
| sw_unlock: "sw_stage s i = Swapped old \<Longrightarrow>
    swap_step keep good flush s (s\<lparr>sw_writer := None, sw_stage := (sw_stage s)(i := Retiring old)\<rparr>)"
| sw_retire: "sw_stage s i = Retiring old \<Longrightarrow> retire flush old s = Inr s' \<Longrightarrow>
    swap_step keep good flush s (s'\<lparr>sw_stage := (sw_stage s')(i := Away)\<rparr>)"

definition swap_init :: "'c \<Rightarrow> 'c swap_sys" where
  "swap_init c = \<lparr>sw_current = 0, sw_heap = [0 \<mapsto> c], sw_readers = {}, sw_writer = None, sw_stage = (\<lambda>i. Away)\<rparr>"

definition swap_reachable ::
  "('q \<Rightarrow> 'c \<Rightarrow> nat option) \<Rightarrow> ('c \<Rightarrow> bool) \<Rightarrow> ('c \<Rightarrow> unit res) \<Rightarrow> 'c \<Rightarrow> 'c swap_sys \<Rightarrow> bool" where
  "swap_reachable keep good flush c = (swap_step keep good flush)\<^sup>*\<^sup>* (swap_init c)"

section \<open>Who owns which container\<close>

text \<open>The container a thread is about to install or to free.\<close>

fun owned :: "stage \<Rightarrow> nat option" where
  "owned (Parsed_New a) = Some a"
| "owned (Writing a) = Some a"
| "owned (Swapped a) = Some a"
| "owned (Retiring a) = Some a"
| "owned _ = None"

fun writes :: "stage \<Rightarrow> bool" where
  "writes (Writing a) = True"
| "writes (Swapped a) = True"
| "writes _ = False"

text \<open>The lock is held by those who are inside.\<close>

definition lock_ok :: "nat option \<Rightarrow> nat set \<Rightarrow> (nat \<Rightarrow> bool) \<Rightarrow> nat set \<Rightarrow> bool" where
  "lock_ok writer readers writing inside \<longleftrightarrow>
     readers = inside \<and> (\<forall>i. writing i \<longleftrightarrow> writer = Some i) \<and> (writer = None \<or> readers = {})"

definition swap_inv :: "('c \<Rightarrow> bool) \<Rightarrow> 'c swap_sys \<Rightarrow> bool" where
  "swap_inv good s \<longleftrightarrow>
     lock_ok (sw_writer s) (sw_readers s) (\<lambda>i. writes (sw_stage s i)) {i. sw_stage s i = Inside}
     \<and> own_ok good (Some (sw_current s)) (sw_heap s) (\<lambda>i. owned (sw_stage s i))"

lemma stage_upd:
  "(\<lambda>j. owned ((f(i := p)) j)) = (\<lambda>j. owned (f j))(i := owned p)"
  "(\<lambda>j. writes ((f(i := p)) j)) = (\<lambda>j. writes (f j))(i := writes p)"
  "{j. (f(i := p)) j = Inside} = (if p = Inside then insert i {j. f j = Inside} else {j. f j = Inside} - {i})"
  by auto

lemma stage_same:
  "owned p = owned (f i) \<Longrightarrow> (\<lambda>j. owned ((f(i := p)) j)) = (\<lambda>j. owned (f j))"
  "writes p = writes (f i) \<Longrightarrow> (\<lambda>j. writes ((f(i := p)) j)) = (\<lambda>j. writes (f j))"
  by auto

lemma swap_step_inv:
  assumes "swap_step keep good flush s s'" "swap_inv good s"
  shows "swap_inv good s'"
  using assms
proof (induction rule: swap_step.induct)
  case (sw_rdlock s i)
  then show ?case by (simp add: swap_inv_def stage_upd fun_upd_idem lock_ok_def del: fun_upd_apply)
next
  case (sw_leave s i q found)
  then show ?case by (auto simp: swap_inv_def stage_upd fun_upd_idem lock_ok_def simp del: fun_upd_apply split: option.splits)
next
  case (sw_copied s i a n)
  then show ?case by (auto simp: swap_inv_def stage_same stage_upd(3) lock_ok_def simp del: fun_upd_apply)
next
  case (sw_parsed s i a c)
  then show ?case
    by (auto simp: swap_inv_def stage_same(2) stage_upd(1,3) own_ok_new lock_ok_def simp del: fun_upd_apply)
next
  case (sw_wrlock s i a)
  then show ?case
    by (auto simp: swap_inv_def stage_same(1) stage_upd(2,3) lock_ok_def simp del: fun_upd_apply) (auto split: if_splits)
next
  case (sw_swap s i a old s')
  then show ?case
    by (auto simp: swap_inv_def swap_in_def stage_upd fun_upd_idem own_ok_swap lock_ok_def simp del: fun_upd_apply)
next
  case (sw_unlock s i old)
  then show ?case
    by (auto simp: swap_inv_def stage_same(1) stage_upd(2,3) lock_ok_def simp del: fun_upd_apply) (auto split: if_splits)
next
  case (sw_retire s i old s')
  then show ?case
    by (auto simp: swap_inv_def retire_def res_bind_eq_Inr_iff stage_upd fun_upd_idem own_ok_free lock_ok_def
        simp del: fun_upd_apply split: option.splits)
qed

lemma swap_reachable_inv:
  assumes "swap_reachable keep good flush c s" "good c"
  shows "swap_inv good s"
  using assms(1) unfolding swap_reachable_def
proof (induction rule: rtranclp_induct)
  case base
  show ?case using assms(2) by (simp add: swap_inv_def swap_init_def lock_ok_def own_ok_def)
qed (rule swap_step_inv)

section \<open>A client\<close>

text \<open>
  What an object promises about its containers: those it installs are good, and a good one can be
  flushed. What follows holds with pointers that outlive the lock as well as without.
\<close>

locale swap_client =
  fixes keep :: "'q \<Rightarrow> 'c \<Rightarrow> nat option"
    and good :: "'c \<Rightarrow> bool"
    and flush :: "'c \<Rightarrow> unit res"
  assumes flush_good: "good c \<Longrightarrow> flush c = Inr ()"
begin

lemma reachable_inv: "swap_reachable keep good flush c s \<Longrightarrow> good c \<Longrightarrow> swap_inv good s"
  by (rule swap_reachable_inv)

lemma reachable_own:
  assumes "swap_reachable keep good flush c s" "good c"
  shows "own_ok good (Some (sw_current s)) (sw_heap s) (\<lambda>i. owned (sw_stage s i))"
  using reachable_inv[OF assms] by (simp add: swap_inv_def)

text \<open>Who is inside finds a live container, alone with other readers.\<close>

lemma inside_reads:
  assumes "swap_reachable keep good flush c s" "good c"
  shows "\<exists>d. sw_heap s (sw_current s) = Some d \<and> good d \<and> at_current read s = Inr (read d)"
proof -
  have "sw_heap s (sw_current s) \<noteq> None" using own_okD(4)[OF reachable_own[OF assms], of "sw_current s" 0] by simp
  then obtain d where "sw_heap s (sw_current s) = Some d" by blast
  then show ?thesis using own_okD(3)[OF reachable_own[OF assms]] by (simp add: at_current_def)
qed

lemma inside_excludes:
  assumes "swap_reachable keep good flush c s" "good c" "sw_stage s i = Inside"
  shows "\<not> writes (sw_stage s j)"
  using reachable_inv[OF assms(1,2)] assms(3) by (auto simp: swap_inv_def lock_ok_def)

text \<open>The container does not change as long as a reader stays.\<close>

lemma inside_stable:
  assumes "swap_reachable keep good flush c s" "good c" "sw_stage s i = Inside" "swap_step keep good flush s s'"
  shows "sw_current s' = sw_current s \<and> sw_heap s' (sw_current s') = sw_heap s (sw_current s)"
proof -
  note own = own_okD[OF reachable_own[OF assms(1,2)]] and quiet = inside_excludes[OF assms(1-3)]
  have live: "sw_heap s (sw_current s) \<noteq> None" using own(4)[of "sw_current s" 0] by simp
  show ?thesis
    using assms(4)
  proof (cases rule: swap_step.cases)
    case (sw_parsed j a d)
    then show ?thesis using live by auto
  next
    case (sw_swap j a old t)
    then show ?thesis using quiet[of j] by simp
  next
    case (sw_retire j old t)
    have "old \<noteq> sw_current s" using own(1)[of j old] sw_retire(2) by auto
    then show ?thesis using sw_retire by (auto simp: retire_def res_bind_eq_Inr_iff split: option.splits)
  qed auto
qed

text \<open>What is freed is live, nobody's but the thread's that frees it, and not the current one.\<close>

lemma retire_returns:
  assumes "swap_reachable keep good flush c s" "good c" "sw_stage s i = Retiring old"
  shows "returns (retire flush old s) \<and> old \<noteq> sw_current s \<and> (\<forall>j. owned (sw_stage s j) = Some old \<longrightarrow> j = i)"
proof -
  note own = own_okD[OF reachable_own[OF assms(1,2)]]
  have mine: "owned (sw_stage s i) = Some old" using assms(3) by simp
  then obtain d where "sw_heap s old = Some d" using own(4)[of old i] by auto
  then have "returns (retire flush old s)" using own(3) flush_good by (simp add: retire_def)
  then show ?thesis using own(1)[OF mine] own(2)[OF mine] by auto
qed

text \<open>Nothing is lost: what is live is in use.\<close>

lemma live_in_use:
  assumes "swap_reachable keep good flush c s" "good c" "sw_heap s a \<noteq> None"
  shows "a = sw_current s \<or> (\<exists>j. owned (sw_stage s j) = Some a)"
  using own_okD(4)[OF reachable_own[OF assms(1,2)], of a] assms(3) by auto

text \<open>One thread reloads, alone but for threads that are \<open>Loose\<close>: the new container is in, the old one gone.\<close>

lemma reload_alone:
  assumes "swap_reachable keep good flush c s" "good c" "good d" "sw_stage s i = Away" "sw_writer s = None"
    and "sw_readers s = {}" "sw_heap s a = None"
  shows "swap_reachable keep good flush c
    (s\<lparr>sw_current := a, sw_heap := (sw_heap s)(a \<mapsto> d, sw_current s := None)\<rparr>)"
proof -
  obtain e where e: "sw_heap s (sw_current s) = Some e" "good e" using inside_reads[OF assms(1,2)] by blast
  have ne: "a \<noteq> sw_current s" using e assms(7) by auto
  let ?s1 = "s\<lparr>sw_heap := (sw_heap s)(a \<mapsto> d), sw_stage := (sw_stage s)(i := Parsed_New a)\<rparr>"
  let ?s2 = "?s1\<lparr>sw_writer := Some i, sw_stage := (sw_stage ?s1)(i := Writing a)\<rparr>"
  let ?s3 = "?s2\<lparr>sw_current := a, sw_stage := (sw_stage ?s2)(i := Swapped (sw_current s))\<rparr>"
  let ?s4 = "?s3\<lparr>sw_writer := None, sw_stage := (sw_stage ?s3)(i := Retiring (sw_current s))\<rparr>"
  let ?s5 = "?s4\<lparr>sw_heap := (sw_heap ?s4)(sw_current s := None), sw_stage := (sw_stage ?s4)(i := Away)\<rparr>"
  have "swap_step keep good flush s ?s1" by (rule swap_step.sw_parsed) (rule assms)+
  moreover have "swap_step keep good flush ?s1 ?s2" by (rule swap_step.sw_wrlock) (simp_all add: assms(5,6))
  moreover have "swap_step keep good flush ?s2 ?s3"
    using swap_step.sw_swap[of ?s2 i a "sw_current s" "?s2\<lparr>sw_current := a\<rparr>" keep good flush] by (simp add: swap_in_def)
  moreover have "swap_step keep good flush ?s3 ?s4" by (rule swap_step.sw_unlock) simp
  moreover have "swap_step keep good flush ?s4 ?s5"
    using swap_step.sw_retire[of ?s4 i "sw_current s" flush "?s4\<lparr>sw_heap := (sw_heap ?s4)(sw_current s := None)\<rparr>" keep good]
      e ne flush_good by (simp add: retire_def)
  ultimately have "swap_reachable keep good flush c ?s5"
    using assms(1) unfolding swap_reachable_def by (meson rtranclp.rtrancl_into_rtrancl)
  moreover have "?s5 = s\<lparr>sw_current := a, sw_heap := (sw_heap s)(a \<mapsto> d, sw_current s := None)\<rparr>"
    using assms(4,5) by (auto simp: fun_eq_iff)
  ultimately show ?thesis by simp
qed

end

section \<open>The file and the rules\<close>

text \<open>No pointer to a variable outlives the lock: \<open>get_variable\<close> and \<open>dump_variables\<close> copy inside.\<close>

definition file_keep :: "unit \<Rightarrow> variables \<Rightarrow> nat option" where
  "file_keep q vs = None"

interpretation file_swap: swap_client file_keep vars_ok file_flush
  by unfold_locales (simp add: file_flush_def flush_global_variables_correct)

interpretation rules_swap: swap_client "matching_rule re" "\<lambda>_. True" rules_flush for re
  by unfold_locales (simp add: rules_flush_def flush_rules_case)

lemma matching_rule_first:
  "first_match re val rs fallback = (case matching_rule re val rs of None \<Rightarrow> fallback | Some n \<Rightarrow> Some (rule_value (rs ! n)))"
  by (induction rs) (auto split: option.splits)

lemma matching_rule_length: "matching_rule re val rs = Some n \<Longrightarrow> n < length rs"
  by (induction rs arbitrary: n) (auto split: if_splits)

text \<open>What the callbacks of \<open>File\<close> and \<open>Rules\<close> do in one go is what a thread does alone, step by step.\<close>

lemma file_callback_steps:
  assumes "file_check_callback nops file vs t b = Inr (True, t', vs')" "vars_ok vs" "NUL \<notin> set t"
  shows "swap_reachable file_keep vars_ok file_flush vs ((swap_init vs)\<lparr>sw_current := 1, sw_heap := [1 \<mapsto> vs']\<rparr>)"
proof -
  have "vars_ok vs'" using file_client.ok_kept[OF assms(2,3,1)] .
  from file_swap.reload_alone[OF _ assms(2) this, of "swap_init vs" 0 1] show ?thesis
    by (simp add: swap_init_def swap_reachable_def)
qed

section \<open>Properties\<close>

text \<open>
  C9: Reading \<open>cfg.file\<close> while other threads reload it is safe, however their steps interleave: between
  lock and unlock a reader finds a live tree of variables, always the same one, and \<open>get\<close> answers from
  it; a thread that frees a tree frees a live one that no other thread holds and that is not the current
  one; and no tree is lost.
\<close>

theorem file_readers_are_safe:
  assumes "swap_reachable file_keep vars_ok file_flush vs0 s" "vars_ok vs0"
  shows "(sw_stage s i = Inside \<longrightarrow> (\<forall>j. \<not> writes (sw_stage s j)) \<and> (\<exists>vs. sw_heap s (sw_current s) = Some vs \<and> vars_ok vs
        \<and> file_get_inside ops ctx name fallback s = Inr (get_variable ops ctx vs name fallback)
        \<and> (\<forall>s'. swap_step file_keep vars_ok file_flush s s' \<longrightarrow> sw_heap s' (sw_current s') = Some vs)))
    \<and> (sw_stage s i = Retiring old \<longrightarrow> returns (retire file_flush old s) \<and> old \<noteq> sw_current s
        \<and> (\<forall>j. owned (sw_stage s j) = Some old \<longrightarrow> j = i))
    \<and> (sw_heap s a \<noteq> None \<longrightarrow> a = sw_current s \<or> (\<exists>j. owned (sw_stage s j) = Some a))"
proof (intro conjI impI)
  assume i: "sw_stage s i = Inside"
  show "\<forall>j. \<not> writes (sw_stage s j)" using file_swap.inside_excludes[OF assms i] by simp
  obtain vs where vs: "sw_heap s (sw_current s) = Some vs" "vars_ok vs"
      "file_get_inside ops ctx name fallback s = Inr (get_variable ops ctx vs name fallback)"
    using file_swap.inside_reads[OF assms, of "\<lambda>vs. get_variable ops ctx vs name fallback"]
    unfolding file_get_inside_def by blast
  show "\<exists>vs. sw_heap s (sw_current s) = Some vs \<and> vars_ok vs
        \<and> file_get_inside ops ctx name fallback s = Inr (get_variable ops ctx vs name fallback)
        \<and> (\<forall>s'. swap_step file_keep vars_ok file_flush s s' \<longrightarrow> sw_heap s' (sw_current s') = Some vs)"
    using vs file_swap.inside_stable[OF assms i] by (intro exI[of _ vs]) metis
qed (use file_swap.retire_returns[OF assms] file_swap.live_in_use[OF assms, of a] in blast)+

text \<open>
  C11: Reading \<open>cfg.rules\<close> while another thread reloads it is not safe. \<open>vmod_rules_get\<close> copies the value of the
  rule it found after it released the lock. Alone that gives the value of the first match; but a thread
  that reloads in between frees the rule, and the copy reads freed memory.
\<close>

theorem rules_get_uses_freed_rule:
  assumes "matching_rule re val rs = Some n"
  shows "rules_get_inside re val (swap_init rs) = Inr (Some n)
    \<and> rules_get_copy ops ctx 0 (Some n) fallback (swap_init rs) = Inr (copy_result ops ctx (first_match re val rs fallback))
    \<and> (\<exists>s. swap_reachable (matching_rule re) (\<lambda>_. True) rules_flush rs s \<and> sw_stage s i = Loose 0 n
        \<and> rules_get_copy ops ctx 0 (Some n) fallback s = Inl Use_After_Free)"
proof (intro conjI)
  show "rules_get_inside re val (swap_init rs) = Inr (Some n)"
    using assms by (simp add: rules_get_inside_def at_current_def swap_init_def)
  show "rules_get_copy ops ctx 0 (Some n) fallback (swap_init rs) = Inr (copy_result ops ctx (first_match re val rs fallback))"
    using assms matching_rule_length[OF assms] by (simp add: rules_get_copy_def swap_init_def matching_rule_first)
  let ?step = "swap_step (matching_rule re) (\<lambda>_. True) (rules_flush :: 'a rules \<Rightarrow> unit res)"
  let ?s1 = "(swap_init rs)\<lparr>sw_readers := {i}, sw_stage := (\<lambda>j. Away)(i := Inside)\<rparr>"
  let ?s2 = "(swap_init rs)\<lparr>sw_stage := (\<lambda>j. Away)(i := Loose 0 n)\<rparr>"
  have "?step (swap_init rs) ?s1"
    using swap_step.sw_rdlock[of "swap_init rs" i "matching_rule re" "\<lambda>_. True" rules_flush] by (simp add: swap_init_def)
  moreover have "?step ?s1 ?s2"
    using swap_step.sw_leave[of ?s1 i "matching_rule re" val "Some n" "\<lambda>_. True" rules_flush] assms
    by (simp add: swap_init_def at_current_def)
  ultimately have "swap_reachable (matching_rule re) (\<lambda>_. True) rules_flush rs ?s2"
    unfolding swap_reachable_def by (meson r_into_rtranclp rtranclp_trans)
  from rules_swap.reload_alone[OF this, of "Suc i" 1 "[]"]
  have "swap_reachable (matching_rule re) (\<lambda>_. True) rules_flush rs (?s2\<lparr>sw_current := 1, sw_heap := [1 \<mapsto> []]\<rparr>)"
    by (simp add: swap_init_def)
  then show "\<exists>s. swap_reachable (matching_rule re) (\<lambda>_. True) rules_flush rs s \<and> sw_stage s i = Loose 0 n
      \<and> rules_get_copy ops ctx 0 (Some n) fallback s = Inl Use_After_Free"
    by (intro exI conjI) (assumption, simp_all add: rules_get_copy_def)
qed

section \<open>Witnesses\<close>

lemma sample_inside:
  "swap_reachable file_keep vars_ok file_flush vs ((swap_init vs)\<lparr>sw_readers := {0}, sw_stage := (\<lambda>j. Away)(0 := Inside)\<rparr>)"
  using swap_step.sw_rdlock[of "swap_init vs" 0 file_keep vars_ok file_flush]
  by (simp add: swap_reachable_def swap_init_def r_into_rtranclp)

theorem file_readers_are_safe_witness:
  "\<exists>s. swap_reachable file_keep vars_ok file_flush Leaf s \<and> sw_stage s 0 = Inside
    \<and> (\<exists>vs. sw_heap s (sw_current s) = Some vs \<and> file_get_inside counting_ws sample_ctx (Some ''a'') (Some ''d'') s
        = Inr (get_variable counting_ws sample_ctx vs (Some ''a'') (Some ''d'')))"
proof -
  have "vars_ok Leaf" by (rule vars_ok_Leaf)
  note safe = file_readers_are_safe[OF sample_inside this, of 0 counting_ws sample_ctx "Some ''a''" "Some ''d''", THEN conjunct1,
      THEN mp]
  let ?s = "(swap_init Leaf)\<lparr>sw_readers := {0}, sw_stage := (\<lambda>j. Away)(0 := Inside)\<rparr>"
  have inside: "sw_stage ?s 0 = Inside" by simp
  from safe[OF inside] show ?thesis
    by (intro exI[of _ ?s] conjI sample_inside inside) (elim conjE exE, intro exI conjI)
qed

theorem rules_get_uses_freed_rule_witness:
  "\<exists>s. swap_reachable (matching_rule literal_vre) (\<lambda>_. True) rules_flush [\<lparr>rule_vre = ''/'', rule_value = ''b''\<rparr>] s
    \<and> rules_get_copy counting_ws sample_ctx 0 (Some 0) None s = Inl Use_After_Free"
proof -
  have "matching_rule literal_vre (Some ''/x'') [\<lparr>rule_vre = ''/'', rule_value = ''b''\<rparr>] = Some 0"
    by (simp add: literal_vre_def)
  from rules_get_uses_freed_rule[OF this] show ?thesis by blast
qed

end
