(* ===== verification/Engines.thy ===== *)
theory Engines
  imports Cfg_Prelude
begin

text \<open>
  The pool of scripting engines of \<open>script_helpers.c\<close>: \<open>lock_engine\<close>, \<open>unlock_engine\<close> and the
  engines themselves. Engines are addresses in \<open>pool_heap\<close>, the two tail queues are lists of
  addresses. What one worker thread does between taking the mutex and either leaving with an
  engine or sleeping on the condition is one turn; threads interleave turn by turn.
\<close>

type_synonym uint64 = "64 word"

record 'e engine =
  eng_ctx :: 'e
  ncycles :: uint32
  eng_memory :: "32 word"

record 'e pool =
  pool_heap :: "nat \<Rightarrow> 'e engine option"
  pool_n :: uint32
  pool_free :: "nat list"
  pool_busy :: "nat list"
  pool_total :: uint64
  pool_dropped :: uint64
  pool_blocked :: uint64

section \<open>Operations\<close>

definition new_engine :: "'e \<Rightarrow> 'e engine" where
  "new_engine c = \<lparr>eng_ctx = c, ncycles = 0, eng_memory = 0\<rparr>"

definition free_engine :: "nat \<Rightarrow> 'e pool \<Rightarrow> 'e pool" where
  "free_engine a p = p\<lparr>pool_heap := (pool_heap p)(a := None)\<rparr>"

definition is_valid_engine :: "uint32 \<Rightarrow> 'e engine \<Rightarrow> 'e pool \<Rightarrow> bool \<times> 'e pool" where
  "is_valid_engine max_cycles e p =
     (if max_cycles > 0 \<and> ncycles e \<ge> max_cycles
      then (False, p\<lparr>pool_dropped := pool_dropped p + 1\<rparr>) else (True, p))"

text \<open>The loop over the free queue. An address that holds no engine would be a use after free.\<close>

function lock_scan :: "uint32 \<Rightarrow> 'e pool \<Rightarrow> (nat option \<times> 'e pool) res" where
  "lock_scan max_cycles p =
     (case pool_free p of
        [] \<Rightarrow> Inr (None, p)
      | a # rest \<Rightarrow>
          (case pool_heap p a of
             None \<Rightarrow> Inl Null_Deref
           | Some e \<Rightarrow>
               let p1 = p\<lparr>pool_free := rest, pool_busy := pool_busy p @ [a]\<rparr>;
                   (valid, p2) = is_valid_engine max_cycles e p1
               in if valid then Inr (Some a, p2)
                  else lock_scan max_cycles
                    (free_engine a (p2\<lparr>pool_busy := remove1 a (pool_busy p2), pool_n := pool_n p2 - 1\<rparr>))))"
  by pat_completeness auto
termination
  by (relation "measure (\<lambda>(max_cycles, p). length (pool_free p))")
     (auto simp: is_valid_engine_def free_engine_def split: if_splits)

declare lock_scan.simps [simp del]

text \<open>
  One turn of \<open>lock_engine\<close>, from \<open>retry\<close>: an engine, or None when the thread goes to sleep in
  \<open>Lck_CondWait\<close>. \<open>made\<close> is what \<open>api.new_engine\<close> returns, at the address \<open>a\<close>.
\<close>

definition lock_turn ::
  "uint32 \<Rightarrow> uint32 \<Rightarrow> 'e engine res \<Rightarrow> nat \<Rightarrow> 'e pool \<Rightarrow> (nat option \<times> 'e pool) res" where
  "lock_turn max_engines max_cycles made a p =
     res_bind (lock_scan max_cycles p) (\<lambda>(result, p').
       case result of
         Some b \<Rightarrow> Inr (Some b, p')
       | None \<Rightarrow>
           if pool_n p' \<ge> max_engines then Inr (None, p')
           else res_bind made (\<lambda>e.
             Inr (Some a, p'\<lparr>pool_heap := (pool_heap p')(a \<mapsto> e), pool_total := pool_total p' + 1,
                             pool_busy := pool_busy p' @ [a], pool_n := pool_n p' + 1\<rparr>)))"

text \<open>After \<open>Lck_CondWait\<close>.\<close>

definition woken_up :: "'e pool \<Rightarrow> 'e pool" where
  "woken_up p = p\<lparr>pool_blocked := pool_blocked p + 1\<rparr>"

definition unlock_engine :: "('e \<Rightarrow> 32 word) \<Rightarrow> nat \<Rightarrow> 'e pool \<Rightarrow> 'e pool res" where
  "unlock_engine used_memory a p =
     (case pool_heap p a of
        None \<Rightarrow> Inl Null_Deref
      | Some e \<Rightarrow> Inr (p\<lparr>pool_heap := (pool_heap p)(a \<mapsto> e\<lparr>eng_memory := used_memory (eng_ctx e)\<rparr>),
            pool_busy := remove1 a (pool_busy p), pool_free := pool_free p @ [a]\<rparr>))"

text \<open>\<open>flush_engines\<close> on one of the queues.\<close>

fun flush_engines :: "nat list \<Rightarrow> 'e pool \<Rightarrow> 'e pool" where
  "flush_engines [] p = p"
| "flush_engines (a # rest) p = flush_engines rest (free_engine a p)"

definition empty_pool :: "'e pool" where
  "empty_pool = \<lparr>pool_heap = Map.empty, pool_n = 0, pool_free = [], pool_busy = [],
     pool_total = 0, pool_dropped = 0, pool_blocked = 0\<rparr>"

section \<open>Accounting\<close>

definition pool_ok :: "uint32 \<Rightarrow> 'e pool \<Rightarrow> bool" where
  "pool_ok max_engines p \<longleftrightarrow>
     distinct (pool_free p @ pool_busy p)
     \<and> dom (pool_heap p) = set (pool_free p @ pool_busy p)
     \<and> unat (pool_n p) = length (pool_free p) + length (pool_busy p)
     \<and> unat (pool_n p) \<le> unat max_engines"

text \<open>How many engines can be had without anybody giving one back.\<close>

definition available :: "uint32 \<Rightarrow> 'e pool \<Rightarrow> nat" where
  "available max_engines p = unat max_engines - length (pool_busy p)"

text \<open>\<open>malloc\<close> returns an address that is not in use when \<open>lock_turn\<close> creates an engine.\<close>

definition unused_address :: "uint32 \<Rightarrow> 'e pool \<Rightarrow> nat \<Rightarrow> bool" where
  "unused_address max_cycles p a \<longleftrightarrow>
     (case lock_scan max_cycles p of
        Inl e \<Rightarrow> True
      | Inr (result, p') \<Rightarrow> pool_heap p' a = None)"

lemma pool_ok_empty: "pool_ok max_engines empty_pool"
  by (simp add: pool_ok_def empty_pool_def)

lemma lock_scan_outcome:
  assumes "pool_ok max_engines p"
  shows "\<exists>result p'. lock_scan max_cycles p = Inr (result, p') \<and> pool_ok max_engines p'
    \<and> (case result of
         None \<Rightarrow> pool_free p' = [] \<and> pool_busy p' = pool_busy p
       | Some a \<Rightarrow> a \<in> set (pool_free p) \<and> pool_busy p' = pool_busy p @ [a]
           \<and> (\<exists>e. pool_heap p' a = Some e \<and> (max_cycles = 0 \<or> ncycles e < max_cycles)))"
  using assms
proof (induction "length (pool_free p)" arbitrary: p rule: less_induct)
  case less
  show ?case
  proof (cases "pool_free p")
    case Nil
    then show ?thesis using less.prems by (simp add: lock_scan.simps[of max_cycles p])
  next
    case (Cons a rest)
    have "a \<in> dom (pool_heap p)" using less.prems Cons by (simp add: pool_ok_def)
    then obtain e where e: "pool_heap p a = Some e" by auto
    define p1 where "p1 = p\<lparr>pool_free := rest, pool_busy := pool_busy p @ [a]\<rparr>"
    have p1: "pool_ok max_engines p1"
      using less.prems Cons by (auto simp: pool_ok_def p1_def)
    show ?thesis
    proof (cases "max_cycles > 0 \<and> ncycles e \<ge> max_cycles")
      case False
      then have "lock_scan max_cycles p = Inr (Some a, p1)"
        using Cons e by (subst lock_scan.simps) (auto simp: is_valid_engine_def p1_def Let_def)
      then show ?thesis
        using p1 False e Cons by (auto simp: p1_def word_gt_0 not_le)
    next
      case True
      define p2 where "p2 = free_engine a (p1\<lparr>pool_dropped := pool_dropped p1 + 1,
          pool_busy := remove1 a (pool_busy p1), pool_n := pool_n p1 - 1\<rparr>)"
      have step: "lock_scan max_cycles p = lock_scan max_cycles p2"
        using Cons e True by (subst lock_scan.simps) (simp add: is_valid_engine_def p1_def p2_def Let_def)
      have a: "a \<notin> set (pool_busy p)" "a \<notin> set rest"
        using less.prems Cons by (auto simp: pool_ok_def)
      then have lists: "pool_free p2 = rest" "pool_busy p2 = pool_busy p"
        by (simp_all add: p2_def p1_def free_engine_def remove1_append)
      have "pool_n p \<noteq> 0"
        using less.prems Cons by (auto simp: pool_ok_def)
      then have "unat (pool_n p2) = unat (pool_n p) - 1"
        by (simp add: p2_def p1_def free_engine_def unat_minus_one)
      moreover have "dom (pool_heap p2) = dom (pool_heap p) - {a}"
        by (auto simp: p2_def p1_def free_engine_def)
      ultimately have "pool_ok max_engines p2"
        using less.prems Cons lists a by (auto simp: pool_ok_def)
      from less.hyps[OF _ this] obtain result p' where "lock_scan max_cycles p2 = Inr (result, p')"
          "pool_ok max_engines p'"
          "case result of None \<Rightarrow> pool_free p' = [] \<and> pool_busy p' = pool_busy p2
           | Some b \<Rightarrow> b \<in> set (pool_free p2) \<and> pool_busy p' = pool_busy p2 @ [b]
             \<and> (\<exists>e. pool_heap p' b = Some e \<and> (max_cycles = 0 \<or> ncycles e < max_cycles))"
        using Cons lists by auto
      then show ?thesis
        using step lists Cons by (intro exI[of _ result] exI[of _ p']) (auto split: option.splits)
    qed
  qed
qed

lemma lock_turn_outcome:
  assumes "pool_ok max_engines p" "unused_address max_cycles p a"
  shows "\<exists>result p'. lock_turn max_engines max_cycles (Inr made) a p = Inr (result, p') \<and> pool_ok max_engines p'
    \<and> (case result of
         None \<Rightarrow> available max_engines p = 0 \<and> pool_busy p' = pool_busy p \<and> pool_free p' = []
       | Some b \<Rightarrow> available max_engines p > 0 \<and> b \<notin> set (pool_busy p) \<and> pool_busy p' = pool_busy p @ [b])"
proof -
  obtain r q where scan: "lock_scan max_cycles p = Inr (r, q)" "pool_ok max_engines q"
      "case r of None \<Rightarrow> pool_free q = [] \<and> pool_busy q = pool_busy p
       | Some b \<Rightarrow> b \<in> set (pool_free p) \<and> pool_busy q = pool_busy p @ [b]
           \<and> (\<exists>e. pool_heap q b = Some e \<and> (max_cycles = 0 \<or> ncycles e < max_cycles))"
    using lock_scan_outcome[OF assms(1)] by blast
  show ?thesis
  proof (cases r)
    case (Some b)
    then have "length (pool_busy p) < unat max_engines" "b \<notin> set (pool_busy p)"
      using scan(2,3) assms(1) by (auto simp: pool_ok_def)
    then show ?thesis
      using scan Some by (simp add: lock_turn_def available_def)
  next
    case None
    then have q: "pool_free q = []" "pool_busy q = pool_busy p" "unat (pool_n q) = length (pool_busy p)"
      using scan(2,3) by (auto simp: pool_ok_def)
    show ?thesis
    proof (cases "pool_n q \<ge> max_engines")
      case True
      then have "available max_engines p = 0"
        using q by (simp add: available_def word_le_nat_alt)
      then show ?thesis using scan None True q by (simp add: lock_turn_def)
    next
      case False
      then have less: "length (pool_busy p) < unat max_engines"
        using q by (simp add: word_le_nat_alt)
      have fresh: "pool_heap q a = None"
        using assms(2) scan(1) by (simp add: unused_address_def)
      then have "a \<notin> set (pool_busy p)"
        using scan(2) q by (auto simp: pool_ok_def domIff)
      define q' where "q' = q\<lparr>pool_heap := (pool_heap q)(a \<mapsto> made), pool_total := pool_total q + 1,
            pool_busy := pool_busy q @ [a], pool_n := pool_n q + 1\<rparr>"
      have "unat (pool_n q + 1) = unat (pool_n q) + 1"
      proof -
        have "unat max_engines < 2 ^ 32"
          using unsigned_less[of max_engines] by simp
        then show ?thesis using less q(3) by (simp add: unat_word_ariths)
      qed
      then have "pool_ok max_engines q'"
        using scan(2) q less \<open>a \<notin> set (pool_busy p)\<close> by (auto simp: pool_ok_def q'_def)
      then show ?thesis
        using scan None False q less \<open>a \<notin> set (pool_busy p)\<close>
        by (simp add: lock_turn_def available_def q'_def)
    qed
  qed
qed

lemma lock_scan_heap:
  assumes "lock_scan max_cycles p = Inr (result, p')" "pool_heap p' b = Some e"
  shows "pool_heap p b = Some e"
  using assms
proof (induction "length (pool_free p)" arbitrary: p rule: less_induct)
  case less
  show ?case
  proof (cases "pool_free p")
    case Nil
    then show ?thesis using less.prems by (simp add: lock_scan.simps[of max_cycles p])
  next
    case (Cons a rest)
    then obtain e0 where e0: "pool_heap p a = Some e0"
      using less.prems(1) by (simp add: lock_scan.simps[of max_cycles p] split: option.splits)
    show ?thesis
    proof (cases "max_cycles > 0 \<and> ncycles e0 \<ge> max_cycles")
      case False
      then have "p' = p\<lparr>pool_free := rest, pool_busy := pool_busy p @ [a]\<rparr>"
        using less.prems(1) Cons e0 by (auto simp: lock_scan.simps[of max_cycles p] is_valid_engine_def)
      then show ?thesis using less.prems(2) by simp
    next
      case True
      define p2 where "p2 = p\<lparr>pool_free := rest, pool_dropped := pool_dropped p + 1,
          pool_busy := remove1 a (pool_busy p @ [a]), pool_n := pool_n p - 1\<rparr>"
      have "lock_scan max_cycles (free_engine a p2) = Inr (result, p')"
        using less.prems(1) Cons e0 True
        by (simp add: lock_scan.simps[of max_cycles p] is_valid_engine_def p2_def)
      moreover have "length (pool_free (free_engine a p2)) < length (pool_free p)"
        using Cons by (simp add: free_engine_def p2_def)
      ultimately have "pool_heap (free_engine a p2) b = Some e"
        using less.hyps less.prems(2) by blast
      then show ?thesis by (simp add: free_engine_def p2_def split: if_splits)
    qed
  qed
qed

text \<open>The engines after a turn were there before, but for the one it made.\<close>

lemma lock_turn_heap:
  assumes "lock_turn max_engines max_cycles made a p = Inr (result, p')" "pool_heap p' b = Some e"
  shows "pool_heap p b = Some e \<or> made = Inr e"
proof -
  obtain r q where scan: "lock_scan max_cycles p = Inr (r, q)"
    and rest: "(case r of Some b \<Rightarrow> Inr (Some b, q)
       | None \<Rightarrow> if pool_n q \<ge> max_engines then Inr (None, q)
           else res_bind made (\<lambda>e. Inr (Some a, q\<lparr>pool_heap := (pool_heap q)(a \<mapsto> e), pool_total := pool_total q + 1,
                  pool_busy := pool_busy q @ [a], pool_n := pool_n q + 1\<rparr>))) = Inr (result, p')"
    using assms(1) by (auto simp: lock_turn_def res_bind_eq_Inr_iff)
  then show ?thesis
    using lock_scan_heap[OF scan] assms(2) by (auto simp: res_bind_eq_Inr_iff split: option.splits if_splits)
qed

lemma lock_turn_made:
  assumes "lock_turn max_engines max_cycles made a p = Inr (result, p')"
  shows "\<exists>m. lock_turn max_engines max_cycles (Inr m) a p = Inr (result, p')"
proof (cases made)
  case (Inl e)
  then show ?thesis
    using assms by (auto simp: lock_turn_def res_bind_eq_Inr_iff split: option.splits if_splits)
qed (use assms in blast)

lemma unlock_outcome:
  assumes "pool_ok max_engines p" "a \<in> set (pool_busy p)"
  shows "\<exists>p'. unlock_engine used_memory a p = Inr p' \<and> pool_ok max_engines p'
    \<and> pool_busy p' = remove1 a (pool_busy p) \<and> pool_free p' = pool_free p @ [a]
    \<and> available max_engines p' = Suc (available max_engines p)"
proof -
  obtain e where e: "pool_heap p a = Some e"
    using assms by (auto simp: pool_ok_def dom_def)
  have len: "length (remove1 a (pool_busy p)) = length (pool_busy p) - 1" "length (pool_busy p) > 0"
    using assms(2) by (auto simp: length_remove1)
  have "length (pool_busy p) \<le> unat max_engines"
    using assms(1) by (simp add: pool_ok_def)
  then have av: "unat max_engines - length (remove1 a (pool_busy p)) = Suc (unat max_engines - length (pool_busy p))"
    using len by linarith
  define p' where "p' = p\<lparr>pool_heap := (pool_heap p)(a \<mapsto> e\<lparr>eng_memory := used_memory (eng_ctx e)\<rparr>),
      pool_busy := remove1 a (pool_busy p), pool_free := pool_free p @ [a]\<rparr>"
  have "set (pool_free p @ [a]) \<union> set (remove1 a (pool_busy p)) = set (pool_free p) \<union> set (pool_busy p)"
    using assms by (auto simp: pool_ok_def)
  then have "pool_ok max_engines p'"
    using assms len by (auto simp: pool_ok_def p'_def)
  moreover have "unlock_engine used_memory a p = Inr p'"
    using e by (simp add: unlock_engine_def p'_def)
  moreover have "available max_engines p' = Suc (available max_engines p)"
    using av by (simp add: available_def p'_def)
  ultimately show ?thesis by (simp add: p'_def)
qed

section \<open>Worker threads\<close>

text \<open>
  Threads share the pool. A turn of \<open>lock_engine\<close> is one step, taken by a thread that arrives or
  that has been woken up; a waiting thread is woken up by a signal or for no reason, as POSIX
  allows. The holder of an engine changes it as it likes. \<open>unlock_engine\<close> signals the condition:
  if somebody waits, one of the waiting threads is woken up.
\<close>

datatype worker = Idle | Waiting | Woken | Holding nat

record 'e pool_sys =
  ps_pool :: "'e pool"
  ps_worker :: "nat \<Rightarrow> worker"

definition arriving :: "worker \<Rightarrow> 'e pool \<Rightarrow> 'e pool" where
  "arriving w p = (if w = Woken then woken_up p else p)"

definition signalled :: "nat option \<Rightarrow> (nat \<Rightarrow> worker) \<Rightarrow> (nat \<Rightarrow> worker) \<Rightarrow> bool" where
  "signalled target w w' \<longleftrightarrow> (case target of
      None \<Rightarrow> (\<forall>j. w j \<noteq> Waiting) \<and> w' = w
    | Some j \<Rightarrow> w j = Waiting \<and> w' = w(j := Woken))"

inductive pool_step :: "uint32 \<Rightarrow> uint32 \<Rightarrow> ('e \<Rightarrow> 32 word) \<Rightarrow> 'e pool_sys \<Rightarrow> 'e pool_sys \<Rightarrow> bool"
  for max_engines max_cycles used_memory where
  pool_lock: "ps_worker s i = Idle \<or> ps_worker s i = Woken \<Longrightarrow>
    unused_address max_cycles (arriving (ps_worker s i) (ps_pool s)) a \<Longrightarrow>
    lock_turn max_engines max_cycles (Inr made) a (arriving (ps_worker s i) (ps_pool s)) = Inr (r, p) \<Longrightarrow>
    pool_step max_engines max_cycles used_memory s
      \<lparr>ps_pool = p, ps_worker = (ps_worker s)(i := (case r of None \<Rightarrow> Waiting | Some b \<Rightarrow> Holding b))\<rparr>"
| pool_wake: "ps_worker s i = Waiting \<Longrightarrow>
    pool_step max_engines max_cycles used_memory s (s\<lparr>ps_worker := (ps_worker s)(i := Woken)\<rparr>)"
| pool_run: "ps_worker s i = Holding a \<Longrightarrow> pool_heap (ps_pool s) a \<noteq> None \<Longrightarrow>
    pool_step max_engines max_cycles used_memory s
      (s\<lparr>ps_pool := (ps_pool s)\<lparr>pool_heap := (pool_heap (ps_pool s))(a \<mapsto> e)\<rparr>\<rparr>)"
| pool_unlock: "ps_worker s i = Holding a \<Longrightarrow> unlock_engine used_memory a (ps_pool s) = Inr p \<Longrightarrow>
    signalled target (ps_worker s) w \<Longrightarrow>
    pool_step max_engines max_cycles used_memory s \<lparr>ps_pool = p, ps_worker = w(i := Idle)\<rparr>"

inductive_cases pool_step_cases: "pool_step max_engines max_cycles used_memory s s'"

definition pool_init :: "'e pool_sys" where
  "pool_init = \<lparr>ps_pool = empty_pool, ps_worker = (\<lambda>i. Idle)\<rparr>"

inductive pool_reachable :: "uint32 \<Rightarrow> uint32 \<Rightarrow> ('e \<Rightarrow> 32 word) \<Rightarrow> 'e pool_sys \<Rightarrow> bool"
  for max_engines max_cycles used_memory where
  pool_start: "pool_reachable max_engines max_cycles used_memory pool_init"
| pool_next: "pool_reachable max_engines max_cycles used_memory s \<Longrightarrow>
    pool_step max_engines max_cycles used_memory s s' \<Longrightarrow>
    pool_reachable max_engines max_cycles used_memory s'"

section \<open>The invariant\<close>

text \<open>Every busy engine has one holder, and nobody holds any other engine.\<close>

definition owners_ok :: "nat list \<Rightarrow> (nat \<Rightarrow> worker) \<Rightarrow> bool" where
  "owners_ok busy w \<longleftrightarrow>
     (\<forall>a. if a \<in> set busy then \<exists>i. {j. w j = Holding a} = {i} else {j. w j = Holding a} = {})"

text \<open>
  No lost wake-up: while a thread waits, every engine that could be had has a woken thread on its
  way to it.
\<close>

definition wakeups_ok :: "nat \<Rightarrow> (nat \<Rightarrow> worker) \<Rightarrow> bool" where
  "wakeups_ok free w \<longleftrightarrow> finite {i. w i = Woken}
     \<and> ((\<exists>i. w i = Waiting) \<longrightarrow> free \<le> card {i. w i = Woken})"

definition pool_sys_ok :: "uint32 \<Rightarrow> 'e pool_sys \<Rightarrow> bool" where
  "pool_sys_ok max_engines s \<longleftrightarrow> pool_ok max_engines (ps_pool s)
     \<and> owners_ok (pool_busy (ps_pool s)) (ps_worker s)
     \<and> wakeups_ok (available max_engines (ps_pool s)) (ps_worker s)"

lemma woken_upd:
  "{j. (w(i := x)) j = Woken} = (if x = Woken then insert i {j. w j = Woken} else {j. w j = Woken} - {i})"
  by auto

lemma holding_upd:
  "{j. (w(i := x)) j = Holding a} = (if x = Holding a then insert i {j. w j = Holding a} else {j. w j = Holding a} - {i})"
  by auto

lemma owners_take:
  assumes "owners_ok busy w" "b \<notin> set busy" "\<forall>a. w i \<noteq> Holding a"
  shows "owners_ok (busy @ [b]) (w(i := Holding b))"
proof -
  have "i \<notin> {j. w j = Holding a}" for a using assms(3) by simp
  then show ?thesis
    using assms(1,2) unfolding owners_ok_def holding_upd by (auto simp: insert_ident)
qed

lemma owners_same:
  assumes "owners_ok busy w" "\<forall>a. w i \<noteq> Holding a" "\<forall>a. x \<noteq> Holding a"
  shows "owners_ok busy (w(i := x))"
proof -
  have "{j. w j = Holding a} - {i} = {j. w j = Holding a}" for a using assms(2) by auto
  then show ?thesis
    using assms(1,3) unfolding owners_ok_def holding_upd by simp
qed

lemma owner_busy:
  assumes "owners_ok busy w" "w i = Holding a"
  shows "a \<in> set busy"
proof (rule ccontr)
  assume "a \<notin> set busy"
  then have "{j. w j = Holding a} = {}"
    using assms(1) by (simp add: owners_ok_def)
  then show False using assms(2) by auto
qed

lemma owners_give:
  assumes "owners_ok busy w" "w i = Holding a" "distinct busy"
  shows "owners_ok (remove1 a busy) (w(i := Idle))"
proof -
  obtain k where "{j. w j = Holding a} = {k}"
    using spec[OF assms(1)[unfolded owners_ok_def], of a] owner_busy[OF assms(1,2)] by auto
  moreover have "i \<in> {j. w j = Holding a}" using assms(2) by simp
  ultimately have one: "a \<in> set busy" "{j. w j = Holding a} = {i}"
    using owner_busy[OF assms(1,2)] by auto
  have "{j. w j = Holding b} - {i} = (if b = a then {} else {j. w j = Holding b})" for b
    using assms(2) one by auto
  then show ?thesis
    using assms(1,3) unfolding owners_ok_def holding_upd by simp
qed

lemma wakeups_take:
  assumes "wakeups_ok free w" "w i = Idle \<or> w i = Woken"
  shows "wakeups_ok (free - 1) (w(i := Holding b))"
proof -
  have "card {j. w j = Woken} - 1 \<le> card ({j. w j = Woken} - {i})"
    by (simp add: card_Diff_singleton_if)
  then show ?thesis
    using assms by (auto simp: wakeups_ok_def woken_upd simp del: fun_upd_apply split: if_splits)
      (auto split: if_splits)
qed

lemma wakeups_none: "wakeups_ok free w \<Longrightarrow> wakeups_ok 0 (w(i := Waiting))"
  by (simp add: wakeups_ok_def woken_upd del: fun_upd_apply)

lemma wakeups_wake:
  assumes "wakeups_ok free w" "w i = Waiting"
  shows "wakeups_ok (Suc free) (w(i := Woken))"
  using assms by (auto simp: wakeups_ok_def woken_upd simp del: fun_upd_apply)

lemma wakeups_le: "wakeups_ok free w \<Longrightarrow> free' \<le> free \<Longrightarrow> wakeups_ok free' w"
  by (auto simp: wakeups_ok_def)

lemma wakeups_leave:
  assumes "wakeups_ok free w" "w i = Holding a"
  shows "wakeups_ok free (w(i := Idle))"
  using assms by (auto simp: wakeups_ok_def woken_upd simp del: fun_upd_apply split: if_splits)
    (auto split: if_splits)

lemma woken_up_simps [simp]:
  "pool_ok max_engines (arriving w p) = pool_ok max_engines p"
  "pool_busy (arriving w p) = pool_busy p"
  "available max_engines (arriving w p) = available max_engines p"
  by (simp_all add: arriving_def woken_up_def pool_ok_def available_def)

lemma pool_lock_ok:
  assumes "pool_sys_ok max_engines s" "ps_worker s i = Idle \<or> ps_worker s i = Woken"
    and "unused_address max_cycles (arriving (ps_worker s i) (ps_pool s)) a"
    and "lock_turn max_engines max_cycles (Inr made) a (arriving (ps_worker s i) (ps_pool s)) = Inr (r, p)"
  shows "pool_sys_ok max_engines
    \<lparr>ps_pool = p, ps_worker = (ps_worker s)(i := (case r of None \<Rightarrow> Waiting | Some b \<Rightarrow> Holding b))\<rparr>"
proof -
  let ?p = "arriving (ps_worker s i) (ps_pool s)"
  have ok: "pool_ok max_engines ?p" "\<forall>a. ps_worker s i \<noteq> Holding a"
    using assms(1,2) by (auto simp: pool_sys_ok_def)
  have out: "pool_ok max_engines p"
    "case r of None \<Rightarrow> available max_engines (ps_pool s) = 0 \<and> pool_busy p = pool_busy (ps_pool s) \<and> pool_free p = []
     | Some b \<Rightarrow> available max_engines (ps_pool s) > 0 \<and> b \<notin> set (pool_busy (ps_pool s))
         \<and> pool_busy p = pool_busy (ps_pool s) @ [b]"
    using lock_turn_outcome[OF ok(1) assms(3), of made] assms(4)
    by (auto split: option.splits)
  note inv = assms(1)[unfolded pool_sys_ok_def]
  show ?thesis
  proof (cases r)
    case None
    then show ?thesis
      using inv out ok(2) owners_same[of "pool_busy (ps_pool s)" "ps_worker s" i Waiting]
        wakeups_none[of _ "ps_worker s" i]
      by (auto simp: pool_sys_ok_def available_def)
  next
    case (Some b)
    then have "available max_engines p = available max_engines (ps_pool s) - 1"
      using out by (simp add: available_def)
    then show ?thesis
      using inv out ok(2) Some owners_take[of "pool_busy (ps_pool s)" "ps_worker s" b i]
        wakeups_take[of _ "ps_worker s" i b] assms(2) by (auto simp: pool_sys_ok_def)
  qed
qed

lemma pool_unlock_ok:
  assumes "pool_sys_ok max_engines s" "ps_worker s i = Holding a" "unlock_engine used_memory a (ps_pool s) = Inr p"
    and "signalled target (ps_worker s) w"
  shows "pool_sys_ok max_engines \<lparr>ps_pool = p, ps_worker = w(i := Idle)\<rparr>"
proof -
  note inv = assms(1)[unfolded pool_sys_ok_def]
  have busy: "a \<in> set (pool_busy (ps_pool s))"
    using owner_busy[of _ "ps_worker s" i a] assms(2) inv by blast
  have out: "pool_ok max_engines p" "pool_busy p = remove1 a (pool_busy (ps_pool s))"
    "available max_engines p = Suc (available max_engines (ps_pool s))"
    using unlock_outcome[OF conjunct1[OF inv] busy, of used_memory] assms(3) by auto
  have w: "w i = Holding a" "owners_ok (pool_busy (ps_pool s)) w"
    "wakeups_ok (available max_engines p) w"
  proof -
    show "w i = Holding a"
      using assms(2,4) by (auto simp: signalled_def split: option.splits)
    show "owners_ok (pool_busy (ps_pool s)) w"
      using assms(4) inv owners_same[of "pool_busy (ps_pool s)" "ps_worker s" _ Woken]
      by (auto simp: signalled_def split: option.splits)
    show "wakeups_ok (available max_engines p) w"
      using assms(4) inv wakeups_wake[of "available max_engines (ps_pool s)" "ps_worker s"] out(3)
      by (auto simp: signalled_def wakeups_ok_def split: option.splits)
  qed
  have "distinct (pool_busy (ps_pool s))"
    using inv by (simp add: pool_ok_def)
  then show ?thesis
    using out w owners_give[OF w(2,1)] wakeups_leave[OF w(3,1)] by (simp add: pool_sys_ok_def)
qed

lemma pool_step_ok: "pool_step max_engines max_cycles used_memory s s' \<Longrightarrow> pool_sys_ok max_engines s \<Longrightarrow>
    pool_sys_ok max_engines s'"
proof (induction rule: pool_step.induct)
  case (pool_lock s i a made r p)
  then show ?case by (rule pool_lock_ok[rotated])
next
  case (pool_wake s i)
  then show ?case
    using owners_same[of "pool_busy (ps_pool s)" "ps_worker s" i Woken]
      wakeups_le[OF wakeups_wake[of "available max_engines (ps_pool s)" "ps_worker s" i]]
    by (auto simp: pool_sys_ok_def)
next
  case (pool_run s i a e)
  then have "dom ((pool_heap (ps_pool s))(a \<mapsto> e)) = dom (pool_heap (ps_pool s))"
    by auto
  then show ?case
    using pool_run.prems by (simp add: pool_sys_ok_def pool_ok_def available_def)
next
  case (pool_unlock s i a p target w)
  then show ?case by (rule pool_unlock_ok[rotated])
qed

lemma pool_reachable_ok: "pool_reachable max_engines max_cycles used_memory s \<Longrightarrow> pool_sys_ok max_engines s"
proof (induction rule: pool_reachable.induct)
  case pool_start
  then show ?case
    using pool_ok_empty[of max_engines]
    by (simp add: pool_sys_ok_def pool_init_def owners_ok_def wakeups_ok_def empty_pool_def)
next
  case (pool_next s s')
  then show ?case using pool_step_ok by blast
qed

section \<open>A counting semaphore\<close>

text \<open>
  What the pool promises its callers: \<open>max_engines\<close> permits; a thread takes one, or gives its own
  back.
\<close>

record semaphore =
  permits :: nat
  holders :: "nat set"

inductive sem_step :: "semaphore \<Rightarrow> semaphore \<Rightarrow> bool" where
  sem_take: "permits m > 0 \<Longrightarrow> i \<notin> holders m \<Longrightarrow>
    sem_step m \<lparr>permits = permits m - 1, holders = insert i (holders m)\<rparr>"
| sem_give: "i \<in> holders m \<Longrightarrow>
    sem_step m \<lparr>permits = permits m + 1, holders = holders m - {i}\<rparr>"

definition sem_of :: "uint32 \<Rightarrow> 'e pool_sys \<Rightarrow> semaphore" where
  "sem_of max_engines s = \<lparr>permits = available max_engines (ps_pool s),
     holders = {i. \<exists>a. ps_worker s i = Holding a}\<rparr>"

lemma holders_upd:
  "{j. \<exists>a. (w(i := x)) j = Holding a}
    = (if \<exists>a. x = Holding a then insert i {j. \<exists>a. w j = Holding a} else {j. \<exists>a. w j = Holding a} - {i})"
  by auto

lemma pool_step_simulates:
  assumes "pool_step max_engines max_cycles used_memory s s'" "pool_sys_ok max_engines s"
  shows "sem_of max_engines s' = sem_of max_engines s \<or> sem_step (sem_of max_engines s) (sem_of max_engines s')"
  using assms
proof (induction rule: pool_step.induct)
  case (pool_lock s i a made r p)
  let ?p = "arriving (ps_worker s i) (ps_pool s)"
  have ok: "pool_ok max_engines ?p" "i \<notin> {j. \<exists>a. ps_worker s j = Holding a}"
    using pool_lock.prems pool_lock.hyps(1) by (auto simp: pool_sys_ok_def)
  have out:
    "case r of None \<Rightarrow> pool_busy p = pool_busy (ps_pool s)
     | Some b \<Rightarrow> available max_engines (ps_pool s) > 0 \<and> pool_busy p = pool_busy (ps_pool s) @ [b]"
    using lock_turn_outcome[OF ok(1) pool_lock.hyps(2), of made] pool_lock.hyps(3) by (auto split: option.splits)
  show ?case
  proof (cases r)
    case None
    then show ?thesis
      using out ok(2) by (simp add: sem_of_def holders_upd available_def del: fun_upd_apply)
  next
    case (Some b)
    then have "available max_engines p = available max_engines (ps_pool s) - 1"
      using out by (simp add: available_def)
    then show ?thesis
      using out ok(2) Some sem_take[of "sem_of max_engines s" i]
      by (simp add: sem_of_def holders_upd del: fun_upd_apply)
  qed
next
  case (pool_wake s i)
  then have "{j. \<exists>a. ps_worker s j = Holding a} - {i} = {j. \<exists>a. ps_worker s j = Holding a}"
    by auto
  then show ?case
    by (simp add: sem_of_def holders_upd del: fun_upd_apply)
next
  case (pool_run s i a e)
  then show ?case by (simp add: sem_of_def available_def)
next
  case (pool_unlock s i a p target w)
  have "pool_ok max_engines (ps_pool s)" "a \<in> set (pool_busy (ps_pool s))"
    using pool_unlock.prems pool_unlock.hyps(1) owner_busy[of _ "ps_worker s" i a] by (auto simp: pool_sys_ok_def)
  then have "available max_engines p = Suc (available max_engines (ps_pool s))"
    using unlock_outcome[of max_engines "ps_pool s" a used_memory] pool_unlock.hyps(2) by auto
  moreover have "{j. \<exists>a. w j = Holding a} = {j. \<exists>a. ps_worker s j = Holding a}"
    using pool_unlock.hyps(3) by (auto simp: signalled_def split: option.splits if_splits)
  moreover have "i \<in> {j. \<exists>a. ps_worker s j = Holding a}"
    using pool_unlock.hyps(1) by simp
  ultimately show ?case
    using sem_give[of i "sem_of max_engines s"]
    by (simp add: sem_of_def holders_upd del: fun_upd_apply)
qed

section \<open>Progress\<close>

lemma address_exists:
  assumes "pool_ok max_engines p"
  shows "\<exists>a. unused_address max_cycles p a"
proof -
  obtain r q where scan: "lock_scan max_cycles p = Inr (r, q)" "pool_ok max_engines q"
    using lock_scan_outcome[OF assms] by blast
  then have "finite (dom (pool_heap q))" by (simp add: pool_ok_def)
  then obtain a where "a \<notin> dom (pool_heap q)"
    using ex_new_if_finite infinite_UNIV_nat by blast
  then show ?thesis using scan(1) by (auto simp: unused_address_def)
qed

lemma lock_when_available:
  assumes "pool_sys_ok max_engines s" "ps_worker s i = Idle \<or> ps_worker s i = Woken"
    and "available max_engines (ps_pool s) > 0"
  shows "\<exists>s' b. pool_step max_engines max_cycles used_memory s s' \<and> ps_worker s' i = Holding b"
proof -
  let ?p = "arriving (ps_worker s i) (ps_pool s)"
  have ok: "pool_ok max_engines ?p" using assms(1) by (simp add: pool_sys_ok_def)
  then obtain a where a: "unused_address max_cycles ?p a"
    using address_exists by blast
  obtain r p where turn: "lock_turn max_engines max_cycles (Inr undefined) a ?p = Inr (r, p)"
      "r = None \<longrightarrow> available max_engines ?p = 0"
    using lock_turn_outcome[OF ok a, of undefined] by (auto split: option.splits)
  then obtain b where "r = Some b" using assms(3) by (cases r) auto
  then show ?thesis
    using pool_lock[of s i max_cycles a max_engines undefined r p used_memory, OF assms(2) a turn(1)] by auto
qed

lemma unlock_one:
  assumes "pool_sys_ok max_engines s" "ps_worker s j = Holding a" "i \<noteq> j" "ps_worker s i \<noteq> Waiting"
  shows "\<exists>s'. pool_step max_engines max_cycles used_memory s s' \<and> ps_worker s' i = ps_worker s i
    \<and> available max_engines (ps_pool s') > 0"
proof -
  have "a \<in> set (pool_busy (ps_pool s))" "pool_ok max_engines (ps_pool s)"
    using assms(1,2) owner_busy[of _ "ps_worker s" j a] by (auto simp: pool_sys_ok_def)
  then obtain p where p: "unlock_engine used_memory a (ps_pool s) = Inr p"
      "available max_engines p = Suc (available max_engines (ps_pool s))"
    using unlock_outcome by blast
  obtain target w where w: "signalled target (ps_worker s) w" "w i = ps_worker s i"
  proof (cases "\<exists>k. ps_worker s k = Waiting")
    case True
    then obtain k where "ps_worker s k = Waiting" by blast
    then have "signalled (Some k) (ps_worker s) ((ps_worker s)(k := Woken))" "k \<noteq> i"
      using assms(4) by (auto simp: signalled_def)
    then show ?thesis using that[of "Some k" "(ps_worker s)(k := Woken)"] by auto
  next
    case False
    then have "signalled None (ps_worker s) (ps_worker s)" by (simp add: signalled_def)
    then show ?thesis using that[of None "ps_worker s"] by auto
  qed
  show ?thesis
    using pool_unlock[OF assms(2) p(1) w(1), of max_engines max_cycles] p(2) w(2) assms(3)
    by (intro exI[of _ "\<lparr>ps_pool = p, ps_worker = w(j := Idle)\<rparr>"]) simp
qed

lemma arrived_can_lock:
  assumes "pool_sys_ok max_engines s" "max_engines > 0" "ps_worker s i = Idle \<or> ps_worker s i = Woken"
  shows "\<exists>s' b. rtranclp (pool_step max_engines max_cycles used_memory) s s' \<and> ps_worker s' i = Holding b"
proof (cases "available max_engines (ps_pool s) > 0")
  case True
  then show ?thesis
    using lock_when_available[OF assms(1,3)] by (meson r_into_rtranclp)
next
  case False
  then have "pool_busy (ps_pool s) \<noteq> []"
    using assms(2) by (auto simp: available_def word_less_nat_alt)
  then obtain a where a: "a \<in> set (pool_busy (ps_pool s))" by (meson last_in_set)
  have "owners_ok (pool_busy (ps_pool s)) (ps_worker s)"
    using assms(1) by (simp add: pool_sys_ok_def)
  then obtain j where j: "{k. ps_worker s k = Holding a} = {j}"
    using a unfolding owners_ok_def by metis
  then have "j \<in> {k. ps_worker s k = Holding a}" by simp
  then have "ps_worker s j = Holding a" "i \<noteq> j"
    using assms(3) by auto
  then obtain s1 where s1: "pool_step max_engines max_cycles used_memory s s1"
      "ps_worker s1 i = ps_worker s i" "available max_engines (ps_pool s1) > 0"
    using unlock_one[OF assms(1)] assms(3) by (metis worker.distinct(1) worker.distinct(7))
  then show ?thesis
    using lock_when_available[OF pool_step_ok[OF s1(1) assms(1)]] assms(3)
    by (metis converse_rtranclp_into_rtranclp r_into_rtranclp)
qed

lemma anyone_can_lock:
  assumes "pool_sys_ok max_engines s" "max_engines > 0"
  shows "\<exists>s' b. rtranclp (pool_step max_engines max_cycles used_memory) s s' \<and> ps_worker s' i = Holding b"
proof (cases "ps_worker s i")
  case Waiting
  let ?s = "s\<lparr>ps_worker := (ps_worker s)(i := Woken)\<rparr>"
  have step: "pool_step max_engines max_cycles used_memory s ?s"
    using pool_wake Waiting .
  obtain s' b where "rtranclp (pool_step max_engines max_cycles used_memory) ?s s'" "ps_worker s' i = Holding b"
    using arrived_can_lock[OF pool_step_ok[OF step assms(1)] assms(2), of i, where max_cycles = max_cycles
        and used_memory = used_memory] by auto
  then show ?thesis
    using converse_rtranclp_into_rtranclp[of "pool_step max_engines max_cycles used_memory" s ?s s', OF step]
    by blast
next
  case (Holding a)
  then show ?thesis by auto
qed (use arrived_can_lock[OF assms] in auto)

section \<open>Properties\<close>

text \<open>
  C1: The pool in every reachable state, however the turns of any number of threads interleave. Its
  counter is the length of the two queues and never exceeds the limit; the queues are disjoint and
  hold exactly the engines that exist, so none is leaked or freed while queued; an engine is busy
  exactly when one thread, and only one, holds it; and a turn of \<open>lock_engine\<close> never touches a
  freed engine.
\<close>

theorem engine_pool_accounting:
  assumes "pool_reachable max_engines max_cycles used_memory s" "p = ps_pool s"
  shows "unat (pool_n p) = length (pool_free p) + length (pool_busy p)
    \<and> unat (pool_n p) \<le> unat max_engines
    \<and> distinct (pool_free p @ pool_busy p)
    \<and> dom (pool_heap p) = set (pool_free p @ pool_busy p)
    \<and> (\<forall>a. a \<in> set (pool_busy p) \<longleftrightarrow> (\<exists>i. ps_worker s i = Holding a))
    \<and> (\<forall>i j a. ps_worker s i = Holding a \<longrightarrow> ps_worker s j = Holding a \<longrightarrow> i = j)
    \<and> returns (lock_scan max_cycles p)"
proof -
  have ok: "pool_ok max_engines p" "owners_ok (pool_busy p) (ps_worker s)"
    using pool_reachable_ok[OF assms(1)] assms(2) by (simp_all add: pool_sys_ok_def)
  have one: "\<exists>k. {j. ps_worker s j = Holding a} = {k}" if "a \<in> set (pool_busy p)" for a
    using ok(2) that unfolding owners_ok_def by metis
  have "i = j" if h: "ps_worker s i = Holding a" "ps_worker s j = Holding a" for i j a
  proof -
    obtain k where k: "{j. ps_worker s j = Holding a} = {k}"
      using one owner_busy[of "pool_busy p" "ps_worker s" i a] ok(2) h(1) by blast
    have "i \<in> {j. ps_worker s j = Holding a}" "j \<in> {j. ps_worker s j = Holding a}"
      using h by simp_all
    then show ?thesis by (simp add: k)
  qed
  then have alone: "\<forall>i j a. ps_worker s i = Holding a \<longrightarrow> ps_worker s j = Holding a \<longrightarrow> i = j" by blast
  have "\<exists>i. ps_worker s i = Holding a" if b: "a \<in> set (pool_busy p)" for a
    using one[OF b] by auto
  then have owned: "\<forall>a. a \<in> set (pool_busy p) \<longleftrightarrow> (\<exists>i. ps_worker s i = Holding a)"
    using owner_busy[of "pool_busy p" "ps_worker s"] ok(2) by blast
  have "returns (lock_scan max_cycles p)"
    using lock_scan_outcome[OF ok(1), of max_cycles] by (auto simp: returns_def)
  then show ?thesis
    using ok(1) owned alone by (simp add: pool_ok_def)
qed

lemma sample_run:
  "pool_reachable 1 0 (\<lambda>_. 5)
    \<lparr>ps_pool = \<lparr>pool_heap = [7 \<mapsto> new_engine ()], pool_n = 1, pool_free = [], pool_busy = [7],
       pool_total = 1, pool_dropped = 0, pool_blocked = 0\<rparr>,
     ps_worker = (\<lambda>i. Idle)(1 := Holding 7, 2 := Waiting)\<rparr>"
proof -
  define p1 :: "unit pool" where "p1 = \<lparr>pool_heap = [7 \<mapsto> new_engine ()], pool_n = 1, pool_free = [],
     pool_busy = [7], pool_total = 1, pool_dropped = 0, pool_blocked = 0\<rparr>"
  have turn1: "lock_turn 1 0 (Inr (new_engine ())) 7 (arriving Idle empty_pool) = Inr (Some 7, p1)"
    "unused_address 0 (arriving Idle (empty_pool :: unit pool)) 7"
    by (simp_all add: lock_turn_def lock_scan.simps[of 0] arriving_def empty_pool_def p1_def unused_address_def)
  have turn2: "lock_turn 1 0 (Inr (new_engine ())) 8 (arriving Idle p1) = Inr (None, p1)"
    "unused_address 0 (arriving Idle p1) 8"
    by (simp_all add: lock_turn_def lock_scan.simps[of 0] arriving_def p1_def unused_address_def)
  have "pool_reachable 1 0 (\<lambda>_. 5) \<lparr>ps_pool = p1, ps_worker = (\<lambda>i. Idle)(1 := Holding 7)\<rparr>"
    using pool_next[OF pool_start pool_lock[of pool_init 1 0 7 1 "new_engine ()" "Some 7" p1]] turn1
    by (simp add: pool_init_def)
  from pool_next[OF this pool_lock[of _ 2 0 8 1 "new_engine ()" None p1]] turn2
  show ?thesis by (simp add: p1_def fun_upd_twist)
qed

theorem engine_pool_accounting_witness:
  "\<exists>s :: unit pool_sys. pool_reachable 1 0 (\<lambda>_. 5) s \<and> ps_worker s 1 = Holding 7 \<and> ps_worker s 2 = Waiting
    \<and> unat (pool_n (ps_pool s)) = length (pool_free (ps_pool s)) + length (pool_busy (ps_pool s))"
proof (rule exI, intro conjI, rule sample_run)
qed (simp, simp, rule conjunct1[OF engine_pool_accounting[OF sample_run refl]])

text \<open>
  C15: No lost wake-up and no deadlock. While a thread sleeps on the condition, either some thread has
  been woken up and is about to retry, or all engines are in use, each by a thread that will give
  it back; and from every reachable state every thread can still get an engine.
\<close>

theorem lock_engine_progress:
  assumes "pool_reachable max_engines max_cycles used_memory s" "max_engines > 0"
  shows "(ps_worker s i = Waiting \<longrightarrow>
      (\<exists>j. ps_worker s j = Woken)
      \<or> length (pool_busy (ps_pool s)) = unat max_engines
        \<and> (\<forall>a \<in> set (pool_busy (ps_pool s)). \<exists>j. j \<noteq> i \<and> ps_worker s j = Holding a))
    \<and> (\<exists>s' b. rtranclp (pool_step max_engines max_cycles used_memory) s s' \<and> ps_worker s' i = Holding b)"
proof -
  note ok = pool_reachable_ok[OF assms(1)]
  have "length (pool_busy (ps_pool s)) = unat max_engines"
    if "ps_worker s i = Waiting" "\<nexists>j. ps_worker s j = Woken"
  proof -
    have "available max_engines (ps_pool s) = 0"
      using ok that by (auto simp: pool_sys_ok_def wakeups_ok_def)
    then show ?thesis
      using ok by (simp add: pool_sys_ok_def available_def pool_ok_def)
  qed
  moreover have "\<exists>j. j \<noteq> i \<and> ps_worker s j = Holding a"
    if wait: "ps_worker s i = Waiting" and a: "a \<in> set (pool_busy (ps_pool s))" for a
  proof -
    have "owners_ok (pool_busy (ps_pool s)) (ps_worker s)"
      using ok by (simp add: pool_sys_ok_def)
    then obtain k where "{j. ps_worker s j = Holding a} = {k}"
      using a unfolding owners_ok_def by metis
    then have "k \<in> {j. ps_worker s j = Holding a}" by simp
    then show ?thesis using wait by (intro exI[of _ k]) auto
  qed
  ultimately show ?thesis
    using anyone_can_lock[OF ok assms(2)] by blast
qed

theorem lock_engine_progress_witness:
  "\<exists>s :: unit pool_sys. pool_reachable 1 0 (\<lambda>_. 5) s \<and> ps_worker s 2 = Waiting
    \<and> (\<exists>s' b. rtranclp (pool_step 1 0 (\<lambda>_. 5)) s s' \<and> ps_worker s' 2 = Holding b)"
proof (rule exI, intro conjI, rule sample_run)
qed (simp, rule conjunct2[OF lock_engine_progress[OF sample_run]], simp)

text \<open>
  C16: The pool implements a counting semaphore. Read as \<open>max_engines\<close> minus the busy engines and the
  threads that hold one, it starts with all permits, and every step of every thread is a take, a
  give or no step at all of the semaphore: a thread leaves \<open>lock_engine\<close> only with a permit that was
  there.
\<close>

theorem engine_pool_is_semaphore:
  assumes "pool_reachable max_engines max_cycles used_memory s"
    and "pool_step max_engines max_cycles used_memory s s'"
  shows "sem_of max_engines (pool_init :: 'e pool_sys) = \<lparr>permits = unat max_engines, holders = {}\<rparr>
    \<and> (sem_of max_engines s' = sem_of max_engines s
       \<or> sem_step (sem_of max_engines s) (sem_of max_engines s'))"
  using pool_step_simulates[OF assms(2) pool_reachable_ok[OF assms(1)]]
  by (simp add: sem_of_def pool_init_def empty_pool_def available_def)

theorem engine_pool_is_semaphore_witness:
  "\<exists>s s' :: unit pool_sys. pool_step 1 0 (\<lambda>_. 5) s s'
    \<and> sem_of 1 s = \<lparr>permits = 0, holders = {1}\<rparr> \<and> sem_of 1 s' = \<lparr>permits = 0, holders = {1}\<rparr>
    \<and> ps_worker s' 2 = Woken
    \<and> (sem_of 1 s' = sem_of 1 s \<or> sem_step (sem_of 1 s) (sem_of 1 s'))"
proof -
  let ?p = "\<lparr>pool_heap = [7 \<mapsto> new_engine ()], pool_n = 1, pool_free = [], pool_busy = [7],
       pool_total = 1, pool_dropped = 0, pool_blocked = 0\<rparr> :: unit pool"
  let ?w = "(\<lambda>i. Idle)(1 := Holding 7, 2 := Waiting)"
  let ?s = "\<lparr>ps_pool = ?p, ps_worker = ?w\<rparr>"
  have step: "pool_step 1 0 (\<lambda>_. 5) ?s (?s\<lparr>ps_worker := ?w(2 := Woken)\<rparr>)"
    using pool_wake[of ?s 2] by simp
  have "{i :: nat. \<exists>a. ?w i = Holding a} = {1}" "{i :: nat. \<exists>a. (?w(2 := Woken)) i = Holding a} = {1}"
    by (auto split: if_splits)
  then show ?thesis
    using step engine_pool_is_semaphore[OF sample_run step]
    by (intro exI[of _ ?s] exI[of _ "?s\<lparr>ps_worker := ?w(2 := Woken)\<rparr>"])
       (simp add: sem_of_def available_def del: fun_upd_apply, simp)
qed

end
