(* ===== verification/Script_Commands.thy ===== *)
theory Script_Commands
  imports Keyed Varnish
begin

text \<open>
  Commands of \<open>script_helpers.c\<close> that scripts reach through the \<open>varnish\<close> object: regular expressions
  with the cache of compiled ones, and HTTP headers; and the names under which code is registered.
  \<open>varnish_log_command\<close> only writes to the log and is left out.
\<close>

section \<open>Function names\<close>

definition hex_digits :: string where
  "hex_digits = ''0123456789abcdef''"

text \<open>\<open>sprintf("%.2x")\<close> of a byte.\<close>

definition hex_byte :: "char \<Rightarrow> string" where
  "hex_byte c = [hex_digits ! (byte c div 16), hex_digits ! (byte c mod 16)]"

definition new_function_name :: "(string \<Rightarrow> string) \<Rightarrow> string \<Rightarrow> string" where
  "new_function_name sha256 code = ''f_'' @ concat (map hex_byte (sha256 code))"

section \<open>Compiled regexps\<close>

record 're regexp =
  rx_text :: string
  rx_vre :: 're

record 're regexps =
  rxs_list :: "'re regexp vrbt"
  rxs_n :: uint32

definition regexpcmp :: "'re regexp \<Rightarrow> 're regexp \<Rightarrow> int" where
  "regexpcmp v1 v2 = strcmp (rx_text v1) (rx_text v2)"

definition new_regexp :: "string \<Rightarrow> 're \<Rightarrow> 're regexp" where
  "new_regexp t vre = \<lparr>rx_text = t, rx_vre = vre\<rparr>"

text \<open>\<open>search_regexp\<close>: only the text is set.\<close>

definition search_regexp :: "string \<Rightarrow> 're regexp" where
  "search_regexp t = \<lparr>rx_text = t, rx_vre = undefined\<rparr>"

interpretation rxcmp: keyed regexpcmp rx_text search_regexp
  by unfold_locales (simp_all add: regexpcmp_def search_regexp_def)

text \<open>
  \<open>seen\<close> is the cache in the first critical section, \<open>c\<close> the cache in the second one: other threads
  may have run in between, while the regexp was being compiled.
\<close>

definition init_regexp ::
  "'re vre_ops \<Rightarrow> string \<Rightarrow> bool \<Rightarrow> 're regexps \<Rightarrow> 're regexps \<Rightarrow> ('re option \<times> 're regexps) res" where
  "init_regexp re regexp cache seen c =
     (case (if cache then vrbt_find regexpcmp (search_regexp regexp) (rxs_list seen) else None) of
        Some cached \<Rightarrow> Inr (Some (rx_vre cached), c)
      | None \<Rightarrow>
          (case re_compile re regexp of
             None \<Rightarrow> Inr (None, c)
           | Some vre \<Rightarrow>
               if cache then
                 (let a_regexp = new_regexp regexp vre in
                  case vrbt_find regexpcmp a_regexp (rxs_list c) of
                    None \<Rightarrow> res_bind (vrbt_insert regexpcmp a_regexp (rxs_list c)) (\<lambda>(old, list').
                        must (old = None) (Inr (Some vre, \<lparr>rxs_list = list', rxs_n = rxs_n c + 1\<rparr>)))
                  | Some cached \<Rightarrow> Inr (Some (rx_vre cached), c))
               else Inr (Some vre, c)))"

definition regexp_error :: "string \<Rightarrow> string" where
  "regexp_error regexp = ''Failed to instantiate '' @ [CHR 0x27] @ regexp @ [CHR 0x27] @ '' regexp.''"

text \<open>The commands: the result, \<open>*error\<close>, the context and the cache.\<close>

definition varnish_regmatch_command ::
  "'re vre_ops \<Rightarrow> 'w ws_ops \<Rightarrow> ('w, 'h) vrt_ctx \<Rightarrow> 're regexps \<Rightarrow> 're regexps \<Rightarrow> string \<Rightarrow> string \<Rightarrow> bool
    \<Rightarrow> (bool \<times> string option \<times> ('w, 'h) vrt_ctx \<times> 're regexps) res" where
  "varnish_regmatch_command re ops ctx seen c string regexp cache =
     res_bind (init_regexp re regexp cache seen c) (\<lambda>(vre, c').
       case vre of
         Some v \<Rightarrow> Inr (re_match re v (Some string), None, ctx, c')
       | None \<Rightarrow> (case copy_or_fail ops ctx (regexp_error regexp) of
           (ctx', err) \<Rightarrow> Inr (False, err, ctx', c')))"

definition varnish_regsub_command ::
  "'re vre_ops \<Rightarrow> 'w ws_ops \<Rightarrow> ('w, 'h) vrt_ctx \<Rightarrow> 're regexps \<Rightarrow> 're regexps \<Rightarrow> string \<Rightarrow> string \<Rightarrow> string \<Rightarrow> bool
    \<Rightarrow> bool \<Rightarrow> (string option \<times> string option \<times> ('w, 'h) vrt_ctx \<times> 're regexps) res" where
  "varnish_regsub_command re ops ctx seen c string regexp sub cache all =
     res_bind (init_regexp re regexp cache seen c) (\<lambda>(vre, c').
       case vre of
         Some v \<Rightarrow> Inr (re_sub re all string v sub, None, ctx, c')
       | None \<Rightarrow> (case copy_or_fail ops ctx (regexp_error regexp) of
           (ctx', err) \<Rightarrow> Inr (None, err, ctx', c')))"

text \<open>The release of the cache in \<open>vmod_script__fini\<close>: what was handed to \<open>free_regexp\<close>.\<close>

definition flush_regexps :: "'re regexps \<Rightarrow> ('re regexp vrbt \<times> 're regexp list) res" where
  "flush_regexps c = vrbt_flush regexpcmp (rxs_list c)"

section \<open>Headers\<close>

datatype gethdr = HDR_REQ | HDR_REQ_TOP | HDR_BEREQ | HDR_RESP | HDR_BERESP | HDR_OBJ

text \<open>
  The HTTP objects a context may have, NULL being None; \<open>http_obj\<close> is \<open>ctx->req->objcore\<close>. How
  \<open>VRT_GetHdr\<close> and \<open>VRT_SetHdr\<close> read and change one is a parameter; a header name is passed to them
  as Varnish encodes it, with its length in front and a colon behind.
\<close>

record 'h http_ctx =
  http_req :: "'h option"
  http_req_top :: "'h option"
  http_bereq :: "'h option"
  http_resp :: "'h option"
  http_beresp :: "'h option"
  http_obj :: "'h option"

record 'h hdr_ops =
  hdr_get :: "'h \<Rightarrow> string \<Rightarrow> string option"
  hdr_set :: "'h \<Rightarrow> string \<Rightarrow> string \<Rightarrow> 'h"

definition get_http_where :: "string \<Rightarrow> gethdr res" where
  "get_http_where name =
     (if strcmp name ''req'' = 0 then Inr HDR_REQ
      else if strcmp name ''req-top'' = 0 then Inr HDR_REQ_TOP
      else if strcmp name ''bereq'' = 0 then Inr HDR_BEREQ
      else if strcmp name ''resp'' = 0 then Inr HDR_RESP
      else if strcmp name ''beresp'' = 0 then Inr HDR_BERESP
      else if strcmp name ''obj'' = 0 then Inr HDR_OBJ
      else Inl Assert_Failed)"

fun http_object :: "'h http_ctx \<Rightarrow> gethdr \<Rightarrow> 'h option" where
  "http_object h HDR_REQ = http_req h"
| "http_object h HDR_REQ_TOP = http_req_top h"
| "http_object h HDR_BEREQ = http_bereq h"
| "http_object h HDR_RESP = http_resp h"
| "http_object h HDR_BERESP = http_beresp h"
| "http_object h HDR_OBJ = http_obj h"

definition is_valid_http_where :: "'h http_ctx \<Rightarrow> gethdr \<Rightarrow> bool" where
  "is_valid_http_where h he = (http_object h he \<noteq> None)"

text \<open>\<open>sprintf(buffer, "%c%s:", (char) (strlen(name) + 1), name)\<close>.\<close>

definition hdr_name :: "string \<Rightarrow> string" where
  "hdr_name name = char_of (length name + 1) # name @ '':''"

definition header_error :: "string \<Rightarrow> string \<Rightarrow> string" where
  "header_error command where_name =
     ''varnish.'' @ command @ ''() called over unavailable '' @ [CHR 0x27] @ where_name @ [CHR 0x27] @ '' object.''"

definition varnish_get_header_command ::
  "'h hdr_ops \<Rightarrow> 'w ws_ops \<Rightarrow> ('w, 'h http_ctx) vrt_ctx \<Rightarrow> string \<Rightarrow> string
    \<Rightarrow> (string option \<times> string option \<times> ('w, 'h http_ctx) vrt_ctx) res" where
  "varnish_get_header_command hops ops ctx name where_name =
     (if strcmp where_name ''req'' = 0 \<or> strcmp where_name ''req-top'' = 0 \<or> strcmp where_name ''bereq'' = 0
         \<or> strcmp where_name ''beresp'' = 0 \<or> strcmp where_name ''resp'' = 0 \<or> strcmp where_name ''obj'' = 0
      then res_bind (get_http_where where_name) (\<lambda>he.
        case http_object (ctx_http ctx) he of
          Some x \<Rightarrow> Inr (hdr_get hops x (hdr_name name), None, ctx)
        | None \<Rightarrow> (case copy_or_fail ops ctx (header_error ''get_header'' where_name) of
            (ctx', err) \<Rightarrow> Inr (None, err, ctx')))
      else Inr (None, None, ctx))"

fun set_http_object :: "gethdr \<Rightarrow> 'h \<Rightarrow> 'h http_ctx \<Rightarrow> 'h http_ctx" where
  "set_http_object HDR_REQ x h = h\<lparr>http_req := Some x\<rparr>"
| "set_http_object HDR_REQ_TOP x h = h\<lparr>http_req_top := Some x\<rparr>"
| "set_http_object HDR_BEREQ x h = h\<lparr>http_bereq := Some x\<rparr>"
| "set_http_object HDR_RESP x h = h\<lparr>http_resp := Some x\<rparr>"
| "set_http_object HDR_BERESP x h = h\<lparr>http_beresp := Some x\<rparr>"
| "set_http_object HDR_OBJ x h = h\<lparr>http_obj := Some x\<rparr>"

definition varnish_set_header_command ::
  "'h hdr_ops \<Rightarrow> 'w ws_ops \<Rightarrow> ('w, 'h http_ctx) vrt_ctx \<Rightarrow> string \<Rightarrow> string \<Rightarrow> string
    \<Rightarrow> (string option \<times> ('w, 'h http_ctx) vrt_ctx) res" where
  "varnish_set_header_command hops ops ctx name val where_name =
     (if strcmp where_name ''req'' = 0 \<or> strcmp where_name ''req-top'' = 0 \<or> strcmp where_name ''bereq'' = 0
         \<or> strcmp where_name ''beresp'' = 0 \<or> strcmp where_name ''resp'' = 0
      then res_bind (get_http_where where_name) (\<lambda>he.
        case http_object (ctx_http ctx) he of
          Some x \<Rightarrow> Inr (None, ctx\<lparr>ctx_http := set_http_object he (hdr_set hops x (hdr_name name) val) (ctx_http ctx)\<rparr>)
        | None \<Rightarrow> (case copy_or_fail ops ctx (header_error ''set_header'' where_name) of (ctx', err) \<Rightarrow> Inr (err, ctx')))
      else Inr (None, ctx))"

section \<open>The cache is transparent\<close>

definition rx_texts :: "'re regexps \<Rightarrow> string set" where
  "rx_texts c = rx_text ` set (inorder (rxs_list c))"

definition regexps_ok :: "'re vre_ops \<Rightarrow> 're regexps \<Rightarrow> bool" where
  "regexps_ok re c \<longleftrightarrow> vrbt_ok regexpcmp (rxs_list c)
     \<and> (\<forall>r \<in> set (inorder (rxs_list c)). re_compile re (rx_text r) = Some (rx_vre r))
     \<and> rxs_n c = of_nat (length (inorder (rxs_list c)))"

lemma cached_regexp:
  assumes "regexps_ok re c" "vrbt_find regexpcmp (search_regexp t) (rxs_list c) = Some r"
  shows "re_compile re t = Some (rx_vre r) \<and> t \<in> rx_texts c"
  using assms rxcmp.find_Some[of "rxs_list c" t r] by (auto simp: regexps_ok_def rx_texts_def)

lemma find_new_regexp: "vrbt_find regexpcmp (new_regexp t vre) = vrbt_find regexpcmp (search_regexp t)"
proof
  fix u show "vrbt_find regexpcmp (new_regexp t vre) u = vrbt_find regexpcmp (search_regexp t) u"
    by (induction u)
       (auto simp: regexpcmp_def new_regexp_def search_regexp_def strcmp_eq_0_iff[THEN iffD2, OF refl])
qed

lemma cache_regexp:
  assumes "regexps_ok re c" "vrbt_find regexpcmp (search_regexp t) (rxs_list c) = None" "re_compile re t = Some vre"
  shows "\<exists>list'. vrbt_insert regexpcmp (new_regexp t vre) (rxs_list c) = Inr (None, list')
    \<and> regexps_ok re \<lparr>rxs_list = list', rxs_n = rxs_n c + 1\<rparr>
    \<and> rx_texts \<lparr>rxs_list = list', rxs_n = rxs_n c + 1\<rparr> = insert t (rx_texts c)"
proof -
  have "vrbt_ok regexpcmp (rxs_list c)" "rx_text (new_regexp t vre) = t"
    using assms(1) by (simp_all add: regexps_ok_def new_regexp_def)
  then obtain list' where "vrbt_insert regexpcmp (new_regexp t vre) (rxs_list c) = Inr (None, list')"
      "vrbt_ok regexpcmp list'" "set (inorder list') = insert (new_regexp t vre) (set (inorder (rxs_list c)))"
      "length (inorder list') = Suc (length (inorder (rxs_list c)))"
    using rxcmp.insert_absent[of "rxs_list c" "new_regexp t vre"] assms(2) by auto
  then show ?thesis
    using assms(1,3) by (simp add: regexps_ok_def rx_texts_def new_regexp_def)
qed

lemma init_regexp_correct:
  assumes "regexps_ok re seen" "regexps_ok re c" "rx_texts seen \<subseteq> rx_texts c"
  shows "\<exists>c'. init_regexp re t cache seen c = Inr (re_compile re t, c') \<and> regexps_ok re c'
    \<and> rx_texts c' = (if cache \<and> re_compile re t \<noteq> None then insert t (rx_texts c) else rx_texts c)"
proof (cases cache)
  case False
  then show ?thesis
    using assms(2) by (cases "re_compile re t") (simp_all add: init_regexp_def)
next
  case True
  show ?thesis
  proof (cases "vrbt_find regexpcmp (search_regexp t) (rxs_list seen)")
    case (Some r)
    then show ?thesis
      using cached_regexp[OF assms(1) Some] assms(2,3) True by (auto simp: init_regexp_def)
  next
    case missed: None
    show ?thesis
    proof (cases "re_compile re t")
      case None
      then show ?thesis using missed assms(2) by (simp add: init_regexp_def)
    next
      case (Some vre)
      show ?thesis
      proof (cases "vrbt_find regexpcmp (search_regexp t) (rxs_list c)")
        case None
        then show ?thesis
          using cache_regexp[OF assms(2) None Some] missed Some True
          by (auto simp: init_regexp_def find_new_regexp Let_def)
      next
        case (Some r)
        then show ?thesis
          using cached_regexp[OF assms(2) Some] missed assms(2) True \<open>re_compile re t = Some vre\<close>
          by (auto simp: init_regexp_def find_new_regexp Let_def)
      qed
    qed
  qed
qed

text \<open>
  C14: The cache of compiled regexps cannot be noticed. Whatever other threads cached between the two
  critical sections, \<open>init_regexp\<close> never aborts and gives exactly what compiling afresh would, the
  counter stays the number of entries, a text is cached at most once and only when it compiles;
  so \<open>varnish.regmatch\<close> answers, or reports the error, as without a cache.
\<close>

theorem regexp_cache_transparent:
  assumes "regexps_ok re seen" "regexps_ok re c" "rx_texts seen \<subseteq> rx_texts c"
  shows "\<exists>c'. init_regexp re t cache seen c = Inr (re_compile re t, c') \<and> regexps_ok re c'
    \<and> rx_texts c' = (if cache \<and> re_compile re t \<noteq> None then insert t (rx_texts c) else rx_texts c)
    \<and> varnish_regmatch_command re ops ctx seen c string t cache = Inr (case re_compile re t of
          Some v \<Rightarrow> (re_match re v (Some string), None, ctx, c')
        | None \<Rightarrow> (case copy_or_fail ops ctx (regexp_error t) of (ctx', err) \<Rightarrow> (False, err, ctx', c')))"
proof -
  obtain c' where "init_regexp re t cache seen c = Inr (re_compile re t, c')" "regexps_ok re c'"
      "rx_texts c' = (if cache \<and> re_compile re t \<noteq> None then insert t (rx_texts c) else rx_texts c)"
    using init_regexp_correct[OF assms] by blast
  then show ?thesis
    by (intro exI[of _ c']) (auto simp: varnish_regmatch_command_def split: option.split prod.split)
qed

theorem regexp_cache_transparent_witness:
  "\<exists>c'. init_regexp literal_vre ''ab'' True \<lparr>rxs_list = Leaf, rxs_n = 0\<rparr>
      \<lparr>rxs_list = Node Black Leaf (new_regexp ''ab'' ''ab'') Leaf, rxs_n = 1\<rparr> = Inr (Some ''ab'', c')
    \<and> rx_texts c' = {''ab''}"
proof -
  let ?seen = "\<lparr>rxs_list = Leaf, rxs_n = 0\<rparr> :: string regexps"
  let ?c = "\<lparr>rxs_list = Node Black Leaf (new_regexp ''ab'' ''ab'') Leaf, rxs_n = 1\<rparr> :: string regexps"
  have ok: "regexps_ok literal_vre ?seen" "regexps_ok literal_vre ?c" "rx_texts ?seen \<subseteq> rx_texts ?c"
    by (simp_all add: regexps_ok_def rx_texts_def new_regexp_def literal_vre_def vrbt_ok_def rb_tree_def)
  have facts: "re_compile literal_vre ''ab'' = Some ''ab''" "rx_texts ?c = {''ab''}"
    by (simp_all add: literal_vre_def rx_texts_def new_regexp_def)
  obtain c' where "init_regexp literal_vre ''ab'' True ?seen ?c = Inr (re_compile literal_vre ''ab'', c')"
      "rx_texts c' = (if True \<and> re_compile literal_vre ''ab'' \<noteq> None then insert ''ab'' (rx_texts ?c) else rx_texts ?c)"
    using regexp_cache_transparent[OF ok, of "''ab''" True counting_ws
        "\<lparr>ctx_ws = 9, ctx_method = MET_OTHER, ctx_vsb = [], ctx_fails = [], ctx_http = ()\<rparr>" "[]"] by blast
  then show ?thesis
    unfolding facts by (intro exI[of _ c']) simp
qed

section \<open>Headers\<close>

lemma get_http_where_names:
  "get_http_where ''req'' = Inr HDR_REQ" "get_http_where ''req-top'' = Inr HDR_REQ_TOP"
  "get_http_where ''bereq'' = Inr HDR_BEREQ" "get_http_where ''resp'' = Inr HDR_RESP"
  "get_http_where ''beresp'' = Inr HDR_BERESP" "get_http_where ''obj'' = Inr HDR_OBJ"
  by (simp_all add: get_http_where_def)

lemma http_object_set [simp]:
  "http_object (set_http_object he x h) he' = (if he' = he then Some x else http_object h he')"
  by (cases he; cases he') simp_all

declare http_object.simps [simp del] set_http_object.simps [simp del]

lemma header_command_at:
  assumes "map_of [(''req'', HDR_REQ), (''req-top'', HDR_REQ_TOP), (''bereq'', HDR_BEREQ),
      (''beresp'', HDR_BERESP), (''resp'', HDR_RESP)] w = Some he"
  shows "varnish_set_header_command hops ops ctx name val w = (case http_object (ctx_http ctx) he of
        Some x \<Rightarrow> Inr (None, ctx\<lparr>ctx_http := set_http_object he (hdr_set hops x (hdr_name name) val) (ctx_http ctx)\<rparr>)
      | None \<Rightarrow> (case copy_or_fail ops ctx (header_error ''set_header'' w) of (ctx', err) \<Rightarrow> Inr (err, ctx')))"
    and "varnish_get_header_command hops ops ctx name w = (case http_object (ctx_http ctx) he of
        Some x \<Rightarrow> Inr (hdr_get hops x (hdr_name name), None, ctx)
      | None \<Rightarrow> (case copy_or_fail ops ctx (header_error ''get_header'' w) of (ctx', err) \<Rightarrow> Inr (None, err, ctx')))"
  using assms
  by (auto simp: varnish_set_header_command_def varnish_get_header_command_def get_http_where_names
      simp del: option.case_eq_if split: if_splits)


end
