(* ===== verification/Shared.thy ===== *)
theory Shared
  imports Variables
begin

text \<open>
  The state of a task and the shared variables of \<open>script_helpers.c\<close>: \<open>varnish.shared.get\<close>, \<open>set\<close>
  and \<open>unset\<close> on the variables of one task, which live in its workspace, and on the global ones of
  the script, which live on the heap. \<open>is_locked\<close> only says who takes the read-write lock and is
  left out.
\<close>

section \<open>Results and task state\<close>

definition MAX_RESULT_VALUES :: nat where
  "MAX_RESULT_VALUES = 128"

definition MAX_EXECUTION_ARGS :: nat where
  "MAX_EXECUTION_ARGS = 128"

text \<open>The union is read only under the type that was written: one constructor for each type.\<close>

datatype 'd result_value =
    RESULT_ERROR
  | RESULT_NIL
  | RESULT_BOOLEAN bool
  | RESULT_NUMBER 'd
  | RESULT_STRING "string option"
  | RESULT_TABLE

record 'd result =
  nvalues :: int
  result_values :: "'d result_value list"

text \<open>
  A variable of a task: \<open>WS_Copy\<close> may leave its value NULL. Its tree is ordered by the same
  \<open>variablecmp\<close>, that is, by the names.
\<close>

record task_variable =
  tv_name :: string
  tv_value :: "string option"

type_synonym task_variables = "task_variable vrbt"

definition tvcmp :: "task_variable \<Rightarrow> task_variable \<Rightarrow> int" where
  "tvcmp v1 v2 = strcmp (tv_name v1) (tv_name v2)"

definition tv_key :: "string \<Rightarrow> task_variable" where
  "tv_key name = \<lparr>tv_name = name, tv_value = None\<rparr>"

interpretation tvcmp: keyed tvcmp tv_name tv_key
  by unfold_locales (simp_all add: tvcmp_def tv_key_def)

definition find_task_variable :: "task_variables \<Rightarrow> string \<Rightarrow> task_variable option" where
  "find_task_variable vs name = vrbt_find tvcmp (tv_key name) vs"

record 'd task_state =
  ts_variables :: task_variables
  ts_code :: "string option"
  ts_argc :: int
  ts_argv :: "string option list"
  ts_result :: "'d result"

text \<open>\<open>memset\<close> to 0 makes every value \<open>RESULT_VALUE_TYPE_ERROR\<close>.\<close>

definition empty_result :: "'d result" where
  "empty_result = \<lparr>nvalues = -1, result_values = replicate MAX_RESULT_VALUES RESULT_ERROR\<rparr>"

definition reset_task_state :: "bool \<Rightarrow> bool \<Rightarrow> 'd task_state \<Rightarrow> 'd task_state" where
  "reset_task_state reset_variables reset_execution s =
     (let s1 = (if reset_variables then s\<lparr>ts_variables := Leaf\<rparr> else s)
      in if reset_execution
         then s1\<lparr>ts_code := None, ts_argc := -1, ts_argv := replicate MAX_EXECUTION_ARGS None,
                 ts_result := empty_result\<rparr>
         else s1)"

text \<open>\<open>ALLOC_OBJ\<close> zeroes the object before it is reset.\<close>

definition new_task_state :: "'d task_state" where
  "new_task_state = reset_task_state True True
     \<lparr>ts_variables = Leaf, ts_code = None, ts_argc = 0, ts_argv = replicate MAX_EXECUTION_ARGS None,
      ts_result = \<lparr>nvalues = 0, result_values = replicate MAX_RESULT_VALUES RESULT_ERROR\<rparr>\<rparr>"

text \<open>\<open>task_priv->priv\<close> before; the state it points to afterwards.\<close>

definition get_task_state :: "'d task_state option \<Rightarrow> bool \<Rightarrow> 'd task_state" where
  "get_task_state priv reset_execution =
     (let s = (case priv of None \<Rightarrow> new_task_state | Some s \<Rightarrow> s)
      in if reset_execution then reset_task_state False True s else s)"

section \<open>Shared variables\<close>

text \<open>
  What a script sees: the variables of its task, the global ones and their number.
\<close>

record shared =
  sh_task :: task_variables
  sh_global :: variables
  sh_n :: uint32

text \<open>\<open>sizeof(variable_t)\<close> with 64-bit pointers.\<close>

definition sizeof_variable :: nat where
  "sizeof_variable = 56"

definition varnish_shared_get_command ::
  "'w ws_ops \<Rightarrow> ('w, 'h) vrt_ctx \<Rightarrow> shared \<Rightarrow> string \<Rightarrow> string \<Rightarrow> string option \<times> ('w, 'h) vrt_ctx" where
  "varnish_shared_get_command ops ctx sh key scope =
     (if strcmp scope ''task'' = 0 \<or> strcmp scope ''global'' = 0 \<or> strcmp scope ''all'' = 0
      then
        (case (if strcmp scope ''task'' = 0 \<or> strcmp scope ''all'' = 0
               then find_task_variable (sh_task sh) key else None) of
           Some v \<Rightarrow> (tv_value v, ctx)
         | None \<Rightarrow>
             if strcmp scope ''global'' = 0 \<or> strcmp scope ''all'' = 0
             then (case find_variable (sh_global sh) key of
                 None \<Rightarrow> (None, ctx)
               | Some v \<Rightarrow> (case copy_or_fail ops ctx (var_value v) of (ctx', r) \<Rightarrow> (r, ctx')))
             else (None, ctx))
      else (None, ctx))"

text \<open>
  The node of a task variable: found, or allocated, named and inserted. None after a \<open>FAIL_WS\<close>.
\<close>

definition task_node ::
  "'w ws_ops \<Rightarrow> ('w, 'h) vrt_ctx \<Rightarrow> string \<Rightarrow> task_variables \<Rightarrow> (task_variables option \<times> ('w, 'h) vrt_ctx) res" where
  "task_node ops ctx key vs =
     (case find_task_variable vs key of
        Some v \<Rightarrow> Inr (Some vs, ctx)
      | None \<Rightarrow>
          (case ws_alloc ops (ctx_ws ctx) sizeof_variable of
             (w, False) \<Rightarrow> Inr (None, vrt_fail Workspace_Overflow (ctx\<lparr>ctx_ws := w\<rparr>))
           | (w, True) \<Rightarrow>
               (case copy_or_fail ops (ctx\<lparr>ctx_ws := w\<rparr>) key of
                  (ctx', None) \<Rightarrow> Inr (None, ctx')
                | (ctx', Some name) \<Rightarrow>
                    res_bind (vrbt_insert tvcmp \<lparr>tv_name = name, tv_value = None\<rparr> vs) (\<lambda>(old, vs').
                      must (old = None) (Inr (Some vs', ctx'))))))"

definition varnish_shared_set_command ::
  "'w ws_ops \<Rightarrow> ('w, 'h) vrt_ctx \<Rightarrow> shared \<Rightarrow> string \<Rightarrow> string \<Rightarrow> string \<Rightarrow> (('w, 'h) vrt_ctx \<times> shared) res" where
  "varnish_shared_set_command ops ctx sh key val scope =
     (if strcmp scope ''task'' = 0 \<or> strcmp scope ''global'' = 0
      then
        (if strcmp scope ''task'' = 0
         then res_bind (task_node ops ctx key (sh_task sh)) (\<lambda>(node, ctx1).
                case node of
                  None \<Rightarrow> Inr (ctx1, sh)
                | Some vs \<Rightarrow> (case copy_or_fail ops ctx1 val of (ctx2, copied) \<Rightarrow>
                    Inr (ctx2, sh\<lparr>sh_task :=
                      vrbt_assign tvcmp (tv_key key) (\<lambda>v. v\<lparr>tv_value := copied\<rparr>) vs\<rparr>)))
         else (case find_variable (sh_global sh) key of
             None \<Rightarrow> res_bind (insert_variable (new_global_variable key (length key) val) (sh_global sh)) (\<lambda>vs.
                 Inr (ctx, sh\<lparr>sh_global := vs, sh_n := sh_n sh + 1\<rparr>))
           | Some v \<Rightarrow> Inr (ctx, sh\<lparr>sh_global := assign_variable key val (sh_global sh)\<rparr>)))
      else Inr (ctx, sh))"

definition varnish_shared_unset_command :: "shared \<Rightarrow> string \<Rightarrow> string \<Rightarrow> shared res" where
  "varnish_shared_unset_command sh key scope =
     (if strcmp scope ''task'' = 0 \<or> strcmp scope ''global'' = 0 \<or> strcmp scope ''all'' = 0
      then
        res_bind
          (if strcmp scope ''task'' = 0 \<or> strcmp scope ''all'' = 0
           then (case find_task_variable (sh_task sh) key of
               None \<Rightarrow> Inr sh
             | Some v \<Rightarrow> res_bind (vrbt_remove tvcmp v (sh_task sh)) (\<lambda>vs. Inr (sh\<lparr>sh_task := vs\<rparr>)))
           else Inr sh)
          (\<lambda>sh1. if strcmp scope ''global'' = 0 \<or> strcmp scope ''all'' = 0
            then (case find_variable (sh_global sh1) key of
                None \<Rightarrow> Inr sh1
              | Some v \<Rightarrow> res_bind (remove_variable v (sh_global sh1)) (\<lambda>vs.
                  Inr (sh1\<lparr>sh_global := vs, sh_n := sh_n sh1 - 1\<rparr>)))
            else Inr sh1)
      else Inr sh)"

section \<open>Two maps\<close>

text \<open>
  What the commands promise: a map for the task and a map for all tasks, and how \<open>scope\<close> chooses
  between them. A script runs a sequence of commands.
\<close>

datatype shared_command =
    Shared_Get string string
  | Shared_Set string string string
  | Shared_Unset string string

type_synonym shared_maps = "(string \<Rightarrow> string option) \<times> (string \<Rightarrow> string option)"

fun spec_command :: "shared_command \<Rightarrow> shared_maps \<Rightarrow> string option \<times> shared_maps" where
  "spec_command (Shared_Get k scope) (t, g) =
     (if scope = ''task'' then t k
      else if scope = ''global'' then g k
      else if scope = ''all'' then (case t k of None \<Rightarrow> g k | Some v \<Rightarrow> Some v)
      else None, t, g)"
| "spec_command (Shared_Set k v scope) (t, g) =
     (None, if scope = ''task'' then t(k \<mapsto> v) else t, if scope = ''global'' then g(k \<mapsto> v) else g)"
| "spec_command (Shared_Unset k scope) (t, g) =
     (None, if scope \<in> {''task'', ''all''} then t(k := None) else t,
      if scope \<in> {''global'', ''all''} then g(k := None) else g)"

fun run_command ::
  "'w ws_ops \<Rightarrow> shared_command \<Rightarrow> ('w, 'h) vrt_ctx \<times> shared \<Rightarrow> (string option \<times> ('w, 'h) vrt_ctx \<times> shared) res" where
  "run_command ops (Shared_Get k scope) (ctx, sh) =
     (case varnish_shared_get_command ops ctx sh k scope of (r, ctx') \<Rightarrow> Inr (r, ctx', sh))"
| "run_command ops (Shared_Set k v scope) (ctx, sh) =
     res_bind (varnish_shared_set_command ops ctx sh k v scope) (\<lambda>(ctx', sh'). Inr (None, ctx', sh'))"
| "run_command ops (Shared_Unset k scope) (ctx, sh) =
     res_bind (varnish_shared_unset_command sh k scope) (\<lambda>sh'. Inr (None, ctx, sh'))"

fun run_commands ::
  "'w ws_ops \<Rightarrow> shared_command list \<Rightarrow> ('w, 'h) vrt_ctx \<times> shared \<Rightarrow> (string option list \<times> ('w, 'h) vrt_ctx \<times> shared) res" where
  "run_commands ops [] s = Inr ([], s)"
| "run_commands ops (c # cs) s =
     res_bind (run_command ops c s) (\<lambda>(r, s'). res_bind (run_commands ops cs s') (\<lambda>(rs, s''). Inr (r # rs, s'')))"

fun spec_commands :: "shared_command list \<Rightarrow> shared_maps \<Rightarrow> string option list \<times> shared_maps" where
  "spec_commands [] m = ([], m)"
| "spec_commands (c # cs) m =
     (case spec_command c m of (r, m') \<Rightarrow> (case spec_commands cs m' of (rs, m'') \<Rightarrow> (r # rs, m'')))"

section \<open>The commands implement the maps\<close>

definition task_map :: "task_variables \<Rightarrow> string \<Rightarrow> string option option" where
  "task_map vs name = map_option tv_value (find_task_variable vs name)"

definition shared_ok :: "shared \<Rightarrow> bool" where
  "shared_ok sh \<longleftrightarrow> vrbt_ok tvcmp (sh_task sh) \<and> vars_ok (sh_global sh)
     \<and> sh_n sh = of_nat (length (inorder (sh_global sh)))"

text \<open>No task variable has a NULL value: so it is until the workspace overflows.\<close>

definition values_set :: "shared \<Rightarrow> bool" where
  "values_set sh \<longleftrightarrow> (\<forall>k. task_map (sh_task sh) k \<noteq> Some None)"

definition shared_maps :: "shared \<Rightarrow> shared_maps" where
  "shared_maps sh =
     ((\<lambda>k. case task_map (sh_task sh) k of None \<Rightarrow> None | Some v \<Rightarrow> v), lookup_value (sh_global sh))"

lemma task_map_find: "task_map vs k = None \<longleftrightarrow> find_task_variable vs k = None"
  by (simp add: task_map_def)

lemma task_node_outcome:
  assumes "vrbt_ok tvcmp vs" "ws_faithful ops"
  shows "\<exists>node ctx'. task_node ops ctx key vs = Inr (node, ctx') \<and> (case node of
      None \<Rightarrow> ctx_fails ctx' = ctx_fails ctx @ [Workspace_Overflow]
    | Some vs' \<Rightarrow> ctx_fails ctx' = ctx_fails ctx \<and> vrbt_ok tvcmp vs' \<and> task_map vs' key \<noteq> None
        \<and> (\<forall>n. n \<noteq> key \<longrightarrow> task_map vs' n = task_map vs n))"
proof (cases "find_task_variable vs key")
  case (Some v)
  then show ?thesis using assms(1) by (simp add: task_node_def task_map_def)
next
  case absent: None
  obtain w b where alloc: "ws_alloc ops (ctx_ws ctx) sizeof_variable = (w, b)"
    by (cases "ws_alloc ops (ctx_ws ctx) sizeof_variable")
  show ?thesis
  proof (cases b)
    case False
    then show ?thesis using absent alloc by (simp add: task_node_def vrt_fail_def)
  next
    case True
    show ?thesis
    proof (rule copy_or_fail_cases[OF assms(2), of "ctx\<lparr>ctx_ws := w\<rparr>" key])
      fix w'
      assume c: "copy_or_fail ops (ctx\<lparr>ctx_ws := w\<rparr>) key = (ctx\<lparr>ctx_ws := w\<rparr>\<lparr>ctx_ws := w'\<rparr>, Some key)"
      obtain vs' where "vrbt_insert tvcmp \<lparr>tv_name = key, tv_value = None\<rparr> vs = Inr (None, vs')"
          "vrbt_ok tvcmp vs'"
          "\<forall>n. vrbt_find tvcmp (tv_key n) vs'
            = (if n = key then Some \<lparr>tv_name = key, tv_value = None\<rparr> else vrbt_find tvcmp (tv_key n) vs)"
        using tvcmp.insert_absent[OF assms(1), of "\<lparr>tv_name = key, tv_value = None\<rparr>"] absent
        by (auto simp: find_task_variable_def)
      then show ?thesis
        using absent alloc True c by (simp add: task_node_def task_map_def find_task_variable_def)
    next
      fix w'
      assume "copy_or_fail ops (ctx\<lparr>ctx_ws := w\<rparr>) key
        = (vrt_fail Workspace_Overflow (ctx\<lparr>ctx_ws := w\<rparr>\<lparr>ctx_ws := w'\<rparr>), None)"
      then show ?thesis using absent alloc True by (simp add: task_node_def vrt_fail_def)
    qed
  qed
qed

lemma assign_task_variable:
  assumes "vrbt_ok tvcmp vs" "task_map vs key \<noteq> None"
  shows "vrbt_ok tvcmp (vrbt_assign tvcmp (tv_key key) (\<lambda>v. v\<lparr>tv_value := x\<rparr>) vs)
    \<and> task_map (vrbt_assign tvcmp (tv_key key) (\<lambda>v. v\<lparr>tv_value := x\<rparr>) vs) = (task_map vs)(key \<mapsto> x)"
  using tvcmp.assign_at[OF assms(1), of "\<lambda>v. v\<lparr>tv_value := x\<rparr>" key] assms(2)
  by (auto simp: task_map_def find_task_variable_def fun_eq_iff)

lemma remove_task_variable:
  assumes "vrbt_ok tvcmp vs" "find_task_variable vs key = Some v"
  shows "\<exists>vs'. vrbt_remove tvcmp v vs = Inr vs' \<and> vrbt_ok tvcmp vs' \<and> task_map vs' = (task_map vs)(key := None)"
proof -
  have v: "v \<in> set (inorder vs)" "tv_name v = key"
    using assms tvcmp.find_Some by (auto simp: find_task_variable_def)
  show ?thesis
    using tvcmp.remove_present_at[OF assms(1) v(1)] v(2)
    by (auto simp: task_map_def find_task_variable_def fun_eq_iff)
qed

lemma add_global:
  assumes "vars_ok vs" "find_variable vs key = None"
  shows "\<exists>vs'. insert_variable (new_global_variable key (length key) val) vs = Inr vs' \<and> vars_ok vs'
    \<and> lookup_value vs' = (lookup_value vs)(key \<mapsto> val) \<and> length (inorder vs') = Suc (length (inorder vs))"
  using vcmp.insert_absent[of vs "new_global_variable key (length key) val"] assms
  by (auto simp: vars_ok_def insert_variable_def find_variable_def lookup_value_def new_global_variable_def
      fun_eq_iff)

lemma assign_global:
  assumes "vars_ok vs" "find_variable vs key = Some v"
  shows "vars_ok (assign_variable key val vs)
    \<and> lookup_value (assign_variable key val vs) = (lookup_value vs)(key \<mapsto> val)
    \<and> length (inorder (assign_variable key val vs)) = length (inorder vs)"
  using vcmp.assign_at[of vs "\<lambda>v. v\<lparr>var_value := val\<rparr>" key] assms
  by (auto simp: vars_ok_def assign_variable_def find_variable_def lookup_value_def fun_eq_iff)

lemma remove_global:
  assumes "vars_ok vs" "find_variable vs key = Some v"
  shows "\<exists>vs'. remove_variable v vs = Inr vs' \<and> vars_ok vs' \<and> lookup_value vs' = (lookup_value vs)(key := None)
    \<and> Suc (length (inorder vs')) = length (inorder vs)"
proof -
  have v: "v \<in> set (inorder vs)" "var_name v = key"
    using assms find_variable_Some by auto
  obtain vs' where vs': "remove_variable v vs = Inr vs'" "vars_ok vs'"
      "inorder vs' = filter (\<lambda>w. var_name w \<noteq> var_name v) (inorder vs)"
      "lookup_value vs' = (lookup_value vs)(var_name v := None)"
    using remove_variable_correct[OF assms(1) v(1)] by blast
  obtain l r where split: "inorder vs = l @ v # r"
    using v(1) by (meson split_list)
  have "\<forall>w \<in> set (l @ r). var_name w \<noteq> var_name v"
    using names_distinct[OF assms(1)] by (auto simp: split image_iff)
  then have "filter (\<lambda>w. var_name w \<noteq> var_name v) (l @ r) = l @ r"
    by (intro filter_True) simp
  then have "inorder vs' = l @ r"
    using vs'(3) by (simp add: split)
  then show ?thesis using vs' v(2) split by simp
qed

text \<open>How one command relates to the maps, with what may go wrong.\<close>

definition implements :: "shared_command \<Rightarrow> ('w, 'h) vrt_ctx \<times> shared \<Rightarrow> string option \<times> ('w, 'h) vrt_ctx \<times> shared \<Rightarrow> bool" where
  "implements c s r = (case (s, r) of ((ctx, sh), (result, ctx', sh')) \<Rightarrow>
     shared_ok sh'
     \<and> (\<exists>fs. ctx_fails ctx' = ctx_fails ctx @ fs \<and> set fs \<subseteq> {Workspace_Overflow}
        \<and> (fs = [] \<longrightarrow> values_set sh \<longrightarrow>
            values_set sh' \<and> spec_command c (shared_maps sh) = (result, shared_maps sh'))))"

lemma implements_ok:
  assumes "shared_ok sh'" "ctx_fails ctx' = ctx_fails ctx"
    and "values_set sh \<Longrightarrow> values_set sh' \<and> spec_command c (shared_maps sh) = (result, shared_maps sh')"
  shows "implements c (ctx, sh) (result, ctx', sh')"
  using assms by (simp add: implements_def)

lemma implements_overflow:
  assumes "shared_ok sh'" "ctx_fails ctx' = ctx_fails ctx @ [Workspace_Overflow]"
  shows "implements c (ctx, sh) (result, ctx', sh')"
  using assms by (simp add: implements_def)

lemma get_implements:
  assumes "shared_ok sh" "ws_faithful ops"
  shows "\<exists>r. run_command ops (Shared_Get k scope) (ctx, sh) = Inr r
    \<and> implements (Shared_Get k scope) (ctx, sh) r"
proof -
  note defs = varnish_shared_get_command_def shared_maps_def task_map_def lookup_value_def
  have not_null: "\<forall>v. values_set sh \<longrightarrow> find_task_variable (sh_task sh) k = Some v \<longrightarrow> tv_value v \<noteq> None"
    by (auto simp: values_set_def task_map_def)
  have global: "\<exists>r. (case find_variable (sh_global sh) k of None \<Rightarrow> (None, ctx)
      | Some v \<Rightarrow> (case copy_or_fail ops ctx (var_value v) of (ctx', r) \<Rightarrow> (r, ctx'))) = r
      \<and> (r = (lookup_value (sh_global sh) k, snd r) \<and> ctx_fails (snd r) = ctx_fails ctx
         \<or> ctx_fails (snd r) = ctx_fails ctx @ [Workspace_Overflow])"
  proof (cases "find_variable (sh_global sh) k")
    case (Some v)
    then show ?thesis
      by (rule_tac copy_or_fail_cases[OF assms(2), of ctx "var_value v"])
         (auto simp: lookup_value_def vrt_fail_def)
  qed (simp add: lookup_value_def)
  obtain r where r: "varnish_shared_get_command ops ctx sh k scope = r" by blast
  have "ctx_fails (snd r) = ctx_fails ctx @ [Workspace_Overflow]
      \<or> ctx_fails (snd r) = ctx_fails ctx
        \<and> (values_set sh \<longrightarrow> spec_command (Shared_Get k scope) (shared_maps sh) = (fst r, shared_maps sh))"
    using r global not_null
    by (cases "find_task_variable (sh_task sh) k"; cases "scope = ''task''"; cases "scope = ''global''";
        cases "scope = ''all''") (auto simp: defs split: option.splits prod.splits)
  then show ?thesis
    using r assms(1) by (cases r) (auto intro: implements_ok implements_overflow)
qed

lemma unset_implements:
  assumes "shared_ok sh"
  shows "\<exists>r. run_command ops (Shared_Unset k scope) (ctx, sh) = Inr r
    \<and> implements (Shared_Unset k scope) (ctx, sh) r"
proof -
  let ?t = "scope = ''task'' \<or> scope = ''all''" and ?g = "scope = ''global'' \<or> scope = ''all''"
  obtain sh1 where sh1: "(if ?t then (case find_task_variable (sh_task sh) k of None \<Rightarrow> Inr sh
        | Some v \<Rightarrow> res_bind (vrbt_remove tvcmp v (sh_task sh)) (\<lambda>vs. Inr (sh\<lparr>sh_task := vs\<rparr>)))
      else Inr sh) = Inr sh1" "shared_ok sh1" "sh_global sh1 = sh_global sh"
      "task_map (sh_task sh1) = (if ?t then (task_map (sh_task sh))(k := None) else task_map (sh_task sh))"
  proof (cases "find_task_variable (sh_task sh) k")
    case None
    then have "(task_map (sh_task sh))(k := None) = task_map (sh_task sh)"
      by (auto simp: task_map_def)
    then show ?thesis using that[of sh] None assms by simp
  next
    case (Some v)
    then obtain vs where "vrbt_remove tvcmp v (sh_task sh) = Inr vs" "vrbt_ok tvcmp vs"
        "task_map vs = (task_map (sh_task sh))(k := None)"
      using remove_task_variable[OF _ Some] assms unfolding shared_ok_def by blast
    then show ?thesis
      using that[of "if ?t then sh\<lparr>sh_task := vs\<rparr> else sh"] Some assms by (auto simp: shared_ok_def split: if_splits)
  qed
  obtain sh2 where sh2: "(if ?g then (case find_variable (sh_global sh1) k of None \<Rightarrow> Inr sh1
        | Some v \<Rightarrow> res_bind (remove_variable v (sh_global sh1)) (\<lambda>vs.
            Inr (sh1\<lparr>sh_global := vs, sh_n := sh_n sh1 - 1\<rparr>)))
      else Inr sh1) = Inr sh2" "shared_ok sh2" "sh_task sh2 = sh_task sh1"
      "lookup_value (sh_global sh2)
        = (if ?g then (lookup_value (sh_global sh1))(k := None) else lookup_value (sh_global sh1))"
  proof (cases "find_variable (sh_global sh1) k")
    case None
    then have "(lookup_value (sh_global sh1))(k := None) = lookup_value (sh_global sh1)"
      by (auto simp: lookup_value_def)
    then show ?thesis using that[of sh1] None sh1(2) by simp
  next
    case (Some v)
    then obtain vs where vs: "remove_variable v (sh_global sh1) = Inr vs" "vars_ok vs"
        "lookup_value vs = (lookup_value (sh_global sh1))(k := None)"
        "Suc (length (inorder vs)) = length (inorder (sh_global sh1))"
      using remove_global[OF _ Some] sh1(2) unfolding shared_ok_def by blast
    then have "of_nat (length (inorder (sh_global sh1))) - 1 = (of_nat (length (inorder vs)) :: uint32)"
      by (metis add_diff_cancel_left' of_nat_Suc)
    then show ?thesis
      using that[of "if ?g then sh1\<lparr>sh_global := vs, sh_n := sh_n sh1 - 1\<rparr> else sh1"] Some vs sh1(2)
      by (auto simp: shared_ok_def split: if_splits)
  qed
  have run: "run_command ops (Shared_Unset k scope) (ctx, sh) = Inr (None, ctx, sh2)"
    using sh1(1) sh2(1) unfolding run_command.simps varnish_shared_unset_command_def strcmp_eq_0_iff
    by (auto split: if_splits)
  show ?thesis
    unfolding run using sh1 sh2
    by (intro exI[of _ "(None, ctx, sh2)"] conjI refl implements_ok)
       (auto simp: values_set_def shared_maps_def fun_eq_iff)
qed

lemma set_task_implements:
  assumes "shared_ok sh" "ws_faithful ops"
  shows "\<exists>r. run_command ops (Shared_Set k v ''task'') (ctx, sh) = Inr r
    \<and> implements (Shared_Set k v ''task'') (ctx, sh) r"
proof -
  have task: "vrbt_ok tvcmp (sh_task sh)" using assms(1) by (simp add: shared_ok_def)
  obtain node ctx1 where node: "task_node ops ctx k (sh_task sh) = Inr (node, ctx1)"
      "case node of None \<Rightarrow> ctx_fails ctx1 = ctx_fails ctx @ [Workspace_Overflow]
       | Some vs' \<Rightarrow> ctx_fails ctx1 = ctx_fails ctx \<and> vrbt_ok tvcmp vs' \<and> task_map vs' k \<noteq> None
           \<and> (\<forall>n. n \<noteq> k \<longrightarrow> task_map vs' n = task_map (sh_task sh) n)"
    using task_node_outcome[OF task assms(2)] by blast
  show ?thesis
  proof (cases node)
    case None
    then have "run_command ops (Shared_Set k v ''task'') (ctx, sh) = Inr (None, ctx1, sh)"
      using node(1) by (simp add: varnish_shared_set_command_def)
    then show ?thesis
      using node(2) None assms(1) by (auto intro: implements_overflow)
  next
    case (Some vs)
    define assigned where "assigned x = vrbt_assign tvcmp (tv_key k) (\<lambda>w. w\<lparr>tv_value := x\<rparr>) vs" for x
    have vs: "vrbt_ok tvcmp (assigned x)" "task_map (assigned x) = (task_map (sh_task sh))(k \<mapsto> x)" for x
      using assign_task_variable[of vs k x] node(2) Some by (auto simp: assigned_def fun_eq_iff)
    have ok: "shared_ok (sh\<lparr>sh_task := assigned x\<rparr>)" for x
      using assms(1) vs(1) by (simp add: shared_ok_def)
    obtain ctx2 copied where copy: "copy_or_fail ops ctx1 v = (ctx2, copied)"
      by (cases "copy_or_fail ops ctx1 v")
    have run: "run_command ops (Shared_Set k v ''task'') (ctx, sh)
        = Inr (None, ctx2, sh\<lparr>sh_task := assigned copied\<rparr>)"
      using node(1) Some copy by (simp add: varnish_shared_set_command_def assigned_def)
    have fails: "ctx_fails ctx1 = ctx_fails ctx" using node(2) Some by simp
    consider "copied = Some v" "ctx_fails ctx2 = ctx_fails ctx"
      | "ctx_fails ctx2 = ctx_fails ctx @ [Workspace_Overflow]"
    proof (rule copy_or_fail_cases[OF assms(2), of ctx1 v])
    qed (use copy fails in \<open>auto simp: vrt_fail_def\<close>)
    then show ?thesis
    proof cases
      case 1
      have "implements (Shared_Set k v ''task'') (ctx, sh) (None, ctx2, sh\<lparr>sh_task := assigned (Some v)\<rparr>)"
        using ok 1(2) by (intro implements_ok) (auto simp: values_set_def shared_maps_def vs fun_eq_iff)
      then show ?thesis using run 1(1) by simp
    next
      case 2
      then show ?thesis using run ok by (auto intro: implements_overflow)
    qed
  qed
qed

lemma set_global_implements:
  assumes "shared_ok sh"
  shows "\<exists>r. run_command ops (Shared_Set k v ''global'') (ctx, sh) = Inr r
    \<and> implements (Shared_Set k v ''global'') (ctx, sh) r"
proof -
  have vars: "vars_ok (sh_global sh)" using assms by (simp add: shared_ok_def)
  obtain sh' where run: "varnish_shared_set_command ops ctx sh k v ''global'' = Inr (ctx, sh')"
      and sh': "shared_ok sh'" "sh_task sh' = sh_task sh"
        "lookup_value (sh_global sh') = (lookup_value (sh_global sh))(k \<mapsto> v)"
  proof (cases "find_variable (sh_global sh) k")
    case None
    obtain vs where "insert_variable (new_global_variable k (length k) v) (sh_global sh) = Inr vs" "vars_ok vs"
        "lookup_value vs = (lookup_value (sh_global sh))(k \<mapsto> v)"
        "length (inorder vs) = Suc (length (inorder (sh_global sh)))"
      using add_global[OF vars None] by blast
    then show ?thesis
      using that[of "sh\<lparr>sh_global := vs, sh_n := sh_n sh + 1\<rparr>"] None assms
      by (simp add: varnish_shared_set_command_def shared_ok_def)
  next
    case (Some w)
    then show ?thesis
      using that[of "sh\<lparr>sh_global := assign_variable k v (sh_global sh)\<rparr>"] assign_global[OF vars Some, of v] assms
      by (simp add: varnish_shared_set_command_def shared_ok_def)
  qed
  then show ?thesis
    by (intro exI[of _ "(None, ctx, sh')"] conjI implements_ok)
       (auto simp: values_set_def shared_maps_def fun_eq_iff)
qed

lemma run_command_implements:
  assumes "shared_ok sh" "ws_faithful ops"
  shows "\<exists>r. run_command ops c (ctx, sh) = Inr r \<and> implements c (ctx, sh) r"
proof (cases c)
  case (Shared_Get k scope)
  then show ?thesis using get_implements[OF assms] by simp
next
  case (Shared_Unset k scope)
  then show ?thesis using unset_implements[OF assms(1)] by simp
next
  case (Shared_Set k v scope)
  consider "scope = ''task''" | "scope = ''global''" | "scope \<noteq> ''task''" "scope \<noteq> ''global''" by blast
  then show ?thesis
  proof cases
    case 3
    then have "run_command ops c (ctx, sh) = Inr (None, ctx, sh)"
      using Shared_Set by (simp add: varnish_shared_set_command_def)
    then show ?thesis
      using 3 assms(1) Shared_Set by (auto simp: shared_maps_def intro!: implements_ok)
  qed (use Shared_Set set_task_implements[OF assms] set_global_implements[OF assms(1)] in simp_all)
qed

lemma run_commands_implement:
  assumes "shared_ok sh" "ws_faithful ops"
  shows "\<exists>rs ctx' sh'. run_commands ops cs (ctx, sh) = Inr (rs, ctx', sh') \<and> shared_ok sh'
    \<and> (\<exists>fs. ctx_fails ctx' = ctx_fails ctx @ fs
        \<and> (fs = [] \<longrightarrow> values_set sh \<longrightarrow> spec_commands cs (shared_maps sh) = (rs, shared_maps sh')))"
  using assms(1)
proof (induction cs arbitrary: ctx sh)
  case (Cons c cs)
  obtain r ctx1 sh1 where r: "run_command ops c (ctx, sh) = Inr (r, ctx1, sh1)"
      "implements c (ctx, sh) (r, ctx1, sh1)"
    using run_command_implements[OF Cons.prems assms(2)] by (metis prod_cases3)
  then obtain fs where fs: "shared_ok sh1" "ctx_fails ctx1 = ctx_fails ctx @ fs"
      "fs = [] \<Longrightarrow> values_set sh \<Longrightarrow> values_set sh1 \<and> spec_command c (shared_maps sh) = (r, shared_maps sh1)"
    by (auto simp: implements_def)
  obtain rs ctx2 sh2 gs where rs: "run_commands ops cs (ctx1, sh1) = Inr (rs, ctx2, sh2)" "shared_ok sh2"
      "ctx_fails ctx2 = ctx_fails ctx1 @ gs"
      "gs = [] \<Longrightarrow> values_set sh1 \<Longrightarrow> spec_commands cs (shared_maps sh1) = (rs, shared_maps sh2)"
    using Cons.IH[OF fs(1)] by blast
  show ?case
    using r(1) rs fs by (intro exI[of _ "r # rs"] exI[of _ ctx2] exI[of _ sh2]) auto
qed simp

section \<open>Properties\<close>

text \<open>
  C7: The shared variables are two maps. Any sequence of \<open>varnish.shared\<close> commands runs without ever
  aborting and keeps both trees well formed and the counter of global variables exact; and
  unless \<open>VRT_fail\<close> was called, every command answered, and the variables are in the end, exactly as
  with a map for the task and a map for all tasks between which the scope chooses, the task
  first for \<open>all\<close>.
\<close>

theorem shared_variables_refine_maps:
  assumes "shared_ok sh" "ws_faithful ops" "values_set sh"
  shows "\<exists>rs ctx' sh'. run_commands ops cs (ctx, sh) = Inr (rs, ctx', sh') \<and> shared_ok sh'
    \<and> (ctx_fails ctx' = ctx_fails ctx \<longrightarrow> spec_commands cs (shared_maps sh) = (rs, shared_maps sh'))"
  using run_commands_implement[OF assms(1,2), of cs ctx] assms(3) by fastforce

theorem shared_variables_refine_maps_witness:
  "\<exists>rs ctx' sh'. run_commands counting_ws [Shared_Set ''k'' ''1'' ''global'', Shared_Set ''k'' ''2'' ''task'',
       Shared_Get ''k'' ''all'', Shared_Unset ''k'' ''task'', Shared_Get ''k'' ''all'']
      (\<lparr>ctx_ws = 99, ctx_method = MET_OTHER, ctx_vsb = [], ctx_fails = [], ctx_http = ()\<rparr>,
       \<lparr>sh_task = Leaf, sh_global = Leaf, sh_n = 0\<rparr>) = Inr (rs, ctx', sh')
    \<and> ctx_fails ctx' = [] \<and> rs = [None, None, Some ''2'', None, Some ''1'']"
proof -
  let ?sh = "\<lparr>sh_task = Leaf, sh_global = Leaf, sh_n = 0\<rparr>"
  have "shared_ok ?sh" "values_set ?sh"
    by (simp_all add: shared_ok_def values_set_def task_map_def find_task_variable_def)
  from shared_variables_refine_maps[OF this(1) counting_ws_faithful this(2), of
      "[Shared_Set ''k'' ''1'' ''global'', Shared_Set ''k'' ''2'' ''task'',
       Shared_Get ''k'' ''all'', Shared_Unset ''k'' ''task'', Shared_Get ''k'' ''all'']"
      "\<lparr>ctx_ws = 99, ctx_method = MET_OTHER, ctx_vsb = [], ctx_fails = [], ctx_http = ()\<rparr>"]
  obtain rs ctx' sh' where run: "run_commands counting_ws [Shared_Set ''k'' ''1'' ''global'', Shared_Set ''k'' ''2'' ''task'',
       Shared_Get ''k'' ''all'', Shared_Unset ''k'' ''task'', Shared_Get ''k'' ''all'']
      (\<lparr>ctx_ws = 99, ctx_method = MET_OTHER, ctx_vsb = [], ctx_fails = [], ctx_http = ()\<rparr>, ?sh) = Inr (rs, ctx', sh')"
    "ctx_fails ctx' = [] \<longrightarrow> rs = [None, None, Some ''2'', None, Some ''1'']"
    by (auto simp: shared_maps_def)
  moreover have "ctx_fails ctx' = []"
    using run(1)
    by (auto simp: varnish_shared_set_command_def varnish_shared_get_command_def
        varnish_shared_unset_command_def find_variable_def find_task_variable_def insert_variable_def
        vrbt_insert_def task_node_def counting_ws_def sizeof_variable_def copy_or_fail_def new_global_variable_def
        tvcmp_def tv_key_def variablecmp_def key_of_def vrbt_assign_def vrbt_remove_def unlink_def Let_def)
  ultimately show ?thesis by blast
qed

end
