(* ===== verification/Script.thy ===== *)
theory Script
  imports File Engines Script_Commands Shared
begin

text \<open>
  \<open>vmod_cfg_script.c\<close>: the object \<open>cfg.script\<close>, code loaded from a remote or given by the VCL, and the
  protocol by which a task runs it: \<open>init\<close>, \<open>push\<close>, \<open>execute\<close>, the accessors of the result. The
  functions of \<open>script->api\<close> are an argument of the definitions that call them, as they are
  pointers in the code: \<open>execute\<close>, and \<open>new_context\<close> as part of it.
\<close>

section \<open>The object\<close>

datatype engine_type = ENGINE_TYPE_LUA | ENGINE_TYPE_JAVASCRIPT

record lua_cfg =
  gc_step_size :: uint32
  fn_loadfile :: bool
  fn_dotfile :: bool
  lib_package :: bool
  lib_io :: bool
  lib_os :: bool

record exec_stats =
  ex_total :: uint64
  ex_unknown :: uint64
  ex_failed :: uint64
  ex_gc :: uint64

record ('re, 'e) cfg_script =
  sc_name :: string
  sc_remote :: "remote option"
  sc_type :: engine_type
  sc_max_engines :: uint32
  sc_max_cycles :: uint32
  sc_min_gc_cycles :: uint32
  sc_sandboxing :: bool
  sc_lua :: lua_cfg
  sc_code :: "string option"
  sc_function :: "string option"
  sc_pool :: "'e pool"
  sc_regexps :: "'re regexps"
  sc_globals :: variables
  sc_nglobals :: uint32
  sc_stats :: exec_stats

text \<open>
  \<open>script->api.execute\<close>: context, script, task state (NULL for a syntax check, otherwise \<open>argv\<close> and
  \<open>result\<close> are those of the state), code, \<open>*name\<close>, \<open>gc_collect\<close>, \<open>flush_jemalloc_tcache\<close>.
\<close>

type_synonym ('w, 'h, 're, 'e, 'd) execute =
  "('w, 'h) vrt_ctx \<Rightarrow> ('re, 'e) cfg_script \<Rightarrow> 'd task_state option \<Rightarrow> string \<Rightarrow> string option \<Rightarrow> bool \<Rightarrow> bool
    \<Rightarrow> (bool \<times> string option \<times> ('w, 'h) vrt_ctx \<times> ('re, 'e) cfg_script \<times> 'd task_state option) res"

section \<open>Loading\<close>

definition script_check_callback ::
  "('w, 'h, 're, 'e, 'd) execute \<Rightarrow> (('w, 'h) vrt_ctx \<times> ('re, 'e) cfg_script) remote_callback" where
  "script_check_callback execute s t is_backup =
     (case s of (ctx, script) \<Rightarrow>
       res_bind (execute ctx script None t None False True) (\<lambda>(success, name, ctx', script', _).
         if success then Inr (True, t, ctx', script'\<lparr>sc_code := Some t, sc_function := name\<rparr>)
         else Inr (False, t, ctx', script')))"

definition script_check ::
  "('w, 'h, 're, 'e, 'd) execute \<Rightarrow> os \<Rightarrow> int \<Rightarrow> int \<Rightarrow> ('w, 'h) vrt_ctx \<Rightarrow> ('re, 'e) cfg_script \<Rightarrow> bool \<Rightarrow> bool
    \<Rightarrow> (bool \<times> ('w, 'h) vrt_ctx \<times> ('re, 'e) cfg_script \<times> os) res" where
  "script_check execute os now later ctx script force_load force_backup =
     (case sc_remote script of
        None \<Rightarrow> Inr (True, ctx, script, os)
      | Some remote \<Rightarrow>
          res_bind (check_remote os force_load force_backup (script_check_callback execute) now later
              remote (ctx, script))
            (\<lambda>(result, r, os', (ctx', script')). Inr (result, ctx', script'\<lparr>sc_remote := Some r\<rparr>, os')))"

record script_args =
  sa_type :: "engine_type option"
  sa_max_engines :: int
  sa_max_cycles :: int
  sa_min_gc_cycles :: int
  sa_enable_sandboxing :: bool
  sa_lua_gc_step_size :: int
  sa_lua_remove_loadfile_function :: bool
  sa_lua_remove_dotfile_function :: bool
  sa_lua_load_package_lib :: bool
  sa_lua_load_io_lib :: bool
  sa_lua_load_os_lib :: bool

definition script_numbers_ok :: "remote_args \<Rightarrow> script_args \<Rightarrow> bool" where
  "script_numbers_ok ra sa \<longleftrightarrow> ra_period ra \<ge> 0 \<and> sa_max_engines sa > 0 \<and> sa_max_cycles sa \<ge> 0
     \<and> sa_min_gc_cycles sa > 0 \<and> sa_lua_gc_step_size sa > 0
     \<and> ra_connection_timeout ra \<ge> 0 \<and> ra_transfer_timeout ra \<ge> 0"

definition lua_cfg_of :: "script_args \<Rightarrow> lua_cfg" where
  "lua_cfg_of sa = \<lparr>gc_step_size = to_unsigned (sa_lua_gc_step_size sa),
     fn_loadfile = (\<not> sa_lua_remove_loadfile_function sa), fn_dotfile = (\<not> sa_lua_remove_dotfile_function sa),
     lib_package = sa_lua_load_package_lib sa, lib_io = sa_lua_load_io_lib sa, lib_os = sa_lua_load_os_lib sa\<rparr>"

text \<open>\<open>ALLOC_OBJ\<close> zeroes what the JavaScript branch does not set.\<close>

definition zero_lua_cfg :: lua_cfg where
  "zero_lua_cfg = \<lparr>gc_step_size = 0, fn_loadfile = False, fn_dotfile = False, lib_package = False,
     lib_io = False, lib_os = False\<rparr>"

definition new_script :: "string \<Rightarrow> remote_args \<Rightarrow> script_args \<Rightarrow> engine_type \<Rightarrow> ('re, 'e) cfg_script" where
  "new_script vcl_name ra sa type =
     \<lparr>sc_name = vcl_name,
      sc_remote = (if location_given ra then Some (new_remote_from ra) else None),
      sc_type = type,
      sc_max_engines = to_unsigned (sa_max_engines sa),
      sc_max_cycles = to_unsigned (sa_max_cycles sa),
      sc_min_gc_cycles = to_unsigned (sa_min_gc_cycles sa),
      sc_sandboxing = sa_enable_sandboxing sa,
      sc_lua = (case type of ENGINE_TYPE_LUA \<Rightarrow> lua_cfg_of sa | ENGINE_TYPE_JAVASCRIPT \<Rightarrow> zero_lua_cfg),
      sc_code = None, sc_function = None,
      sc_pool = empty_pool,
      sc_regexps = \<lparr>rxs_list = Leaf, rxs_n = 0\<rparr>,
      sc_globals = Leaf, sc_nglobals = 0,
      sc_stats = \<lparr>ex_total = 0, ex_unknown = 0, ex_failed = 0, ex_gc = 0\<rparr>\<rparr>"

text \<open>The engines of both queues, the regexps and the variables are released.\<close>

definition vmod_script__fini :: "('re, 'e) cfg_script option \<Rightarrow> ('re, 'e) cfg_script option res" where
  "vmod_script__fini slot =
     (case slot of
        None \<Rightarrow> Inl Assert_Failed
      | Some script \<Rightarrow>
          (let pool = flush_engines (pool_busy (sc_pool script)) (flush_engines (pool_free (sc_pool script)) (sc_pool script))
           in res_bind (flush_regexps (sc_regexps script)) (\<lambda>_.
              res_bind (flush_global_variables (sc_globals script)) (\<lambda>_. Inr None))))"

definition vmod_script__init ::
  "('w, 'h, 're, 'e, 'd) execute \<Rightarrow> os \<Rightarrow> int \<Rightarrow> int \<Rightarrow> ('w, 'h) vrt_ctx \<Rightarrow> ('re, 'e) cfg_script option \<Rightarrow> string
    \<Rightarrow> remote_args \<Rightarrow> script_args \<Rightarrow> (('re, 'e) cfg_script option \<times> ('w, 'h) vrt_ctx \<times> os) res" where
  "vmod_script__init execute os now later ctx slot vcl_name ra sa =
     must (slot = None)
       (if script_numbers_ok ra sa
        then (case sa_type sa of
            None \<Rightarrow> Inl Assert_Failed
          | Some type \<Rightarrow>
              res_bind (script_check execute os now later ctx (new_script vcl_name ra sa type) True False)
                (\<lambda>(loaded, ctx', script, os').
                  if \<not> loaded \<and> \<not> ra_ignore_load_failures ra
                  then res_bind (vmod_script__fini (Some script)) (\<lambda>_.
                    Inr (None, vrt_fail Instance_Failed ctx', os'))
                  else Inr (Some script, ctx', os')))
        else Inr (None, vrt_fail Instance_Failed ctx, os))"

definition vmod_script_reload ::
  "('w, 'h, 're, 'e, 'd) execute \<Rightarrow> os \<Rightarrow> int \<Rightarrow> int \<Rightarrow> ('w, 'h) vrt_ctx \<Rightarrow> ('re, 'e) cfg_script \<Rightarrow> bool
    \<Rightarrow> (bool \<times> ('w, 'h) vrt_ctx \<times> ('re, 'e) cfg_script \<times> os) res" where
  "vmod_script_reload execute os now later ctx script force_backup =
     script_check execute os now later ctx script True force_backup"

definition vmod_script_inspect ::
  "('w, 'h, 're, 'e, 'd) execute \<Rightarrow> os \<Rightarrow> int \<Rightarrow> int \<Rightarrow> ('w, 'h) vrt_ctx \<Rightarrow> ('re, 'e) cfg_script \<Rightarrow> 'd task_state option
    \<Rightarrow> (('w, 'h) vrt_ctx \<times> ('re, 'e) cfg_script \<times> 'd task_state \<times> os) res" where
  "vmod_script_inspect execute os now later ctx script priv =
     (let state = get_task_state priv False in
      case ts_code state of
        Some code \<Rightarrow> Inr (if streams_to_body ctx then ctx\<lparr>ctx_vsb := ctx_vsb ctx @ code\<rparr> else ctx, script, state, os)
      | None \<Rightarrow>
          (case sc_remote script of
             None \<Rightarrow> Inr (ctx, script, state, os)
           | Some _ \<Rightarrow> res_bind (script_check execute os now later ctx script False False)
               (\<lambda>(_, ctx', script', os').
                 case sc_remote script' of
                   None \<Rightarrow> Inl Null_Deref
                 | Some r \<Rightarrow> Inr (inspect_remote ctx' r, script', state, os'))))"

section \<open>Running a script\<close>

definition vmod_script_init :: "'d task_state option \<Rightarrow> string option \<Rightarrow> 'd task_state" where
  "vmod_script_init priv code =
     (let state = get_task_state priv True
      in (case code of
            None \<Rightarrow> state
          | Some c \<Rightarrow> if length c > 0 then state\<lparr>ts_code := Some c\<rparr> else state)\<lparr>ts_argc := 0\<rparr>)"

definition vmod_script_push ::
  "'w ws_ops \<Rightarrow> ('w, 'h) vrt_ctx \<Rightarrow> 'd task_state option \<Rightarrow> string option \<Rightarrow> ('w, 'h) vrt_ctx \<times> 'd task_state" where
  "vmod_script_push ops ctx priv arg =
     (let state = get_task_state priv False in
      if ts_argc state \<ge> 0 \<and> ts_argc state < int MAX_EXECUTION_ARGS
      then (case (case arg of None \<Rightarrow> copy_or_fail ops ctx [] | Some a \<Rightarrow> (ctx, Some a)) of
              (ctx', None) \<Rightarrow> (ctx', state)
            | (ctx', Some a) \<Rightarrow>
                (ctx', state\<lparr>ts_argv := (ts_argv state)[nat (ts_argc state) := Some a], ts_argc := ts_argc state + 1\<rparr>))
      else (ctx, state))"

text \<open>\<open>state->execution.result.values[i] = v\<close>.\<close>

definition set_result_value :: "nat \<Rightarrow> 'd result_value \<Rightarrow> 'd task_state \<Rightarrow> 'd task_state" where
  "set_result_value i v s =
     s\<lparr>ts_result := (ts_result s)\<lparr>result_values := (result_values (ts_result s))[i := v]\<rparr>\<rparr>"

definition vmod_script_execute ::
  "('w, 'h, 're, 'e, 'd) execute \<Rightarrow> 'w ws_ops \<Rightarrow> ('w, 'h) vrt_ctx \<Rightarrow> ('re, 'e) cfg_script \<Rightarrow> 'd task_state option
    \<Rightarrow> bool \<Rightarrow> bool \<Rightarrow> (('w, 'h) vrt_ctx \<times> ('re, 'e) cfg_script \<times> 'd task_state) res" where
  "vmod_script_execute execute ops ctx script priv gc_collect flush_tcache =
     (let state = get_task_state priv False;
          run = (\<lambda>ctx code name.
            res_bind (execute ctx script (Some state) code name gc_collect flush_tcache)
              (\<lambda>(success, name', ctx', script', state').
                 case state' of None \<Rightarrow> Inl Null_Deref | Some s \<Rightarrow> Inr (ctx', script', s)))
      in if ts_argc state \<ge> 0
         then (case ts_code state of
             Some code \<Rightarrow> run ctx code None
           | None \<Rightarrow>
               (case (sc_code script, sc_function script) of
                  (Some code, Some name) \<Rightarrow>
                    (case ws_copy ops (ctx_ws ctx) code of (w1, code') \<Rightarrow>
                     case ws_copy ops w1 name of (w2, name') \<Rightarrow>
                       let ctx2 = ctx\<lparr>ctx_ws := w2\<rparr> in
                       case (code', name') of
                         (Some c, Some n) \<Rightarrow> run ctx2 c (Some n)
                       | _ \<Rightarrow> Inr (vrt_fail Workspace_Overflow ctx2, script, state))
                | _ \<Rightarrow> Inr (ctx, script, set_result_value 0 RESULT_ERROR state)))
         else Inr (ctx, script, state))"

definition vmod_script_free_result :: "'d task_state option \<Rightarrow> 'd task_state" where
  "vmod_script_free_result priv = get_task_state priv True"

section \<open>Reading the result\<close>

datatype result_type = IS_ERROR | IS_NIL | IS_BOOLEAN | IS_NUMBER | IS_STRING | IS_TABLE

fun type_of_value :: "'d result_value \<Rightarrow> result_type" where
  "type_of_value RESULT_ERROR = IS_ERROR"
| "type_of_value RESULT_NIL = IS_NIL"
| "type_of_value (RESULT_BOOLEAN b) = IS_BOOLEAN"
| "type_of_value (RESULT_NUMBER d) = IS_NUMBER"
| "type_of_value (RESULT_STRING s) = IS_STRING"
| "type_of_value RESULT_TABLE = IS_TABLE"

text \<open>The array of 128 values, with the index of a \<open>VCL_INT\<close>: an access outside is \<open>Out_Of_Bounds\<close>.\<close>

definition value_at :: "'d task_state \<Rightarrow> int \<Rightarrow> 'd result_value res" where
  "value_at s i =
     (if 0 \<le> i \<and> nat i < length (result_values (ts_result s)) then Inr (result_values (ts_result s) ! nat i)
      else Inl Out_Of_Bounds)"

definition single_result :: "'d task_state \<Rightarrow> bool" where
  "single_result s \<longleftrightarrow> ts_argc s \<ge> 0 \<and> nvalues (ts_result s) = -1"

definition table_result :: "'d task_state \<Rightarrow> bool" where
  "table_result s \<longleftrightarrow> ts_argc s \<ge> 0 \<and> nvalues (ts_result s) \<ge> 0"

text \<open>\<open>VMOD_SCRIPT_RESULT_IS_FOO\<close>.\<close>

definition vmod_script_result_is :: "result_type \<Rightarrow> 'd task_state option \<Rightarrow> bool res" where
  "vmod_script_result_is type priv =
     (let s = get_task_state priv False in
      if single_result s then res_bind (value_at s 0) (\<lambda>v. Inr (type_of_value v = type)) else Inr False)"

definition vmod_script_result_is_table :: "'d task_state option \<Rightarrow> bool" where
  "vmod_script_result_is_table priv = table_result (get_task_state priv False)"

text \<open>The loops over the end of the number \<open>"%.3f"\<close> printed.\<close>

fun back_zeros :: "string \<Rightarrow> nat \<Rightarrow> nat" where
  "back_zeros v i = (if i > 0 \<and> v ! i = CHR ''0'' then back_zeros v (i - 1) else i)"

declare back_zeros.simps [simp del]

definition trim_number :: "string \<Rightarrow> string" where
  "trim_number v =
     (let i = back_zeros v (length v - 1)
      in if v ! i = CHR ''.'' then take i v else take (i + 1) v)"

definition get_result ::
  "'d number_ops \<Rightarrow> 'w ws_ops \<Rightarrow> ('w, 'h) vrt_ctx \<Rightarrow> 'd result_value \<Rightarrow> ('w, 'h) vrt_ctx \<times> string option" where
  "get_result nops ops ctx v =
     (case v of
        RESULT_BOOLEAN b \<Rightarrow> copy_or_fail ops ctx (if b then ''true'' else ''false'')
      | RESULT_NUMBER d \<Rightarrow> (case copy_or_fail ops ctx (nm_format3 nops d) of
            (ctx', r) \<Rightarrow> (ctx', map_option trim_number r))
      | RESULT_STRING s \<Rightarrow> (ctx, s)
      | _ \<Rightarrow> (ctx, None))"

definition vmod_script_get_result ::
  "'d number_ops \<Rightarrow> 'w ws_ops \<Rightarrow> ('w, 'h) vrt_ctx \<Rightarrow> 'd task_state option \<Rightarrow> (('w, 'h) vrt_ctx \<times> string option) res" where
  "vmod_script_get_result nops ops ctx priv =
     (let s = get_task_state priv False in
      if single_result s then res_bind (value_at s 0) (\<lambda>v. Inr (get_result nops ops ctx v)) else Inr (ctx, None))"

definition vmod_script_get_boolean_result :: "'d task_state option \<Rightarrow> bool res" where
  "vmod_script_get_boolean_result priv =
     (let s = get_task_state priv False in
      if single_result s
      then res_bind (value_at s 0) (\<lambda>v. Inr (case v of RESULT_BOOLEAN b \<Rightarrow> b | _ \<Rightarrow> False))
      else Inr False)"

definition vmod_script_get_decimal_result :: "'d \<Rightarrow> 'd task_state option \<Rightarrow> 'd res" where
  "vmod_script_get_decimal_result zero priv =
     (let s = get_task_state priv False in
      if single_result s
      then res_bind (value_at s 0) (\<lambda>v. Inr (case v of RESULT_NUMBER d \<Rightarrow> d | _ \<Rightarrow> zero))
      else Inr zero)"

definition vmod_script_get_integer_result :: "'d number_ops \<Rightarrow> 'd \<Rightarrow> 'd task_state option \<Rightarrow> int res" where
  "vmod_script_get_integer_result nops zero priv =
     res_bind (vmod_script_get_decimal_result zero priv) (\<lambda>d. Inr (nm_trunc nops d))"

definition vmod_script_get_string_result :: "'d task_state option \<Rightarrow> string option res" where
  "vmod_script_get_string_result priv =
     (let s = get_task_state priv False in
      if single_result s
      then res_bind (value_at s 0) (\<lambda>v. Inr (case v of RESULT_STRING x \<Rightarrow> x | _ \<Rightarrow> None))
      else Inr None)"

definition vmod_script_get_table_result_length :: "'d task_state option \<Rightarrow> int" where
  "vmod_script_get_table_result_length priv =
     (let s = get_task_state priv False in if table_result s then nvalues (ts_result s) else 0)"

text \<open>\<open>VMOD_SCRIPT_TABLE_RESULT_IS_FOO\<close>; the functions for arrays are the same.\<close>

definition vmod_script_table_result_is :: "result_type \<Rightarrow> 'd task_state option \<Rightarrow> int \<Rightarrow> bool res" where
  "vmod_script_table_result_is type priv index =
     (let s = get_task_state priv False in
      if table_result s \<and> index < nvalues (ts_result s)
      then res_bind (value_at s index) (\<lambda>v. Inr (type_of_value v = type)) else Inr False)"

definition vmod_script_get_table_result_value ::
  "'d number_ops \<Rightarrow> 'w ws_ops \<Rightarrow> ('w, 'h) vrt_ctx \<Rightarrow> 'd task_state option \<Rightarrow> int \<Rightarrow> (('w, 'h) vrt_ctx \<times> string option) res" where
  "vmod_script_get_table_result_value nops ops ctx priv index =
     (let s = get_task_state priv False in
      if table_result s \<and> index < nvalues (ts_result s)
      then res_bind (value_at s index) (\<lambda>v. Inr (get_result nops ops ctx v)) else Inr (ctx, None))"

section \<open>Statistics\<close>

text \<open>\<open>memory += iengine->memory\<close>: the \<open>int\<close> is sign-extended.\<close>

definition engines_memory :: "'e pool \<Rightarrow> uint64 res" where
  "engines_memory p =
     res_fold (\<lambda>a total. case pool_heap p a of
         None \<Rightarrow> Inl Null_Deref
       | Some e \<Rightarrow> Inr (total + scast (eng_memory e)))
       (pool_free p @ pool_busy p) 0"

text \<open>A \<open>VCL_INT\<close> is a signed 64-bit integer.\<close>

definition vmod_script_counter :: "('re, 'e) cfg_script \<Rightarrow> string option \<Rightarrow> int res" where
  "vmod_script_counter script name =
     (case name of
        None \<Rightarrow> Inl Null_Deref
      | Some n \<Rightarrow>
          if strcmp n ''engines.current'' = 0 then Inr (uint (pool_n (sc_pool script)))
          else if strcmp n ''engines.total'' = 0 then Inr (sint (pool_total (sc_pool script)))
          else if strcmp n ''engines.memory'' = 0
          then res_bind (engines_memory (sc_pool script)) (\<lambda>m. Inr (sint m))
          else if strcmp n ''engines.dropped.cycles'' = 0 then Inr (sint (pool_dropped (sc_pool script)))
          else if strcmp n ''regexps.current'' = 0 then Inr (uint (rxs_n (sc_regexps script)))
          else if strcmp n ''variables.current'' = 0 then Inr (uint (sc_nglobals script))
          else if strcmp n ''workers.blocked'' = 0 then Inr (sint (pool_blocked (sc_pool script)))
          else if strcmp n ''executions.total'' = 0 then Inr (sint (ex_total (sc_stats script)))
          else if strcmp n ''executions.unknown'' = 0 then Inr (sint (ex_unknown (sc_stats script)))
          else if strcmp n ''executions.failed'' = 0 then Inr (sint (ex_failed (sc_stats script)))
          else if strcmp n ''executions.gc'' = 0 then Inr (sint (ex_gc (sc_stats script)))
          else Inr 0)"

text \<open>\<open>%d\<close> of an \<open>unsigned\<close> prints it as a signed number; \<open>PRIu64\<close> as it is.\<close>

definition quoted :: "string \<Rightarrow> string" where
  "quoted s = CHR 0x22 # s @ [CHR 0x22, CHR '':'']"

definition stats_text :: "('re, 'e) cfg_script \<Rightarrow> uint64 \<Rightarrow> string" where
  "stats_text script memory =
     ''{'' @ quoted ''engines'' @ ''{''
       @ quoted ''current'' @ decimal (sint (pool_n (sc_pool script))) @ '',''
       @ quoted ''total'' @ decimal (uint (pool_total (sc_pool script))) @ '',''
       @ quoted ''memory'' @ decimal (uint memory) @ '',''
       @ quoted ''dropped'' @ ''{''
         @ quoted ''cycles'' @ decimal (uint (pool_dropped (sc_pool script))) @ ''}},''
     @ quoted ''regexps'' @ ''{''
       @ quoted ''current'' @ decimal (sint (rxs_n (sc_regexps script))) @ ''},''
     @ quoted ''variables'' @ ''{''
       @ quoted ''current'' @ decimal (sint (sc_nglobals script)) @ ''},''
     @ quoted ''workers'' @ ''{''
       @ quoted ''blocked'' @ decimal (uint (pool_blocked (sc_pool script))) @ ''},''
     @ quoted ''executions'' @ ''{''
       @ quoted ''total'' @ decimal (uint (ex_total (sc_stats script))) @ '',''
       @ quoted ''unknown'' @ decimal (uint (ex_unknown (sc_stats script))) @ '',''
       @ quoted ''failed'' @ decimal (uint (ex_failed (sc_stats script))) @ '',''
       @ quoted ''gc'' @ decimal (uint (ex_gc (sc_stats script))) @ ''}}''"

definition vmod_script_stats ::
  "'w ws_ops \<Rightarrow> ('w, 'h) vrt_ctx \<Rightarrow> ('re, 'e) cfg_script \<Rightarrow> (('w, 'h) vrt_ctx \<times> string option) res" where
  "vmod_script_stats ops ctx script =
     res_bind (engines_memory (sc_pool script)) (\<lambda>m. Inr (copy_or_fail ops ctx (stats_text script m)))"

section \<open>The task state\<close>

text \<open>
  What the accessors rely on: the fixed array sizes, and \<open>argc\<close> and \<open>nvalues\<close> within them.
\<close>

definition result_ok :: "'d result \<Rightarrow> bool" where
  "result_ok r \<longleftrightarrow> -1 \<le> nvalues r \<and> nvalues r \<le> int MAX_RESULT_VALUES
     \<and> length (result_values r) = MAX_RESULT_VALUES"

definition task_ok :: "'d task_state \<Rightarrow> bool" where
  "task_ok s \<longleftrightarrow> -1 \<le> ts_argc s \<and> ts_argc s \<le> int MAX_EXECUTION_ARGS
     \<and> length (ts_argv s) = MAX_EXECUTION_ARGS \<and> result_ok (ts_result s)"

definition priv_ok :: "'d task_state option \<Rightarrow> bool" where
  "priv_ok priv \<longleftrightarrow> (case priv of None \<Rightarrow> True | Some s \<Rightarrow> task_ok s)"

lemma task_ok_new [simp]: "task_ok new_task_state"
  by (simp add: task_ok_def new_task_state_def reset_task_state_def empty_result_def result_ok_def Let_def)

lemma task_ok_reset: "task_ok s \<Longrightarrow> task_ok (reset_task_state a b s)"
  by (simp add: task_ok_def reset_task_state_def empty_result_def result_ok_def Let_def)

lemma task_ok_get: "priv_ok priv \<Longrightarrow> task_ok (get_task_state priv b)"
  by (auto simp: get_task_state_def priv_ok_def Let_def task_ok_reset split: option.splits)

lemma get_task_state_Some [simp]: "get_task_state (Some s) False = s"
  by (simp add: get_task_state_def)

lemma task_ok_init: "priv_ok priv \<Longrightarrow> task_ok (vmod_script_init priv code)"
  using task_ok_get[of priv True]
  by (auto simp: vmod_script_init_def task_ok_def Let_def split: option.split)

lemma task_ok_push:
  assumes "priv_ok priv"
  shows "task_ok (snd (vmod_script_push ops ctx priv arg))"
  using task_ok_get[OF assms, of False]
  by (auto simp: vmod_script_push_def task_ok_def Let_def split: option.splits prod.splits)

text \<open>\<open>push\<close> after \<open>push\<close>: what the arguments are then.\<close>

fun push_all :: "'w ws_ops \<Rightarrow> string list \<Rightarrow> ('w, 'h) vrt_ctx \<times> 'd task_state \<Rightarrow> ('w, 'h) vrt_ctx \<times> 'd task_state" where
  "push_all ops [] s = s"
| "push_all ops (a # as) (ctx, s) = push_all ops as (vmod_script_push ops ctx (Some s) (Some a))"

lemma push_all_args:
  assumes "0 \<le> ts_argc s" "ts_argc s \<le> int MAX_EXECUTION_ARGS" "length (ts_argv s) = MAX_EXECUTION_ARGS"
  shows "\<exists>s'. push_all ops as (ctx, s) = (ctx, s')
    \<and> ts_argc s' = min (ts_argc s + int (length as)) (int MAX_EXECUTION_ARGS)
    \<and> length (ts_argv s') = MAX_EXECUTION_ARGS
    \<and> take (nat (ts_argc s')) (ts_argv s')
        = take MAX_EXECUTION_ARGS (take (nat (ts_argc s)) (ts_argv s) @ map Some as)
    \<and> ts_code s' = ts_code s \<and> ts_result s' = ts_result s \<and> ts_variables s' = ts_variables s"
  using assms
proof (induction as arbitrary: s)
  case Nil
  then show ?case by (auto simp: MAX_EXECUTION_ARGS_def)
next
  case (Cons a as)
  show ?case
  proof (cases "ts_argc s < int MAX_EXECUTION_ARGS")
    case False
    then have full: "ts_argc s = int MAX_EXECUTION_ARGS" using Cons.prems by simp
    then have "vmod_script_push ops ctx (Some s) (Some a) = (ctx, s)"
      by (simp add: vmod_script_push_def)
    then show ?thesis using Cons.IH[OF Cons.prems] full Cons.prems by simp
  next
    case True
    define s1 where "s1 = s\<lparr>ts_argv := (ts_argv s)[nat (ts_argc s) := Some a], ts_argc := ts_argc s + 1\<rparr>"
    have push: "vmod_script_push ops ctx (Some s) (Some a) = (ctx, s1)"
      using True Cons.prems by (simp add: vmod_script_push_def s1_def)
    have "nat (ts_argc s + 1) = Suc (nat (ts_argc s))" "nat (ts_argc s) < length (ts_argv s)"
      using Cons.prems True by simp_all
    then have "take (nat (ts_argc s1)) (ts_argv s1) = take (nat (ts_argc s)) (ts_argv s) @ [Some a]"
      by (simp add: s1_def take_Suc_conv_app_nth)
    then show ?thesis
      using Cons.IH[of s1] Cons.prems True push by (simp add: s1_def add.assoc)
  qed
qed


text \<open>
  What the object relies on when it calls \<open>script->api.execute\<close>: the code, its name and the remote
  stay as they are, and a task state keeps its code and its arguments and stays within its bounds.
\<close>

definition execute_keeps :: "('w, 'h, 're, 'e, 'd) execute \<Rightarrow> bool" where
  "execute_keeps execute \<longleftrightarrow>
     (\<forall>ctx script state code name gc tc ok name' ctx' script' state'.
       execute ctx script state code name gc tc = Inr (ok, name', ctx', script', state') \<longrightarrow>
         sc_code script' = sc_code script \<and> sc_function script' = sc_function script
         \<and> sc_remote script' = sc_remote script
         \<and> (\<forall>s s'. state = Some s \<longrightarrow> state' = Some s' \<longrightarrow>
             ts_code s' = ts_code s \<and> ts_argc s' = ts_argc s \<and> (task_ok s \<longrightarrow> task_ok s')))"

lemma execute_keeps_script:
  assumes "execute_keeps execute" "execute ctx script state code name gc tc = Inr (ok, name', ctx', script', state')"
  shows "sc_code script' = sc_code script" "sc_function script' = sc_function script"
    "sc_remote script' = sc_remote script"
  using assms unfolding execute_keeps_def by blast+

lemma execute_keeps_state:
  assumes "execute_keeps execute" "execute ctx script (Some s) code name gc tc = Inr (ok, name', ctx', script', Some s')"
  shows "ts_code s' = ts_code s" "ts_argc s' = ts_argc s" "task_ok s \<Longrightarrow> task_ok s'"
  using assms unfolding execute_keeps_def by blast+

lemma task_ok_set_result: "task_ok s \<Longrightarrow> task_ok (set_result_value i v s)"
  by (simp add: task_ok_def result_ok_def set_result_value_def)

lemma task_ok_execute:
  assumes "execute_keeps execute" "priv_ok priv"
    and "vmod_script_execute execute ops ctx script priv gc tc = Inr (ctx', script', s')"
  shows "task_ok s'"
proof -
  define s where "s = get_task_state priv False"
  have s: "task_ok s" using task_ok_get[OF assms(2)] by (simp add: s_def)
  have run: "task_ok s'" if "execute c script (Some s) code name gc tc = Inr (ok, n, ctx', script', Some s')"
    for c code name ok n
    using execute_keeps_state(3)[OF assms(1) that s] .
  show ?thesis
    using assms(3) s run task_ok_set_result[OF s]
    unfolding vmod_script_execute_def s_def[symmetric] Let_def
    by (auto simp: res_bind_eq_Inr_iff split: if_splits option.splits prod.splits)
qed

text \<open>The state of a task after any sequence of calls.\<close>

inductive task_reached :: "('w, 'h, 're, 'e, 'd) execute \<Rightarrow> 'w ws_ops \<Rightarrow> 'd task_state option \<Rightarrow> bool"
  for execute ops where
  task_fresh: "task_reached execute ops None"
| task_init: "task_reached execute ops priv \<Longrightarrow> task_reached execute ops (Some (vmod_script_init priv code))"
| task_push: "task_reached execute ops priv \<Longrightarrow>
    task_reached execute ops (Some (snd (vmod_script_push ops (ctx :: ('w, 'h) vrt_ctx) priv arg)))"
| task_execute: "task_reached execute ops priv \<Longrightarrow>
    vmod_script_execute execute ops ctx script priv gc tc = Inr (ctx', script', s) \<Longrightarrow>
    task_reached execute ops (Some s)"
| task_free: "task_reached execute ops priv \<Longrightarrow> task_reached execute ops (Some (vmod_script_free_result priv))"

lemma task_reached_ok:
  assumes "task_reached execute ops priv" "execute_keeps execute"
  shows "priv_ok priv"
  using assms(1)
proof induction
  case (task_push priv ctx arg)
  then show ?case using task_ok_push by (simp add: priv_ok_def)
next
  case (task_execute priv ctx script gc tc ctx' script' s)
  then show ?case using task_ok_execute[OF assms(2)] by (simp add: priv_ok_def)
qed (simp_all add: priv_ok_def task_ok_init vmod_script_free_result_def task_ok_get)

lemma value_at_iff:
  "task_ok s \<Longrightarrow> value_at s i = Inr v \<longleftrightarrow> 0 \<le> i \<and> i < int MAX_RESULT_VALUES \<and> v = result_values (ts_result s) ! nat i"
  by (auto simp: value_at_def task_ok_def result_ok_def)

lemma value_at_outside: "task_ok s \<Longrightarrow> i < int MAX_RESULT_VALUES \<Longrightarrow>
  value_at s i = (if i < 0 then Inl Out_Of_Bounds else Inr (result_values (ts_result s) ! nat i))"
  by (auto simp: value_at_def task_ok_def result_ok_def)

lemma table_index_below: "task_ok s \<Longrightarrow> index < nvalues (ts_result s) \<Longrightarrow> index < int MAX_RESULT_VALUES"
  by (auto simp: task_ok_def result_ok_def)

section \<open>Numbers as text\<close>

definition strip_zeros :: "string \<Rightarrow> string" where
  "strip_zeros s = rev (dropWhile (\<lambda>c. c = CHR ''0'') (rev s))"

lemma strip_zeros_rest: "\<exists>n. s = strip_zeros s @ replicate n (CHR ''0'')"
proof -
  have "takeWhile (\<lambda>c. c = CHR ''0'') (rev s)
      = replicate (length (takeWhile (\<lambda>c. c = CHR ''0'') (rev s))) (CHR ''0'')"
    by (rule replicate_length_same[symmetric]) (auto dest: set_takeWhileD)
  then have "rev s = replicate (length (takeWhile (\<lambda>c. c = CHR ''0'') (rev s))) (CHR ''0'')
      @ dropWhile (\<lambda>c. c = CHR ''0'') (rev s)"
    by (metis takeWhile_dropWhile_id)
  then have "s = strip_zeros s @ replicate (length (takeWhile (\<lambda>c. c = CHR ''0'') (rev s))) (CHR ''0'')"
    by (metis rev_append rev_replicate rev_rev_ident strip_zeros_def)
  then show ?thesis ..
qed

lemma strip_zeros_last: "strip_zeros s = q @ [d] \<Longrightarrow> d \<noteq> CHR ''0''"
proof -
  assume a: "strip_zeros s = q @ [d]"
  then have "dropWhile (\<lambda>c. c = CHR ''0'') (rev s) = d # rev q"
    by (simp add: strip_zeros_def rev_swap)
  then show ?thesis using hd_dropWhile[of "\<lambda>c. c = CHR ''0''" "rev s"] by simp
qed

lemma back_zeros_replicate:
  "c \<noteq> CHR ''0'' \<Longrightarrow> m \<le> n \<Longrightarrow> back_zeros (p @ c # replicate n (CHR ''0'')) (length p + m) = length p"
proof (induction m)
  case 0
  then show ?case by (subst back_zeros.simps) simp
next
  case (Suc m)
  have "(p @ c # replicate n (CHR ''0'')) ! (length p + Suc m) = CHR ''0''"
    using Suc.prems by (simp add: nth_append)
  then show ?case
    using Suc by (subst back_zeros.simps) simp
qed

lemma trim_number_zeros:
  assumes "c \<noteq> CHR ''0''"
  shows "trim_number (p @ c # replicate n (CHR ''0'')) = (if c = CHR ''.'' then p else p @ [c])"
  using back_zeros_replicate[OF assms order_refl, of p n] by (simp add: trim_number_def)

lemma trim_number_decimal:
  assumes "CHR ''.'' \<notin> set frac"
  shows "trim_number (ip @ CHR ''.'' # frac)
    = (if strip_zeros frac = [] then ip else ip @ CHR ''.'' # strip_zeros frac)"
proof -
  obtain n where n: "frac = strip_zeros frac @ replicate n (CHR ''0'')"
    using strip_zeros_rest by blast
  show ?thesis
  proof (cases "strip_zeros frac" rule: rev_cases)
    case Nil
    then have "frac = replicate n (CHR ''0'')" using n by simp
    then show ?thesis using trim_number_zeros[of "CHR ''.''" ip n] Nil by simp
  next
    case (snoc q d)
    then have frac: "frac = q @ d # replicate n (CHR ''0'')" using n by simp
    then have "d \<noteq> CHR ''.''" using assms by auto
    then show ?thesis
      using trim_number_zeros[OF strip_zeros_last[OF snoc], of "ip @ CHR ''.'' # q" n] snoc frac by simp
  qed
qed

section \<open>Loading keeps the last good script\<close>

text \<open>The script is the same but for its engines, its cache, its variables and its counters.\<close>

definition same_code :: "('w, 'h) vrt_ctx \<times> ('re, 'e) cfg_script \<Rightarrow> ('w, 'h) vrt_ctx \<times> ('re, 'e) cfg_script \<Rightarrow> bool" where
  "same_code s s' \<longleftrightarrow> sc_code (snd s') = sc_code (snd s) \<and> sc_function (snd s') = sc_function (snd s)"

lemma script_loader:
  assumes "execute_keeps execute"
  shows "remote_loader (script_check_callback execute) (\<lambda>_. True) same_code"
proof (unfold_locales, goal_cases)
  case (3 s t b res t' s')
  then show ?case
    by (auto simp: script_check_callback_def res_bind_eq_Inr_iff split: prod.splits if_splits)
next
  case (5 s t b t' s')
  then show ?case
    using execute_keeps_script[OF assms]
    by (auto simp: script_check_callback_def same_code_def res_bind_eq_Inr_iff split: prod.splits if_splits)
qed (simp_all add: same_code_def)

lemma script_reload_outcome:
  assumes "execute_keeps execute" "sc_remote script = Some r"
    and "vmod_script_reload execute os now later ctx script force_backup = Inr (result, ctx', script', os')"
  shows "if result
    then \<exists>t. t \<noteq> [] \<and> sc_code script' = Some t \<and> sc_remote script' = Some (r\<lparr>contents := Some t, tst := later\<rparr>)
      \<and> (read_remote os r = Inr (Some t) \<or> read_backup os r = Inr (Some t))
      \<and> (\<exists>c s name c' s' st. execute c s None t None False True = Inr (True, name, c', s', st)
          \<and> sc_function script' = name \<and> sc_code s = sc_code script)
    else sc_code script' = sc_code script \<and> sc_function script' = sc_function script
      \<and> sc_remote script' = Some r \<and> os' = os"
proof -
  obtain r' s where check: "check_remote os True force_backup (script_check_callback execute) now later r (ctx, script)
      = Inr (result, r', os', s)" and s: "ctx' = fst s" "script' = snd s\<lparr>sc_remote := Some r'\<rparr>"
    using assms(2,3)
    by (auto simp: vmod_script_reload_def script_check_def res_bind_eq_Inr_iff split: prod.splits)
  note outcome = remote_loader.check_outcome[OF script_loader[OF assms(1)] TrueI check]
  show ?thesis
  proof (cases result)
    case False
    then show ?thesis using outcome s by (simp add: same_code_def reload_due_def)
  next
    case True
    then obtain t b c0 s0 where t: "t \<noteq> []" "same_code (ctx, script) (c0, s0)"
        "script_check_callback execute (c0, s0) t b = Inr (True, t, s)"
        "r' = r\<lparr>contents := Some t, tst := later\<rparr>"
        "read_remote os r = Inr (Some t) \<or> read_backup os r = Inr (Some t)"
      using outcome by (simp add: reload_due_def) metis
    obtain name c1 s1 st where run: "execute c0 s0 None t None False True = Inr (True, name, c1, s1, st)"
        "s = (c1, s1\<lparr>sc_code := Some t, sc_function := name\<rparr>)"
      using t(3) by (auto simp: script_check_callback_def res_bind_eq_Inr_iff split: prod.splits if_splits)
    have code: "sc_code s0 = sc_code script" using t(2) by (simp add: same_code_def)
    have s': "sc_code script' = Some t" "sc_remote script' = Some (r\<lparr>contents := Some t, tst := later\<rparr>)"
        "sc_function script' = name"
      unfolding s(2) run(2) t(4) by simp_all
    show ?thesis
      unfolding if_P[OF True]
      by (intro exI[of _ t] conjI exI[of _ c0] exI[of _ s0] exI[of _ name] exI[of _ c1] exI[of _ s1] exI[of _ st])
         (rule t s' run code)+
  qed
qed

section \<open>Properties\<close>

text \<open>
  C30: \<open>init\<close> followed by any number of \<open>push\<close> leaves the task with no result, the code given if
  there is one, and as arguments what was pushed, in that order and at most 128; a \<open>push\<close> that no
  \<open>init\<close> preceded is ignored.
\<close>

theorem script_arguments:
  "(\<exists>s. push_all ops as (ctx, vmod_script_init priv code) = (ctx, s)
    \<and> ts_argc s = int (min (length as) MAX_EXECUTION_ARGS)
    \<and> take (nat (ts_argc s)) (ts_argv s) = map Some (take MAX_EXECUTION_ARGS as)
    \<and> ts_code s = (case code of None \<Rightarrow> None | Some c \<Rightarrow> if c = [] then None else Some c)
    \<and> ts_result s = empty_result
    \<and> ts_variables s = (case priv of None \<Rightarrow> Leaf | Some p \<Rightarrow> ts_variables p))
   \<and> vmod_script_push ops ctx None arg = (ctx, new_task_state)"
proof -
  define s0 where "s0 = vmod_script_init priv code"
  have s0: "ts_argc s0 = 0" "length (ts_argv s0) = MAX_EXECUTION_ARGS" "ts_result s0 = empty_result"
      "ts_code s0 = (case code of None \<Rightarrow> None | Some c \<Rightarrow> if c = [] then None else Some c)"
      "ts_variables s0 = (case priv of None \<Rightarrow> Leaf | Some p \<Rightarrow> ts_variables p)"
    by (auto simp: s0_def vmod_script_init_def get_task_state_def new_task_state_def reset_task_state_def Let_def
        split: option.split)
  obtain s where s: "push_all ops as (ctx, s0) = (ctx, s)"
      "ts_argc s = min (ts_argc s0 + int (length as)) (int MAX_EXECUTION_ARGS)"
      "take (nat (ts_argc s)) (ts_argv s) = take MAX_EXECUTION_ARGS (take (nat (ts_argc s0)) (ts_argv s0) @ map Some as)"
      "ts_code s = ts_code s0 \<and> ts_result s = ts_result s0 \<and> ts_variables s = ts_variables s0"
    using push_all_args[of s0 ops "as" ctx] s0(1,2) by auto
  have "vmod_script_push ops ctx None arg = (ctx, new_task_state)"
    by (simp add: vmod_script_push_def get_task_state_def new_task_state_def reset_task_state_def Let_def)
  then show ?thesis
    using s s0 unfolding s0_def[symmetric] by (auto simp: take_map)
qed

text \<open>
  A number is given as text without the zeros at the end of its fraction, and without the point
  when nothing of the fraction is left; or not at all, when the workspace is exhausted.
\<close>

lemma number_result_text:
  assumes "ws_faithful ops" "nm_format3 nops d = ip @ CHR ''.'' # frac" "CHR ''.'' \<notin> set frac"
    and "task_ok s" "single_result s" "result_values (ts_result s) ! 0 = RESULT_NUMBER d"
  shows "\<exists>ctx' r. vmod_script_get_result nops ops ctx (Some s) = Inr (ctx', r)
    \<and> (r = Some (if strip_zeros frac = [] then ip else ip @ CHR ''.'' # strip_zeros frac)
        \<and> ctx_fails ctx' = ctx_fails ctx
      \<or> r = None \<and> ctx_fails ctx' = ctx_fails ctx @ [Workspace_Overflow])"
proof -
  have "vmod_script_get_result nops ops ctx (Some s) = Inr (get_result nops ops ctx (RESULT_NUMBER d))"
    using assms(4-6) by (simp add: vmod_script_get_result_def value_at_outside MAX_RESULT_VALUES_def)
  then show ?thesis
    using trim_number_decimal[OF assms(3), of ip]
    by (cases rule: copy_or_fail_cases[OF assms(1), of ctx "nm_format3 nops d"])
       (simp_all add: get_result_def assms(2) vrt_fail_def)
qed

text \<open>
  Whatever calls a task made before, the accessors of its result answer, and never look outside
  the array of 128 values, except for a negative index into a table, which nothing rejects. A
  result is either a single value or a table.
\<close>

lemma result_accessors_answer:
  assumes "execute_keeps execute" "task_reached execute ops priv"
  shows "(vmod_script_get_table_result_value nops ops' ctx priv index = Inl err
      \<longleftrightarrow> err = Out_Of_Bounds \<and> index < 0 \<and> vmod_script_result_is_table priv)
    \<and> (vmod_script_table_result_is type priv index = Inl err
      \<longleftrightarrow> err = Out_Of_Bounds \<and> index < 0 \<and> vmod_script_result_is_table priv)
    \<and> (\<exists>r. vmod_script_get_result nops ops' ctx priv = Inr r)
    \<and> (\<exists>b. vmod_script_result_is type priv = Inr b \<and> \<not> (b \<and> vmod_script_result_is_table priv))
    \<and> vmod_script_get_table_result_length priv \<le> int MAX_RESULT_VALUES"
proof -
  define s where "s = get_task_state priv False"
  have s: "task_ok s"
    using task_ok_get[OF task_reached_ok[OF assms(2,1)]] by (simp add: s_def)
  have zero: "value_at s 0 = Inr (result_values (ts_result s) ! 0)"
    using value_at_outside[OF s, of 0] by (simp add: MAX_RESULT_VALUES_def)
  have below: "table_result s \<and> index < nvalues (ts_result s) \<Longrightarrow>
      value_at s index = (if index < 0 then Inl Out_Of_Bounds else Inr (result_values (ts_result s) ! nat index))"
    using value_at_outside[OF s table_index_below[OF s]] by simp
  have table: "table_result s \<Longrightarrow> index < 0 \<Longrightarrow> index < nvalues (ts_result s)"
    by (simp add: table_result_def)
  have "nvalues (ts_result s) \<le> int MAX_RESULT_VALUES"
    using s by (simp add: task_ok_def result_ok_def)
  then show ?thesis
    using zero below table
    by (auto simp: vmod_script_get_table_result_value_def vmod_script_table_result_is_def vmod_script_get_result_def
        vmod_script_result_is_def vmod_script_result_is_table_def vmod_script_get_table_result_length_def
        s_def[symmetric] single_result_def table_result_def Let_def MAX_RESULT_VALUES_def split: if_splits)
qed

section \<open>Witnesses\<close>

definition sample_args :: remote_args where
  "sample_args = \<lparr>ra_location = None, ra_backup = None, ra_automated_backups = False, ra_period = 60,
     ra_ignore_load_failures = False, ra_connection_timeout = 0, ra_transfer_timeout = 0,
     ra_ssl_verify_peer = True, ra_ssl_verify_host = True, ra_ssl_cafile = None, ra_ssl_capath = None,
     ra_proxy = None\<rparr>"

end
