(* ===== verification/Script_Host.thy ===== *)
theory Script_Host
  imports Script
begin

text \<open>
  What the two scripting engines share. Towards a running script: the host, that is what the
  \<open>varnish.*\<close> commands can reach and change, as a transition relation. Towards \<open>cfg.script\<close>: the frame of
  \<open>execute_lua\<close> and \<open>execute_javascript\<close>, which take an engine, run something on it, count, collect
  garbage and give the engine back. The locale \<open>script_engine\<close> states what one engine promises and
  what follows for an execution; \<open>Lua\<close> and \<open>Javascript\<close> interpret it.
\<close>

section \<open>The host\<close>

text \<open>What a running script can change through the commands: \<open>_ctx\<close>, \<open>_script\<close> and \<open>_state\<close>.\<close>

record ('w, 'h, 're) host =
  h_ctx :: "('w, 'h http_ctx) vrt_ctx"
  h_regexps :: "'re regexps"
  h_shared :: shared

text \<open>The runtime of the host: workspace, headers and regular expressions.\<close>

record ('w, 'h, 're) host_ops =
  ho_ws :: "'w ws_ops"
  ho_hdr :: "'h hdr_ops"
  ho_vre :: "'re vre_ops"

text \<open>What the three hidden fields point to; \<open>CAST_OBJ_NOTNULL\<close> checks which one it is.\<close>

datatype host_ptr = Ptr_Ctx | Ptr_Script | Ptr_State

text \<open>\<open>if (s != NULL && strlen(s) > 0)\<close>\<close>

definition nonempty :: "string option \<Rightarrow> string option" where
  "nonempty s = (case s of None \<Rightarrow> None | Some t \<Rightarrow> if length t > 0 then Some t else None)"

text \<open>One command of a script, with any arguments. \<open>varnish.log\<close> changes nothing.\<close>

inductive host_step :: "('w, 'h, 're) host_ops \<Rightarrow> ('w, 'h, 're) host \<Rightarrow> ('w, 'h, 're) host \<Rightarrow> bool" for ho where
  get_header: "varnish_get_header_command (ho_hdr ho) (ho_ws ho) (h_ctx k) n w = Inr (r, e, ctx)
    \<Longrightarrow> host_step ho k (k\<lparr>h_ctx := ctx\<rparr>)"
| set_header: "varnish_set_header_command (ho_hdr ho) (ho_ws ho) (h_ctx k) n v w = Inr (e, ctx)
    \<Longrightarrow> host_step ho k (k\<lparr>h_ctx := ctx\<rparr>)"
| regmatch: "varnish_regmatch_command (ho_vre ho) (ho_ws ho) (h_ctx k) (h_regexps k) (h_regexps k) s t cache = Inr (b, e, ctx, rx)
    \<Longrightarrow> host_step ho k (k\<lparr>h_ctx := ctx, h_regexps := rx\<rparr>)"
| regsub: "varnish_regsub_command (ho_vre ho) (ho_ws ho) (h_ctx k) (h_regexps k) (h_regexps k) s t u cache all = Inr (r, e, ctx, rx)
    \<Longrightarrow> host_step ho k (k\<lparr>h_ctx := ctx, h_regexps := rx\<rparr>)"
| shared_get: "varnish_shared_get_command (ho_ws ho) (h_ctx k) (h_shared k) x scope = (r, ctx)
    \<Longrightarrow> host_step ho k (k\<lparr>h_ctx := ctx\<rparr>)"
| shared_set: "varnish_shared_set_command (ho_ws ho) (h_ctx k) (h_shared k) x v scope = Inr (ctx, sh)
    \<Longrightarrow> host_step ho k (k\<lparr>h_ctx := ctx, h_shared := sh\<rparr>)"
| shared_unset: "varnish_shared_unset_command (h_shared k) x scope = Inr sh
    \<Longrightarrow> host_step ho k (k\<lparr>h_shared := sh\<rparr>)"

lemma host_step_star: "host_step ho k k' \<Longrightarrow> (host_step ho)\<^sup>*\<^sup>* k k'"
  by (rule r_into_rtranclp)

section \<open>What the commands keep\<close>

definition host_ok :: "('w, 'h, 're) host_ops \<Rightarrow> ('w, 'h, 're) host \<Rightarrow> bool" where
  "host_ok ho k \<longleftrightarrow> regexps_ok (ho_vre ho) (h_regexps k) \<and> shared_ok (h_shared k)"

text \<open>A failure of the task is never taken back.\<close>

definition fails_grow :: "('w, 'h) vrt_ctx \<Rightarrow> ('w, 'h) vrt_ctx \<Rightarrow> bool" where
  "fails_grow ctx ctx' \<longleftrightarrow> (\<exists>fs. ctx_fails ctx' = ctx_fails ctx @ fs)"

lemma fails_grow_refl [simp]: "fails_grow ctx ctx"
  by (simp add: fails_grow_def)

lemma fails_grow_trans: "fails_grow ctx ctx1 \<Longrightarrow> fails_grow ctx1 ctx2 \<Longrightarrow> fails_grow ctx ctx2"
  by (auto simp: fails_grow_def)

lemma copy_or_fail_fails:
  "copy_or_fail ops ctx s = (ctx', r) \<Longrightarrow>
    ctx_fails ctx' = ctx_fails ctx @ (if r = None then [Workspace_Overflow] else [])"
  by (auto simp: copy_or_fail_def vrt_fail_def split: prod.splits option.splits)

lemma copy_or_fail_grow: "copy_or_fail ops ctx s = (ctx', r) \<Longrightarrow> fails_grow ctx ctx'"
  unfolding fails_grow_def by (intro exI) (rule copy_or_fail_fails)

lemma fails_grow_ws: "fails_grow (ctx\<lparr>ctx_ws := w\<rparr>) ctx' \<longleftrightarrow> fails_grow ctx ctx'"
    "fails_grow ctx (ctx'\<lparr>ctx_ws := w\<rparr>) \<longleftrightarrow> fails_grow ctx ctx'"
    "fails_grow ctx (ctx'\<lparr>ctx_http := h\<rparr>) \<longleftrightarrow> fails_grow ctx ctx'"
    "fails_grow ctx (vrt_fail f ctx)"
  by (simp_all add: fails_grow_def vrt_fail_def)

lemma header_commands_grow:
  "varnish_get_header_command hops ops ctx n w = Inr (r, e, ctx') \<Longrightarrow> fails_grow ctx ctx'"
  "varnish_set_header_command hops ops ctx n v w = Inr (e, ctx') \<Longrightarrow> fails_grow ctx ctx'"
  by (auto simp: varnish_get_header_command_def varnish_set_header_command_def res_bind_eq_Inr_iff fails_grow_ws
      split: if_splits option.splits prod.splits dest: copy_or_fail_grow)

lemma regexp_commands_grow:
  "varnish_regmatch_command re ops ctx c c s t cache = Inr (b, e, ctx', c') \<Longrightarrow> fails_grow ctx ctx'"
  "varnish_regsub_command re ops ctx c c s t u cache all = Inr (r, e, ctx', c') \<Longrightarrow> fails_grow ctx ctx'"
  by (auto simp: varnish_regmatch_command_def varnish_regsub_command_def res_bind_eq_Inr_iff
      split: option.splits prod.splits dest: copy_or_fail_grow)

lemma task_node_grow: "task_node ops ctx key vs = Inr (node, ctx') \<Longrightarrow> fails_grow ctx ctx'"
  by (auto simp: task_node_def res_bind_eq_Inr_iff must_eq_Inr_iff fails_grow_ws
      split: option.splits prod.splits bool.splits dest: copy_or_fail_grow)
     (auto simp: fails_grow_def vrt_fail_def)

lemma shared_commands_grow:
  "varnish_shared_get_command ops ctx sh x scope = (r, ctx') \<Longrightarrow> fails_grow ctx ctx'"
  "varnish_shared_set_command ops ctx sh x v scope = Inr (ctx', sh') \<Longrightarrow> fails_grow ctx ctx'"
proof -
  show "varnish_shared_get_command ops ctx sh x scope = (r, ctx') \<Longrightarrow> fails_grow ctx ctx'"
    by (auto simp: varnish_shared_get_command_def split: if_splits option.splits prod.splits dest: copy_or_fail_grow)
  assume "varnish_shared_set_command ops ctx sh x v scope = Inr (ctx', sh')"
  then consider "ctx' = ctx" | node where "task_node ops ctx x (sh_task sh) = Inr (node, ctx')"
    | node ctx1 where "task_node ops ctx x (sh_task sh) = Inr (node, ctx1)" "ctx' = fst (copy_or_fail ops ctx1 v)"
    by (auto simp: varnish_shared_set_command_def res_bind_eq_Inr_iff case_prod_unfold split: if_splits option.splits)
  then show "fails_grow ctx ctx'"
    by cases (auto intro: fails_grow_trans copy_or_fail_grow task_node_grow prod.collapse[symmetric])
qed

lemma init_regexp_keeps:
  assumes "regexps_ok re c" "init_regexp re t cache c c = Inr (vre, c')"
  shows "regexps_ok re c'"
  using init_regexp_correct[OF assms(1,1) subset_refl, of t cache] assms(2) by auto

lemma regexp_commands_keep:
  assumes "regexps_ok re c"
  shows "varnish_regmatch_command re ops ctx c c s t cache = Inr (b, e, ctx', c') \<Longrightarrow> regexps_ok re c'"
    and "varnish_regsub_command re ops ctx c c s t u cache all = Inr (r, e, ctx', c') \<Longrightarrow> regexps_ok re c'"
  by (auto simp: varnish_regmatch_command_def varnish_regsub_command_def res_bind_eq_Inr_iff case_prod_unfold
      split: option.splits dest!: init_regexp_keeps[OF assms])

lemma run_command_keeps:
  assumes "shared_ok sh" "ws_faithful ops" "run_command ops c (ctx, sh) = Inr (r, ctx', sh')"
  shows "shared_ok sh'"
  using run_command_implements[OF assms(1,2), of c ctx] assms(3) by (auto simp: implements_def)

lemma shared_commands_keep:
  assumes "shared_ok sh" "ws_faithful ops"
  shows "varnish_shared_set_command ops ctx sh x v scope = Inr (ctx', sh') \<Longrightarrow> shared_ok sh'"
    and "varnish_shared_unset_command sh x scope = Inr sh' \<Longrightarrow> shared_ok sh'"
  using run_command_keeps[OF assms, of "Shared_Set x v scope" ctx] run_command_keeps[OF assms, of "Shared_Unset x scope" undefined]
  by simp_all

text \<open>What any sequence of commands, and the storing of a result, keep of the host.\<close>

definition host_keeps :: "('w, 'h, 're) host_ops \<Rightarrow> ('w, 'h, 're) host \<Rightarrow> ('w, 'h, 're) host \<Rightarrow> bool" where
  "host_keeps ho k k' \<longleftrightarrow>
     (ws_faithful (ho_ws ho) \<and> host_ok ho k \<longrightarrow> host_ok ho k') \<and> fails_grow (h_ctx k) (h_ctx k')"

lemma host_keeps_refl [simp]: "host_keeps ho k k"
  by (simp add: host_keeps_def)

lemma host_keeps_trans: "host_keeps ho k k1 \<Longrightarrow> host_keeps ho k1 k2 \<Longrightarrow> host_keeps ho k k2"
  using fails_grow_trans by (auto simp: host_keeps_def)

lemma host_keeps_ctx: "fails_grow (h_ctx k) ctx \<Longrightarrow> host_keeps ho k (k\<lparr>h_ctx := ctx\<rparr>)"
  by (simp add: host_keeps_def host_ok_def)

lemma host_step_keeps: "host_step ho k k' \<Longrightarrow> host_keeps ho k k'"
proof (induction rule: host_step.induct)
  case (regmatch k s t cache b e ctx rx)
  then show ?case
    using regexp_commands_grow(1)[OF regmatch]
    by (auto simp: host_keeps_def host_ok_def intro: regexp_commands_keep(1)[OF _ regmatch])
next
  case (regsub k s t u cache all r e ctx rx)
  then show ?case
    using regexp_commands_grow(2)[OF regsub]
    by (auto simp: host_keeps_def host_ok_def intro: regexp_commands_keep(2)[OF _ regsub])
next
  case (shared_set k x v scope ctx sh)
  then show ?case
    using shared_commands_grow(2)[OF shared_set]
    by (auto simp: host_keeps_def host_ok_def intro: shared_commands_keep(1)[OF _ _ shared_set])
next
  case (shared_unset k x scope sh)
  then show ?case
    by (auto simp: host_keeps_def host_ok_def intro: shared_commands_keep(2)[OF _ _ shared_unset])
qed (auto intro: host_keeps_ctx dest: header_commands_grow shared_commands_grow(1))

lemma host_steps_keep: "(host_step ho)\<^sup>*\<^sup>* k k' \<Longrightarrow> host_keeps ho k k'"
  by (induction rule: rtranclp_induct) (auto intro: host_keeps_trans host_step_keeps)

section \<open>The result of a script\<close>

text \<open>\<open>result->values[i] = v\<close>, in an array of \<open>MAX_RESULT_VALUES\<close>.\<close>

definition put_value :: "int \<Rightarrow> 'd result_value \<Rightarrow> 'd result \<Rightarrow> 'd result res" where
  "put_value i v r =
     (if 0 \<le> i \<and> nat i < length (result_values r) then Inr (r\<lparr>result_values := (result_values r)[nat i := v]\<rparr>)
      else Inl Out_Of_Bounds)"

lemma put_value_iff:
  "put_value i v r = Inr r' \<longleftrightarrow> 0 \<le> i \<and> nat i < length (result_values r)
     \<and> r' = r\<lparr>result_values := (result_values r)[nat i := v]\<rparr>"
  by (auto simp: put_value_def)

lemma put_value_keeps: "put_value i v r = Inr r' \<Longrightarrow> result_ok r \<Longrightarrow> result_ok r' \<and> nvalues r' = nvalues r"
  by (auto simp: put_value_iff result_ok_def)

lemma put_value_first: "result_ok r \<Longrightarrow> put_value 0 v r = Inr (r\<lparr>result_values := (result_values r)[0 := v]\<rparr>)"
  by (simp add: put_value_def result_ok_def MAX_RESULT_VALUES_def flip: length_greater_0_conv)

section \<open>The frame of an execution\<close>

text \<open>
  What runs on an engine once it is taken: script, code, name, task state (NULL to check the code only),
  engine and host to success, whether the function was unknown, the result if there is a state,
  engine and host.
\<close>

type_synonym ('l, 'd, 'w, 'h, 're) engine_run =
  "('re, 'l) cfg_script \<Rightarrow> string \<Rightarrow> string \<Rightarrow> 'd task_state option \<Rightarrow> 'l \<Rightarrow> ('w, 'h, 're) host
    \<Rightarrow> (bool \<times> bool \<times> 'd result option \<times> 'l \<times> ('w, 'h, 're) host) res"

definition count_execution :: "bool \<Rightarrow> bool \<Rightarrow> bool \<Rightarrow> exec_stats \<Rightarrow> exec_stats" where
  "count_execution success unknown collected s =
     s\<lparr>ex_total := ex_total s + 1,
       ex_unknown := (if unknown then ex_unknown s + 1 else ex_unknown s),
       ex_failed := (if success then ex_failed s else ex_failed s + 1),
       ex_gc := (if collected then ex_gc s + 1 else ex_gc s)\<rparr>"

text \<open>
  The statistics and the garbage collector; \<open>full\<close> and \<open>step\<close> are the calls to it, \<open>%\<close> of zero traps.
\<close>

definition collect_garbage ::
  "('l \<Rightarrow> 'l) \<Rightarrow> (('re, 'e) cfg_script \<Rightarrow> 'l \<Rightarrow> 'l) \<Rightarrow> ('re, 'e) cfg_script \<Rightarrow> bool \<Rightarrow> uint32 \<Rightarrow> 'l \<Rightarrow> (bool \<times> 'l) res" where
  "collect_garbage full step script gc_collect cycles L =
     (if gc_collect then Inr (True, full L)
      else if sc_min_gc_cycles script = 0 then Inl Division_By_Zero
      else if cycles mod sc_min_gc_cycles script = 0 then Inr (True, step script L)
      else Inr (False, L))"

definition host_of :: "('w, 'h http_ctx) vrt_ctx \<Rightarrow> ('re, 'e) cfg_script \<Rightarrow> 'd task_state option \<Rightarrow> ('w, 'h, 're) host" where
  "host_of ctx script state =
     \<lparr>h_ctx = ctx, h_regexps = sc_regexps script,
      h_shared = \<lparr>sh_task = (case state of None \<Rightarrow> Leaf | Some s \<Rightarrow> ts_variables s),
        sh_global = sc_globals script, sh_n = sc_nglobals script\<rparr>\<rparr>"

definition put_state :: "'d task_state option \<Rightarrow> 'd result option \<Rightarrow> ('w, 'h, 're) host \<Rightarrow> 'd task_state option" where
  "put_state state result k = (case (state, result) of
     (Some s, Some r) \<Rightarrow> Some (s\<lparr>ts_variables := sh_task (h_shared k), ts_result := r\<rparr>) | _ \<Rightarrow> None)"

definition put_host :: "('w, 'h, 're) host \<Rightarrow> ('re, 'e) cfg_script \<Rightarrow> ('re, 'e) cfg_script" where
  "put_host k script = script\<lparr>sc_regexps := h_regexps k, sc_globals := sh_global (h_shared k),
     sc_nglobals := sh_n (h_shared k)\<rparr>"

text \<open>
  \<open>execute_lua\<close> and \<open>execute_javascript\<close> from the moment they have the engine at \<open>a\<close>. \<open>run\<close>, \<open>gc\<close> and \<open>memory\<close>
  are the parts that differ.
\<close>

definition execute_on ::
  "('l, 'd, 'w, 'h, 're) engine_run \<Rightarrow> (('re, 'l) cfg_script \<Rightarrow> bool \<Rightarrow> uint32 \<Rightarrow> 'l \<Rightarrow> (bool \<times> 'l) res) \<Rightarrow> ('l \<Rightarrow> 32 word)
    \<Rightarrow> ('w, 'h http_ctx) vrt_ctx \<Rightarrow> ('re, 'l) cfg_script \<Rightarrow> 'd task_state option
    \<Rightarrow> string \<Rightarrow> string \<Rightarrow> bool \<Rightarrow> nat \<Rightarrow> 'l pool
    \<Rightarrow> (bool \<times> string option \<times> ('w, 'h http_ctx) vrt_ctx \<times> ('re, 'l) cfg_script \<times> 'd task_state option) res" where
  "execute_on run gc memory ctx script state code name gc_collect a pool =
     (case pool_heap pool a of
        None \<Rightarrow> Inl Null_Deref
      | Some e \<Rightarrow>
          res_bind (run script code name state (eng_ctx e) (host_of ctx script state))
            (\<lambda>(success, unknown, result, L, k).
          res_bind (gc script gc_collect (ncycles e + 1) L) (\<lambda>(collected, L').
          res_bind (unlock_engine memory a
              (pool\<lparr>pool_heap := (pool_heap pool)(a \<mapsto> e\<lparr>eng_ctx := L', ncycles := ncycles e + 1\<rparr>)\<rparr>)) (\<lambda>pool'.
            Inr (success, Some name, h_ctx k,
              (put_host k script)\<lparr>sc_pool := pool',
                sc_stats := count_execution success unknown collected (sc_stats script)\<rparr>,
              put_state state result k)))))"

text \<open>
  The whole of them. \<open>sha256\<close> is SHA-256, \<open>create\<close> is \<open>api.new_engine\<close> and \<open>malloc\<close> gives the address of a new
  engine. \<open>flush_jemalloc_tcache\<close> only concerns the allocator. One thread runs here; how threads share
  the engines is the subject of \<open>Engines\<close>. A thread that finds no engine waits for another one to
  give it back: alone, it is \<open>Blocked\<close>.
\<close>

definition execute_script ::
  "('l, 'd, 'w, 'h, 're) engine_run \<Rightarrow> (('re, 'l) cfg_script \<Rightarrow> bool \<Rightarrow> uint32 \<Rightarrow> 'l \<Rightarrow> (bool \<times> 'l) res) \<Rightarrow> ('l \<Rightarrow> 32 word)
    \<Rightarrow> (('re, 'l) cfg_script \<Rightarrow> ('w, 'h, 're) host \<Rightarrow> 'l engine res) \<Rightarrow> (string \<Rightarrow> string) \<Rightarrow> ('l pool \<Rightarrow> nat)
    \<Rightarrow> ('w, 'h http_ctx, 're, 'l, 'd) execute" where
  "execute_script run gc memory create sha256 malloc ctx script state code name gc_collect flush_tcache =
     (let name = (case name of None \<Rightarrow> new_function_name sha256 code | Some n \<Rightarrow> n)
      in res_bind (lock_turn (sc_max_engines script) (sc_max_cycles script) (create script (host_of ctx script state))
             (malloc (sc_pool script)) (sc_pool script)) (\<lambda>(engine, pool).
         case engine of
           None \<Rightarrow> Inl Blocked
         | Some a \<Rightarrow> execute_on run gc memory ctx script state code name gc_collect a pool))"

text \<open>Every engine of the pool has an empty stack, as \<open>api.get_engine_stack_size\<close> tells it.\<close>

definition engines_clean :: "('l engine \<Rightarrow> int) \<Rightarrow> 'l pool \<Rightarrow> bool" where
  "engines_clean size_of p \<longleftrightarrow> (\<forall>a e. pool_heap p a = Some e \<longrightarrow> size_of e = 0)"

lemma execute_script_locks:
  assumes "execute_script run gc memory create sha256 malloc ctx script state code name gcc tc = Inr r"
  obtains a pool n where
    "lock_turn (sc_max_engines script) (sc_max_cycles script) (create script (host_of ctx script state))
       (malloc (sc_pool script)) (sc_pool script) = Inr (Some a, pool)"
    "execute_on run gc memory ctx script state code n gcc a pool = Inr r"
  using assms unfolding execute_script_def Let_def
  by (auto simp: res_bind_eq_Inr_iff split: option.splits)

lemma execute_on_steps:
  assumes "execute_on run gc memory ctx script state code name gcc a pool = Inr (success, name', ctx', script', state')"
  obtains e unknown result L k collected L' pool' where
    "pool_heap pool a = Some e"
    "run script code name state (eng_ctx e) (host_of ctx script state) = Inr (success, unknown, result, L, k)"
    "gc script gcc (ncycles e + 1) L = Inr (collected, L')"
    "unlock_engine memory a
       (pool\<lparr>pool_heap := (pool_heap pool)(a \<mapsto> e\<lparr>eng_ctx := L', ncycles := ncycles e + 1\<rparr>)\<rparr>) = Inr pool'"
    "ctx' = h_ctx k"
    "script' = (put_host k script)\<lparr>sc_pool := pool',
       sc_stats := count_execution success unknown collected (sc_stats script)\<rparr>"
    "state' = put_state state result k"
proof (cases "pool_heap pool a")
  case (Some e)
  show thesis
    using assms unfolding execute_on_def Some option.case
    by (auto simp: res_bind_eq_Inr_iff intro: that[OF Some])
qed (use assms in \<open>simp add: execute_on_def\<close>)

section \<open>What an engine promises\<close>

text \<open>
  The interface of the functions behind \<open>script->api\<close>: a new engine has an empty stack; running
  leaves the result within its array, keeps the host and, when the run was \<open>tidy\<close>, brings the stack
  back to its size; collecting garbage does not touch the stack. \<open>laws\<close> is what is known of the virtual
  machine.
\<close>

locale script_engine =
  fixes laws :: bool
    and ho :: "('w, 'h, 're) host_ops"
    and run :: "('l, 'd, 'w, 'h, 're) engine_run"
    and gc :: "('re, 'l) cfg_script \<Rightarrow> bool \<Rightarrow> uint32 \<Rightarrow> 'l \<Rightarrow> (bool \<times> 'l) res"
    and create :: "('re, 'l) cfg_script \<Rightarrow> ('w, 'h, 're) host \<Rightarrow> 'l engine res"
    and stack_size :: "'l \<Rightarrow> int"
    and tidy :: "('w, 'h, 're) host \<Rightarrow> ('w, 'h, 're) host \<Rightarrow> bool"
  assumes run_outcome: "laws \<Longrightarrow> priv_ok state \<Longrightarrow>
      run script code name state L k = Inr (success, unknown, result, L', k') \<Longrightarrow>
      (case (state, result) of (Some s, Some r) \<Rightarrow> result_ok r | (None, None) \<Rightarrow> True | _ \<Rightarrow> False)
      \<and> host_keeps ho k k' \<and> (tidy k k' \<longrightarrow> stack_size L' = stack_size L)"
    and gc_stack: "laws \<Longrightarrow> gc script gcc n L = Inr (collected, L') \<Longrightarrow> stack_size L' = stack_size L"
    and create_stack: "laws \<Longrightarrow> create script k = Inr e \<Longrightarrow> stack_size (eng_ctx e) = 0"
begin

lemma execute_keeps:
  assumes "laws"
  shows "execute_keeps (execute_script run gc memory create sha256 malloc)"
  unfolding execute_keeps_def
proof (intro allI impI)
  fix ctx script state code name gcc tc ok name' ctx' script' state'
  assume "execute_script run gc memory create sha256 malloc ctx script state code name gcc tc
    = Inr (ok, name', ctx', script', state')"
  then obtain a pool n where "execute_on run gc memory ctx script state code n gcc a pool = Inr (ok, name', ctx', script', state')"
    by (rule execute_script_locks)
  then obtain e unknown result L k collected pool' where "pool_heap pool a = Some e"
    and run: "run script code n state (eng_ctx e) (host_of ctx script state) = Inr (ok, unknown, result, L, k)"
    and script': "script' = (put_host k script)\<lparr>sc_pool := pool',
       sc_stats := count_execution ok unknown collected (sc_stats script)\<rparr>"
    and state': "state' = put_state state result k"
    by (rule execute_on_steps) blast
  have "task_ok s'" if "state = Some s" "state' = Some s'" "task_ok s" for s s'
  proof -
    have "priv_ok state" using that by (simp add: priv_ok_def)
    from run_outcome[OF assms this run] show ?thesis
      using that state' by (auto simp: put_state_def task_ok_def split: option.splits)
  qed
  then show "sc_code script' = sc_code script \<and> sc_function script' = sc_function script
    \<and> sc_remote script' = sc_remote script
    \<and> (\<forall>s s'. state = Some s \<longrightarrow> state' = Some s' \<longrightarrow>
        ts_code s' = ts_code s \<and> ts_argc s' = ts_argc s \<and> (task_ok s \<longrightarrow> task_ok s'))"
    using script' state' by (auto simp: put_host_def put_state_def split: option.splits)
qed

lemma execute_host:
  assumes "laws" "ws_faithful (ho_ws ho)" "priv_ok state" "host_ok ho (host_of ctx script state)"
    and "execute_script run gc memory create sha256 malloc ctx script state code name gcc tc
      = Inr (success, name', ctx', script', state')"
  shows "priv_ok state' \<and> host_ok ho (host_of ctx' script' state') \<and> fails_grow ctx ctx'
    \<and> ex_total (sc_stats script') = ex_total (sc_stats script) + 1
    \<and> ex_failed (sc_stats script') = ex_failed (sc_stats script) + (if success then 0 else 1)"
proof -
  obtain a pool n where "execute_on run gc memory ctx script state code n gcc a pool = Inr (success, name', ctx', script', state')"
    using assms(5) by (rule execute_script_locks)
  then obtain e unknown result L k collected pool' where "pool_heap pool a = Some e"
    and run: "run script code n state (eng_ctx e) (host_of ctx script state) = Inr (success, unknown, result, L, k)"
    and script': "script' = (put_host k script)\<lparr>sc_pool := pool',
       sc_stats := count_execution success unknown collected (sc_stats script)\<rparr>"
    and state': "state' = put_state state result k" and ctx': "ctx' = h_ctx k"
    by (rule execute_on_steps) blast
  note outcome = run_outcome[OF assms(1,3) run]
  then have "priv_ok state'"
    using state' assms(3) by (auto simp: priv_ok_def put_state_def task_ok_def split: option.splits)
  moreover have "host_ok ho k" "fails_grow ctx ctx'"
    using outcome assms(2,4) ctx' by (auto simp: host_keeps_def host_of_def)
  ultimately show ?thesis
    using script' state'
    by (auto simp: host_ok_def host_of_def put_host_def put_state_def shared_ok_def count_execution_def
        vrbt_ok_def rb_tree_def split: option.splits)
qed

lemma execute_pool:
  assumes "laws" "priv_ok state" "pool_ok (sc_max_engines script) (sc_pool script)"
    and "unused_address (sc_max_cycles script) (sc_pool script) (malloc (sc_pool script))"
    and "execute_script run gc memory create sha256 malloc ctx script state code name gcc tc
      = Inr (success, name', ctx', script', state')"
  shows "pool_ok (sc_max_engines script') (sc_pool script')
    \<and> pool_busy (sc_pool script') = pool_busy (sc_pool script)
    \<and> available (sc_max_engines script') (sc_pool script') = available (sc_max_engines script) (sc_pool script)
    \<and> (engines_clean (\<lambda>e. stack_size (eng_ctx e)) (sc_pool script)
        \<and> (\<forall>k k'. h_ctx k = ctx \<and> h_ctx k' = ctx' \<longrightarrow> tidy k k')
        \<longrightarrow> engines_clean (\<lambda>e. stack_size (eng_ctx e)) (sc_pool script'))"
proof -
  obtain a pool n where lock: "lock_turn (sc_max_engines script) (sc_max_cycles script) (create script (host_of ctx script state))
       (malloc (sc_pool script)) (sc_pool script) = Inr (Some a, pool)"
    and "execute_on run gc memory ctx script state code n gcc a pool = Inr (success, name', ctx', script', state')"
    using assms(5) by (rule execute_script_locks)
  then obtain e unknown result L k collected L' pool' where e: "pool_heap pool a = Some e"
    and run: "run script code n state (eng_ctx e) (host_of ctx script state) = Inr (success, unknown, result, L, k)"
    and gc: "gc script gcc (ncycles e + 1) L = Inr (collected, L')"
    and unlock: "unlock_engine memory a
       (pool\<lparr>pool_heap := (pool_heap pool)(a \<mapsto> e\<lparr>eng_ctx := L', ncycles := ncycles e + 1\<rparr>)\<rparr>) = Inr pool'"
    and ctx': "ctx' = h_ctx k"
    and script': "script' = (put_host k script)\<lparr>sc_pool := pool',
       sc_stats := count_execution success unknown collected (sc_stats script)\<rparr>"
    by (auto elim: execute_on_steps)
  obtain m where "lock_turn (sc_max_engines script) (sc_max_cycles script) (Inr m) (malloc (sc_pool script)) (sc_pool script)
       = Inr (Some a, pool)"
    using lock_turn_made[OF lock] by blast
  then have pool: "pool_ok (sc_max_engines script) pool" "a \<notin> set (pool_busy (sc_pool script))"
      "pool_busy pool = pool_busy (sc_pool script) @ [a]" "available (sc_max_engines script) (sc_pool script) > 0"
    using lock_turn_outcome[OF assms(3,4), of m] by auto
  define p1 where "p1 = pool\<lparr>pool_heap := (pool_heap pool)(a \<mapsto> e\<lparr>eng_ctx := L', ncycles := ncycles e + 1\<rparr>)\<rparr>"
  have "pool_ok (sc_max_engines script) p1" "a \<in> set (pool_busy p1)"
    using pool e by (auto simp: pool_ok_def p1_def)
  from unlock_outcome[OF this, of memory]
  have "pool_ok (sc_max_engines script) pool'" "pool_busy pool' = pool_busy (sc_pool script)"
      "available (sc_max_engines script) pool' = available (sc_max_engines script) (sc_pool script)"
    using unlock pool by (auto simp: p1_def remove1_append available_def)
  moreover have "engines_clean (\<lambda>e. stack_size (eng_ctx e)) pool'"
    if "engines_clean (\<lambda>e. stack_size (eng_ctx e)) (sc_pool script)"
      and tidy: "\<forall>k k'. h_ctx k = ctx \<and> h_ctx k' = ctx' \<longrightarrow> tidy k k'"
  proof -
    have clean: "stack_size (eng_ctx e') = 0" if "pool_heap pool b = Some e'" for b e'
      using lock_turn_heap[OF lock that] \<open>engines_clean _ (sc_pool script)\<close> create_stack[OF assms(1)]
      by (auto simp: engines_clean_def)
    have "tidy (host_of ctx script state) k"
      using tidy by (simp add: host_of_def ctx')
    then have "stack_size L' = 0"
      using run_outcome[OF assms(1,2) run] gc_stack[OF assms(1) gc] clean[OF e] by simp
    then show ?thesis
      using unlock clean by (auto simp: engines_clean_def unlock_engine_def split: if_splits)
  qed
  ultimately show ?thesis using script' by (simp add: put_host_def)
qed

end

end
