(* ===== verification/Script_Live.thy ===== *)
theory Script_Live
  imports Script_Host
begin

text \<open>
  Total correctness of \<open>cfg.script\<close>: what an engine has to promise for an execution to return, as the
  locale \<open>live_engine\<close>, and what follows for every operation of an object. \<open>Lua_Live\<close> and
  \<open>Javascript_Live\<close> interpret the locale.
\<close>

section \<open>Objects that serve\<close>

text \<open>\<open>malloc\<close> never returns an address that is in use.\<close>

definition malloc_fresh :: "('l pool \<Rightarrow> nat) \<Rightarrow> bool" where
  "malloc_fresh malloc \<longleftrightarrow> (\<forall>m c p. pool_ok m p \<longrightarrow> unused_address c p (malloc p))"

text \<open>The workspace has room for every copy.\<close>

definition ws_roomy :: "'w ws_ops \<Rightarrow> bool" where
  "ws_roomy ops \<longleftrightarrow> (\<forall>w s. snd (ws_copy ops w s) \<noteq> None)"

lemma copy_or_fail_roomy:
  assumes "ws_roomy ops" "copy_or_fail ops ctx s = (ctx', r)"
  shows "r \<noteq> None"
proof -
  have "snd (ws_copy ops (ctx_ws ctx) s) \<noteq> None" using assms(1) unfolding ws_roomy_def by blast
  then show ?thesis
    using assms(2) by (cases "ws_copy ops (ctx_ws ctx) s") (auto simp: copy_or_fail_def split: option.splits)
qed

text \<open>
  What every operation of an object keeps: its type, a pool with an engine to be had, \<open>good\<close> engines in
  it, a period of the garbage collector, a function name of its own, and well-formed caches and variables.
\<close>

definition script_serving :: "'re vre_ops \<Rightarrow> engine_type \<Rightarrow> ('e \<Rightarrow> bool) \<Rightarrow> ('re, 'e) cfg_script \<Rightarrow> bool" where
  "script_serving re kind good script \<longleftrightarrow>
     sc_type script = kind \<and> pool_ok (sc_max_engines script) (sc_pool script)
     \<and> (\<forall>a e. pool_heap (sc_pool script) a = Some e \<longrightarrow> good (eng_ctx e))
     \<and> available (sc_max_engines script) (sc_pool script) > 0
     \<and> sc_min_gc_cycles script \<noteq> 0 \<and> sc_function script \<noteq> Some ''varnish''
     \<and> regexps_ok re (sc_regexps script)
     \<and> shared_ok \<lparr>sh_task = Leaf, sh_global = sc_globals script, sh_n = sc_nglobals script\<rparr>"

definition task_serving :: "'d task_state option \<Rightarrow> bool" where
  "task_serving priv \<longleftrightarrow> priv_ok priv \<and> (case priv of None \<Rightarrow> True | Some s \<Rightarrow> vrbt_ok tvcmp (ts_variables s))"

lemma task_serving_ok: "task_serving priv \<Longrightarrow> priv_ok priv"
  by (simp add: task_serving_def)

lemma vrbt_ok_empty [simp]: "vrbt_ok cmp Leaf"
  by (simp add: vrbt_ok_def rb_tree_def)

lemma host_ok_serving:
  "task_serving state \<Longrightarrow> script_serving (ho_vre ho) kind good script \<Longrightarrow> host_ok ho (host_of ctx script state)"
  by (auto simp: host_ok_def host_of_def script_serving_def task_serving_def shared_ok_def split: option.splits)

lemma host_ok_parts:
  "host_ok ho (host_of ctx script state) \<Longrightarrow> regexps_ok (ho_vre ho) (sc_regexps script)
    \<and> shared_ok \<lparr>sh_task = Leaf, sh_global = sc_globals script, sh_n = sc_nglobals script\<rparr>
    \<and> (case state of None \<Rightarrow> True | Some s \<Rightarrow> vrbt_ok tvcmp (ts_variables s))"
  by (auto simp: host_ok_def host_of_def shared_ok_def split: option.splits)

lemma task_serving_get: "task_serving priv \<Longrightarrow> task_serving (Some (get_task_state priv b))"
  using task_ok_get[of priv b]
  by (auto simp: task_serving_def priv_ok_def get_task_state_def new_task_state_def reset_task_state_def Let_def
      split: option.splits)

lemma task_serving_init: "task_serving priv \<Longrightarrow> task_serving (Some (vmod_script_init priv code))"
  using task_ok_init[of priv code] task_serving_get[of priv True]
  by (auto simp: task_serving_def priv_ok_def vmod_script_init_def Let_def split: option.splits)

lemma task_serving_push: "task_serving priv \<Longrightarrow> task_serving (Some (snd (vmod_script_push ops ctx priv arg)))"
  using task_ok_push[of priv ops ctx arg] task_serving_get[of priv False]
  by (auto simp: task_serving_def priv_ok_def vmod_script_push_def Let_def split: option.splits prod.splits)

lemma new_function_name_own: "new_function_name sha256 code \<noteq> ''varnish''"
  by (simp add: new_function_name_def)

section \<open>Engines that return\<close>

text \<open>
  An execution leaves the settings of the object alone, and the name it gives back is the one it was
  given or a new one.
\<close>

lemma execute_script_settings:
  fixes run :: "('l, 'd, 'w, 'h, 're) engine_run"
  assumes "execute_script run gc memory create sha256 malloc ctx script state code name gcc tc
      = Inr (success, name', ctx', script', state')"
  shows "sc_type script' = sc_type script \<and> sc_max_engines script' = sc_max_engines script
    \<and> sc_max_cycles script' = sc_max_cycles script \<and> sc_min_gc_cycles script' = sc_min_gc_cycles script
    \<and> sc_sandboxing script' = sc_sandboxing script \<and> sc_lua script' = sc_lua script
    \<and> name' = Some (case name of None \<Rightarrow> new_function_name sha256 code | Some n \<Rightarrow> n)"
proof -
  define n where "n = (case name of None \<Rightarrow> new_function_name sha256 code | Some n \<Rightarrow> n)"
  obtain a pool where on: "execute_on run gc memory ctx script state code n gcc a pool = Inr (success, name', ctx', script', state')"
    using assms unfolding execute_script_def Let_def n_def[symmetric]
    by (auto simp: res_bind_eq_Inr_iff split: option.splits)
  then obtain k :: "('w, 'h, 're) host" and pool' stats where "script' = (put_host k script)\<lparr>sc_pool := pool', sc_stats := stats\<rparr>"
    by (rule execute_on_steps) blast
  moreover have "name' = Some n"
    using on by (auto simp: execute_on_def res_bind_eq_Inr_iff split: option.splits)
  ultimately show ?thesis by (simp add: put_host_def n_def)
qed

locale live_engine = script_engine laws ho run gc create stack_size tidy
  for laws :: bool
    and ho :: "('w, 'h, 're) host_ops"
    and run :: "('l, 'd, 'w, 'h, 're) engine_run"
    and gc :: "('re, 'l) cfg_script \<Rightarrow> bool \<Rightarrow> uint32 \<Rightarrow> 'l \<Rightarrow> (bool \<times> 'l) res"
    and create :: "('re, 'l) cfg_script \<Rightarrow> ('w, 'h, 're) host \<Rightarrow> 'l engine res"
    and stack_size :: "'l \<Rightarrow> int"
    and tidy :: "('w, 'h, 're) host \<Rightarrow> ('w, 'h, 're) host \<Rightarrow> bool" +
  fixes live :: bool
    and kind :: engine_type
    and good :: "'l \<Rightarrow> bool"
  assumes run_ends: "laws \<Longrightarrow> live \<Longrightarrow> priv_ok state \<Longrightarrow> name \<noteq> ''varnish'' \<Longrightarrow> good L \<Longrightarrow>
      ends (run script code name state L k) (\<lambda>(success, unknown, result, L', k'). good L')"
    and gc_ends: "laws \<Longrightarrow> live \<Longrightarrow> sc_min_gc_cycles script \<noteq> 0 \<Longrightarrow> good L \<Longrightarrow>
      ends (gc script gcc n L) (\<lambda>(collected, L'). good L')"
    and create_ends: "laws \<Longrightarrow> live \<Longrightarrow> sc_type script = kind \<Longrightarrow> ends (create script k) (\<lambda>e. good (eng_ctx e))"
begin

lemma execute_ends:
  assumes "laws" "live" "malloc_fresh malloc" "priv_ok state" "script_serving (ho_vre ho) kind good script"
    and "name \<noteq> Some ''varnish''"
  shows "ends (execute_script run gc memory create sha256 malloc ctx script state code name gcc tc)
    (\<lambda>(success, name', ctx', script', state'). \<forall>a e. pool_heap (sc_pool script') a = Some e \<longrightarrow> good (eng_ctx e))"
proof -
  define m where "m = sc_max_engines script"
  define n where "n = (case name of None \<Rightarrow> new_function_name sha256 code | Some n \<Rightarrow> n)"
  have n: "n \<noteq> ''varnish''" using assms(6) new_function_name_own by (auto simp: n_def split: option.split)
  have ok: "pool_ok m (sc_pool script)" "available m (sc_pool script) > 0" "sc_min_gc_cycles script \<noteq> 0"
      "unused_address (sc_max_cycles script) (sc_pool script) (malloc (sc_pool script))"
    using assms(3,5) by (auto simp: script_serving_def malloc_fresh_def m_def)
  obtain made where made: "create script (host_of ctx script state) = Inr made"
      and "good (eng_ctx made)"
    using create_ends[OF assms(1,2), of script] assms(5) unfolding script_serving_def ends_def by blast
  obtain result pool where lock: "lock_turn m (sc_max_cycles script) (Inr made) (malloc (sc_pool script)) (sc_pool script)
      = Inr (result, pool)" "pool_ok m pool" "case result of None \<Rightarrow> available m (sc_pool script) = 0
        | Some b \<Rightarrow> pool_busy pool = pool_busy (sc_pool script) @ [b]"
    using lock_turn_outcome[OF ok(1,4), of made] by (auto split: option.splits)
  then obtain a where a: "result = Some a" "a \<in> set (pool_busy pool)"
    using ok(2) by (cases result) auto
  then obtain e where e: "pool_heap pool a = Some e"
    using lock(2) by (auto simp: pool_ok_def dom_def)
  have good: "good (eng_ctx e')" if "pool_heap pool b = Some e'" for b e'
    using lock_turn_heap[OF lock(1) that] \<open>good (eng_ctx made)\<close> assms(5) by (auto simp: script_serving_def)
  obtain success unknown res L k where run: "run script code n state (eng_ctx e) (host_of ctx script state)
      = Inr (success, unknown, res, L, k)" and L: "good L"
    using run_ends[OF assms(1,2,4) n good[OF e], of script code "host_of ctx script state"] by (auto simp: ends_def)
  obtain collected L' where gc: "gc script gcc (ncycles e + 1) L = Inr (collected, L')" and L': "good L'"
    using gc_ends[OF assms(1,2) ok(3) L, of gcc "ncycles e + 1"] by (auto simp: ends_def)
  have "pool_ok m (pool\<lparr>pool_heap := (pool_heap pool)(a \<mapsto> e\<lparr>eng_ctx := L', ncycles := ncycles e + 1\<rparr>)\<rparr>)"
    using lock(2) e by (auto simp: pool_ok_def)
  from unlock_outcome[OF this, of a memory] obtain pool' where
    "unlock_engine memory a (pool\<lparr>pool_heap := (pool_heap pool)(a \<mapsto> e\<lparr>eng_ctx := L', ncycles := ncycles e + 1\<rparr>)\<rparr>) = Inr pool'"
    using a(2) by auto
  moreover from this have "good (eng_ctx e')" if "pool_heap pool' b = Some e'" for b e'
    using that good L' by (auto simp: unlock_engine_def split: if_splits)
  ultimately show ?thesis
    unfolding execute_script_def Let_def made lock(1)[unfolded m_def] a(1) execute_on_def n_def[symmetric]
    by (simp add: e run gc)
qed

lemma execute_serves:
  assumes "laws" "live" "malloc_fresh malloc" "ws_faithful (ho_ws ho)"
    and "task_serving state" "script_serving (ho_vre ho) kind good script" "name \<noteq> Some ''varnish''"
  obtains success name' ctx' script' state' where
    "execute_script run gc memory create sha256 malloc ctx script state code name gcc tc
      = Inr (success, name', ctx', script', state')"
    "script_serving (ho_vre ho) kind good script'" "task_serving state'" "state = None \<longleftrightarrow> state' = None"
    "name' \<noteq> None" "name' \<noteq> Some ''varnish''"
    "sc_code script' = sc_code script" "sc_function script' = sc_function script" "sc_remote script' = sc_remote script"
proof -
  note priv = task_serving_ok[OF assms(5)]
  obtain success name' ctx' script' state' where
    run: "execute_script run gc memory create sha256 malloc ctx script state code name gcc tc
      = Inr (success, name', ctx', script', state')"
    and good: "\<forall>a e. pool_heap (sc_pool script') a = Some e \<longrightarrow> good (eng_ctx e)"
    using execute_ends[OF assms(1-3) priv assms(6,7), of memory sha256 ctx code gcc tc] by (auto simp: ends_def)
  have unused: "unused_address (sc_max_cycles script) (sc_pool script) (malloc (sc_pool script))"
      and pool: "pool_ok (sc_max_engines script) (sc_pool script)"
    using assms(3,6) by (auto simp: script_serving_def malloc_fresh_def)
  note settings = execute_script_settings[OF run]
  note same = execute_keeps_script[OF execute_keeps[OF assms(1)] run]
  note host = execute_host[OF assms(1,4) priv host_ok_serving[OF assms(5,6)] run]
  have "script_serving (ho_vre ho) kind good script'"
    using execute_pool[OF assms(1) priv pool unused run] assms(6) settings same good host_ok_parts[of ho ctx' script' state'] host
    by (simp add: script_serving_def)
  moreover have "task_serving state'"
    using host host_ok_parts[of ho ctx' script' state'] by (simp add: task_serving_def)
  moreover have "state = None \<longleftrightarrow> state' = None"
  proof -
    obtain a pool n where "execute_on run gc memory ctx script state code n gcc a pool = Inr (success, name', ctx', script', state')"
      using run by (rule execute_script_locks)
    then obtain e :: "'l engine" and unknown result L k where "run script code n state (eng_ctx e) (host_of ctx script state)
          = Inr (success, unknown, result, L, k)" "state' = put_state state result k"
      by (rule execute_on_steps) blast
    from run_outcome[OF assms(1) priv this(1)] this(2) show ?thesis
      by (auto simp: put_state_def split: option.splits)
  qed
  moreover have "name' \<noteq> None" "name' \<noteq> Some ''varnish''"
    using settings assms(7) new_function_name_own by (auto split: option.splits)
  ultimately show thesis using that[OF run] same by blast
qed

end

section \<open>The life of an object\<close>

text \<open>
  One object from its constructor on, and the tasks that use it: their calls come in any order, each
  one on the state the others left. The numbers of the constructor are not zero as 32-bit values.
\<close>

inductive script_service ::
  "('w, 'h, 're, 'e, 'd) execute \<Rightarrow> 'w ws_ops \<Rightarrow> engine_type \<Rightarrow> ('re, 'e) cfg_script \<Rightarrow> (nat \<Rightarrow> 'd task_state option) \<Rightarrow> bool"
  for execute :: "('w, 'h, 're, 'e, 'd) execute" and ops kind where
  made: "vmod_script__init execute os now later ctx None vcl_name ra sa = Inr (Some script, ctx', os') \<Longrightarrow>
    sa_type sa = Some kind \<Longrightarrow> to_unsigned (sa_max_engines sa) \<noteq> (0 :: uint32) \<Longrightarrow>
    to_unsigned (sa_min_gc_cycles sa) \<noteq> (0 :: uint32) \<Longrightarrow> os_curl_init os \<Longrightarrow>
    script_service execute ops kind script (\<lambda>_. None)"
| init: "script_service execute ops kind script tasks \<Longrightarrow>
    script_service execute ops kind script (tasks(i := Some (vmod_script_init (tasks i) code)))"
| push: "script_service execute ops kind script tasks \<Longrightarrow>
    script_service execute ops kind script
      (tasks(i := Some (snd (vmod_script_push ops (ctx :: ('w, 'h) vrt_ctx) (tasks i) arg))))"
| execute: "script_service execute ops kind script tasks \<Longrightarrow>
    vmod_script_execute execute ops ctx script (tasks i) gc tc = Inr (ctx', script', s) \<Longrightarrow>
    script_service execute ops kind script' (tasks(i := Some s))"
| free_result: "script_service execute ops kind script tasks \<Longrightarrow>
    script_service execute ops kind script (tasks(i := Some (vmod_script_free_result (tasks i))))"
| reload: "script_service execute ops kind script tasks \<Longrightarrow> os_curl_init os \<Longrightarrow>
    vmod_script_reload execute os now later ctx script force_backup = Inr (result, ctx', script', os') \<Longrightarrow>
    script_service execute ops kind script' tasks"
| inspect: "script_service execute ops kind script tasks \<Longrightarrow> os_curl_init os \<Longrightarrow>
    vmod_script_inspect execute os now later ctx script (tasks i) = Inr (ctx', script', s, os') \<Longrightarrow>
    script_service execute ops kind script' (tasks(i := Some s))"

lemma new_script_serving:
  assumes "to_unsigned (sa_max_engines sa) \<noteq> (0 :: uint32)" "to_unsigned (sa_min_gc_cycles sa) \<noteq> (0 :: uint32)"
  shows "script_serving re kind good (new_script vcl_name ra sa kind :: ('re, 'e) cfg_script)"
proof -
  have "pool_busy (empty_pool :: 'e pool) = []" "pool_heap (empty_pool :: 'e pool) = Map.empty"
    by (simp_all add: empty_pool_def)
  then show ?thesis
    using assms by (simp add: script_serving_def new_script_def pool_ok_empty available_def regexps_ok_def shared_ok_def
        vars_ok_Leaf unat_gt_0)
qed

lemma script_serving_settings [simp]:
  "script_serving re kind good (script\<lparr>sc_remote := r\<rparr>) = script_serving re kind good script"
  "script_serving re kind good (script\<lparr>sc_code := c\<rparr>) = script_serving re kind good script"
  "f \<noteq> Some ''varnish'' \<Longrightarrow> script_serving re kind good script \<Longrightarrow> script_serving re kind good (script\<lparr>sc_function := f\<rparr>)"
  by (simp_all add: script_serving_def)

lemma script_fini_returns:
  "script_serving re kind good script \<Longrightarrow> vmod_script__fini (Some script) = Inr None"
  by (simp add: vmod_script__fini_def script_serving_def regexps_ok_def shared_ok_def flush_regexps_def rxcmp.flush_all
      flush_global_variables_correct)

context live_engine
begin

lemma vmod_execute_serves:
  assumes "laws" "live" "malloc_fresh malloc" "ws_faithful (ho_ws ho)"
    and "task_serving priv" "script_serving (ho_vre ho) kind good script" "ws_faithful ops"
  shows "\<exists>ctx' script' s.
    vmod_script_execute (execute_script run gc memory create sha256 malloc) ops ctx script priv gcc tc = Inr (ctx', script', s)
    \<and> script_serving (ho_vre ho) kind good script' \<and> task_serving (Some s)"
proof -
  let ?E = "execute_script run gc memory create sha256 malloc"
  define state where "state = get_task_state priv False"
  have state: "task_serving (Some state)" using task_serving_get[OF assms(5)] by (simp add: state_def)
  have run: "\<exists>success name' ctx' script' s. ?E c script (Some state) code name gcc tc = Inr (success, name', ctx', script', Some s)
      \<and> script_serving (ho_vre ho) kind good script' \<and> task_serving (Some s)" if "name \<noteq> Some ''varnish''" for c code name
    by (rule execute_serves[OF assms(1-4) state assms(6) that, of memory sha256 c code gcc tc]) auto
  have failed: "task_serving (Some (set_result_value 0 RESULT_ERROR state))"
    using state task_ok_set_result[of state 0 RESULT_ERROR] by (simp add: task_serving_def priv_ok_def set_result_value_def)
  have own: "sc_function script \<noteq> Some ''varnish''" using assms(6) by (simp add: script_serving_def)
  show ?thesis
  proof (cases "ts_argc state \<ge> 0")
    case False
    then show ?thesis
      using state assms(6) unfolding vmod_script_execute_def Let_def state_def[symmetric] by simp
  next
    case argc: True
    show ?thesis
    proof (cases "ts_code state")
      case (Some code)
      then show ?thesis
        using run[of None ctx code] argc unfolding vmod_script_execute_def Let_def state_def[symmetric] by auto
    next
      case code: None
      show ?thesis
      proof (cases "\<exists>code name. sc_code script = Some code \<and> sc_function script = Some name")
        case False
        then show ?thesis
          using failed assms(6) argc code unfolding vmod_script_execute_def Let_def state_def[symmetric]
          by (auto split: option.splits)
      next
        case True
        then obtain c n where cn: "sc_code script = Some c" "sc_function script = Some n" by blast
        obtain w1 c' where c': "ws_copy ops (ctx_ws ctx) c = (w1, c')" by fastforce
        obtain w2 n' where n': "ws_copy ops w1 n = (w2, n')" by fastforce
        have same: "n' = Some m \<Longrightarrow> m \<noteq> ''varnish''" for m
          using n' cn own assms(7) by (auto simp: ws_faithful_def)
        show ?thesis
        proof (cases "\<exists>d m. c' = Some d \<and> n' = Some m")
          case True
          then obtain d m where dm: "c' = Some d" "n' = Some m" by blast
          then show ?thesis
            using run[of "Some m" "ctx\<lparr>ctx_ws := w2\<rparr>" d] same[OF dm(2)] argc code cn c' n'
            unfolding vmod_script_execute_def Let_def state_def[symmetric] by auto
        next
          case False
          then show ?thesis
            using state assms(6) argc code cn c' n' unfolding vmod_script_execute_def Let_def state_def[symmetric]
            by (auto split: option.splits)
        qed
      qed
    qed
  qed
qed

text \<open>Loading: the syntax check is an execution without a task.\<close>

lemma check_callback_serves:
  assumes "laws" "live" "malloc_fresh malloc" "ws_faithful (ho_ws ho)" "script_serving (ho_vre ho) kind good (snd s)"
  shows "\<exists>result s'. script_check_callback (execute_script run gc memory create sha256 malloc) s t b = Inr (result, t, s')
    \<and> script_serving (ho_vre ho) kind good (snd s')"
proof -
  obtain ctx script where s: "s = (ctx, script)" by (cases s)
  have "task_serving None" by (simp add: task_serving_def priv_ok_def)
  moreover have "script_serving (ho_vre ho) kind good script" using assms(5) by (simp add: s)
  ultimately obtain success name' ctx' script' state' where
    "execute_script run gc memory create sha256 malloc ctx script None t None False True = Inr (success, name', ctx', script', state')"
    "script_serving (ho_vre ho) kind good script'" "name' \<noteq> Some ''varnish''"
    by (rule execute_serves[OF assms(1-4), where name = None]) simp
  then show ?thesis by (auto simp: s script_check_callback_def)
qed

lemma script_total_loader:
  assumes "laws" "live" "malloc_fresh malloc" "ws_faithful (ho_ws ho)"
  shows "total_loader (script_check_callback (execute_script run gc memory create sha256 malloc))
    (\<lambda>s. script_serving (ho_vre ho) kind good (snd s)) (\<lambda>_ _. True)"
proof (unfold_locales, goal_cases)
  case (3 s t b res t' s')
  then show ?case using check_callback_serves[OF assms 3(1), of memory sha256 t b] by auto
next
  case (4 s t b res t' s')
  then show ?case using check_callback_serves[OF assms 4(1), of memory sha256 t b] by auto
next
  case (6 s t b)
  then show ?case using check_callback_serves[OF assms 6(1), of memory sha256 t b] by auto
qed simp_all

lemma script_check_serves:
  assumes "laws" "live" "malloc_fresh malloc" "ws_faithful (ho_ws ho)" "script_serving (ho_vre ho) kind good script"
    and "os_curl_init os"
  shows "\<exists>result ctx' script' os'. script_check (execute_script run gc memory create sha256 malloc) os now later ctx script
      force_load force_backup = Inr (result, ctx', script', os')
    \<and> script_serving (ho_vre ho) kind good script' \<and> (sc_remote script' = None \<longleftrightarrow> sc_remote script = None)"
proof (cases "sc_remote script")
  case None
  then show ?thesis using assms(5) by (auto simp: script_check_def)
next
  case (Some r)
  let ?callback = "script_check_callback (execute_script run gc memory create sha256 malloc)"
  note loader = script_total_loader[OF assms(1-4), of memory sha256]
  have ok: "script_serving (ho_vre ho) kind good (snd (ctx, script))" using assms(5) by simp
  obtain result r' os' s' where check: "check_remote os force_load force_backup ?callback now later r (ctx, script)
      = Inr (result, r', os', s')"
    using total_loader.check_returns[OF loader ok assms(6)] by (metis returnsE prod_cases4)
  have "script_serving (ho_vre ho) kind good (snd s')"
    using remote_loader.check_outcome[OF total_loader.axioms(1)[OF loader] ok check] by blast
  then show ?thesis
    using check Some by (auto simp: script_check_def split: prod.split)
qed

lemma script_init_serves:
  assumes "laws" "live" "malloc_fresh malloc" "ws_faithful (ho_ws ho)" "os_curl_init os"
    and "sa_type sa = Some kind" "to_unsigned (sa_max_engines sa) \<noteq> (0 :: uint32)"
    and "to_unsigned (sa_min_gc_cycles sa) \<noteq> (0 :: uint32)"
  shows "\<exists>slot ctx' os'. vmod_script__init (execute_script run gc memory create sha256 malloc) os now later ctx None vcl_name ra sa
      = Inr (slot, ctx', os') \<and> (case slot of None \<Rightarrow> True | Some script \<Rightarrow> script_serving (ho_vre ho) kind good script)"
proof (cases "script_numbers_ok ra sa")
  case False
  then show ?thesis by (simp add: vmod_script__init_def)
next
  case True
  from script_check_serves[OF assms(1-4) new_script_serving[OF assms(7,8)] assms(5)]
  obtain result ctx' script' os' where check: "script_check (execute_script run gc memory create sha256 malloc) os now later ctx
      (new_script vcl_name ra sa kind) True False = Inr (result, ctx', script', os')"
    and serving: "script_serving (ho_vre ho) kind good script'"
    by blast
  show ?thesis
    using True check serving script_fini_returns[OF serving] by (simp add: vmod_script__init_def assms(6))
qed

lemma script_inspect_serves:
  assumes "laws" "live" "malloc_fresh malloc" "ws_faithful (ho_ws ho)" "script_serving (ho_vre ho) kind good script"
    and "os_curl_init os" "task_serving priv"
  shows "\<exists>ctx' script' s os'. vmod_script_inspect (execute_script run gc memory create sha256 malloc) os now later ctx script priv
      = Inr (ctx', script', s, os') \<and> script_serving (ho_vre ho) kind good script' \<and> task_serving (Some s)"
proof -
  obtain result ctx' script' os' where check: "script_check (execute_script run gc memory create sha256 malloc) os now later ctx
      script False False = Inr (result, ctx', script', os')"
    and serving: "script_serving (ho_vre ho) kind good script'" "sc_remote script' = None \<longleftrightarrow> sc_remote script = None"
    using script_check_serves[OF assms(1-6), of memory sha256 now later ctx False False]
    by (elim exE conjE) (rule that)
  show ?thesis
    using check serving assms(5) task_serving_get[OF assms(7), of False]
    by (auto simp: vmod_script_inspect_def Let_def split: option.split)
qed

lemma service_serving:
  assumes "laws" "live" "malloc_fresh malloc" "ws_faithful (ho_ws ho)"
    and "script_service (execute_script run gc memory create sha256 malloc) (ho_ws ho) kind script tasks"
  shows "script_serving (ho_vre ho) kind good script \<and> task_serving (tasks i)"
  using assms(5)
proof (induction arbitrary: i rule: script_service.induct)
  case (made os now later ctx vcl_name ra sa script ctx' os')
  then show ?case
    using script_init_serves[OF assms(1-4) made(5,2-4), of memory sha256 now later ctx vcl_name ra]
    by (simp add: task_serving_def priv_ok_def)
next
  case (init script tasks j code)
  then show ?case using task_serving_init[of "tasks j" code] by simp
next
  case (push script tasks j ctx arg)
  then show ?case using task_serving_push[of "tasks j" "ho_ws ho" ctx arg] by simp
next
  case (execute script tasks ctx j gcc tc ctx' script' s)
  then show ?case
    using vmod_execute_serves[OF assms(1-4) _ _ assms(4), of "tasks j" script memory sha256 ctx gcc tc] by simp
next
  case (free_result script tasks j)
  then show ?case using task_serving_get[of "tasks j" True] by (simp add: vmod_script_free_result_def)
next
  case (reload script tasks os now later ctx force_backup result ctx' script' os')
  then show ?case
    using script_check_serves[OF assms(1-4) _ reload(2), of script memory sha256 now later ctx True force_backup]
    by (simp add: vmod_script_reload_def)
next
  case (inspect script tasks os now later ctx j ctx' script' s os')
  then show ?case
    using script_inspect_serves[OF assms(1-4) _ inspect(2), of script "tasks j" memory sha256 now later ctx] by simp
qed

text \<open>So whatever is called next, it returns.\<close>

lemma service_returns:
  assumes "laws" "live" "malloc_fresh malloc" "ws_faithful (ho_ws ho)"
    and "script_service (execute_script run gc memory create sha256 malloc) (ho_ws ho) kind script tasks"
  shows "returns (vmod_script_execute (execute_script run gc memory create sha256 malloc) (ho_ws ho) ctx script (tasks i) gcc tc)"
    and "os_curl_init os \<Longrightarrow> returns (vmod_script_reload (execute_script run gc memory create sha256 malloc) os now later ctx script force_backup)"
    and "os_curl_init os \<Longrightarrow> returns (vmod_script_inspect (execute_script run gc memory create sha256 malloc) os now later ctx script (tasks i))"
    and "vmod_script__fini (Some script) = Inr None"
proof -
  note ok = conjunct1[OF service_serving[OF assms]] conjunct2[OF service_serving[OF assms]]
  show "returns (vmod_script_execute (execute_script run gc memory create sha256 malloc) (ho_ws ho) ctx script (tasks i) gcc tc)"
    using vmod_execute_serves[OF assms(1-4) ok(2,1) assms(4)] unfolding returns_def by blast
  show "vmod_script__fini (Some script) = Inr None"
    using script_fini_returns[OF ok(1)] .
  assume curl: "os_curl_init os"
  show "returns (vmod_script_reload (execute_script run gc memory create sha256 malloc) os now later ctx script force_backup)"
    using script_check_serves[OF assms(1-4) ok(1) curl] unfolding vmod_script_reload_def returns_def by blast
  show "returns (vmod_script_inspect (execute_script run gc memory create sha256 malloc) os now later ctx script (tasks i))"
    using script_inspect_serves[OF assms(1-4) ok(1) curl ok(2)] unfolding returns_def by blast
qed

end

end
