(* ===== verification/Lua_Commands.thy ===== *)
theory Lua_Commands
  imports Script_Host
begin

text \<open>
  The commands a Lua script calls, the \<open>varnish_*_lua_command\<close> functions of \<open>script_lua.c\<close>, and what
  they use of the C API of Lua, which is not part of this repository: its functions are the fields
  of \<open>lua_api\<close>, an argument of every definition. The state \<open>lua_State\<close> is a type variable. What
  the documentation of Lua says of the stack is in \<open>lua_laws\<close>.
\<close>

section \<open>The API\<close>

datatype lua_type = LUA_TNIL | LUA_TBOOLEAN | LUA_TNUMBER | LUA_TSTRING | LUA_TTABLE | LUA_TFUNCTION
  | LUA_TUSERDATA | LUA_TTHREAD | LUA_TLIGHTUSERDATA

datatype lua_command = Lua_Log | Lua_Get_Header | Lua_Set_Header | Lua_Regmatch | Lua_Regsub bool
  | Lua_Shared_Get | Lua_Shared_Set | Lua_Shared_Unset | Lua_Shared_Eval

datatype lua_cfunction = Command lua_command | Library string

text \<open>
  Functions that may run a metamethod, and so raise an error, have type \<open>res\<close>: outside a protected
  call the error reaches the panic function, \<open>Inl Unprotected_Error\<close>. \<open>lua_pcall\<close> has the host as
  argument and result, since the code it runs calls the commands.
\<close>

record ('l, 'd, 'k) lua_api =
  luaL_newstate :: 'l
  lua_gettop :: "'l \<Rightarrow> int"
  lua_type_of :: "int \<Rightarrow> 'l \<Rightarrow> lua_type"
  lua_toboolean :: "int \<Rightarrow> 'l \<Rightarrow> bool"
  lua_tonumber :: "int \<Rightarrow> 'l \<Rightarrow> 'd"
  lua_tostring :: "int \<Rightarrow> 'l \<Rightarrow> string option \<times> 'l"
  lua_touserdata :: "int \<Rightarrow> 'l \<Rightarrow> host_ptr option"
  lua_pop :: "nat \<Rightarrow> 'l \<Rightarrow> 'l"
  lua_pushnil :: "'l \<Rightarrow> 'l"
  lua_pushboolean :: "bool \<Rightarrow> 'l \<Rightarrow> 'l"
  lua_pushnumber :: "int \<Rightarrow> 'l \<Rightarrow> 'l"
  lua_pushstring :: "string option \<Rightarrow> 'l \<Rightarrow> 'l"
  lua_pushcfunction :: "lua_cfunction \<Rightarrow> 'l \<Rightarrow> 'l"
  lua_newtable :: "'l \<Rightarrow> 'l"
  lua_newuserdata :: "host_ptr \<Rightarrow> 'l \<Rightarrow> 'l"
  lua_getglobal :: "string \<Rightarrow> 'l \<Rightarrow> 'l res"
  lua_setglobal :: "string \<Rightarrow> 'l \<Rightarrow> 'l res"
  lua_getfield :: "int \<Rightarrow> string \<Rightarrow> 'l \<Rightarrow> 'l res"
  lua_setfield :: "int \<Rightarrow> string \<Rightarrow> 'l \<Rightarrow> 'l res"
  lua_gettable :: "int \<Rightarrow> 'l \<Rightarrow> 'l res"
  lua_rawseti :: "int \<Rightarrow> int \<Rightarrow> 'l \<Rightarrow> 'l"
  luaL_loadbuffer :: "string \<Rightarrow> string \<Rightarrow> 'l \<Rightarrow> bool \<times> 'l"
  lua_version_num :: nat
  luaL_requiref :: "string \<Rightarrow> lua_cfunction \<Rightarrow> 'l \<Rightarrow> 'l res"
  lua_call :: "nat \<Rightarrow> nat \<Rightarrow> 'l \<Rightarrow> 'l res"
  lua_pcall :: "nat \<Rightarrow> nat \<Rightarrow> int \<Rightarrow> 'l \<Rightarrow> 'k \<Rightarrow> (bool \<times> 'l \<times> 'k) res"
  lua_gc_count :: "'l \<Rightarrow> 32 word"
  lua_gc_collect :: "'l \<Rightarrow> 'l"
  lua_gc_step :: "uint32 \<Rightarrow> 'l \<Rightarrow> 'l"

type_synonym ('l, 'd, 'w, 'h, 're) lua = "('l, 'd, ('w, 'h, 're) host) lua_api"

section \<open>Reading the varnish table\<close>

text \<open>\<open>GET_VARNISH_TABLE_FOO_FIELD\<close>.\<close>

definition get_varnish_field :: "('l, 'd, 'k) lua_api \<Rightarrow> string \<Rightarrow> host_ptr \<Rightarrow> 'l \<Rightarrow> 'l res" where
  "get_varnish_field api field ptr L =
     res_bind (lua_getglobal api ''varnish'' L) (\<lambda>L1.
     must (lua_type_of api (-1) L1 = LUA_TTABLE)
    (res_bind (lua_getfield api (-1) field L1) (\<lambda>L2.
     must (lua_type_of api (-1) L2 = LUA_TUSERDATA)
    (must (lua_touserdata api (-1) L2 = Some ptr) (Inr (lua_pop api 2 L2))))))"

text \<open>\<open>GET_VARNISH_SHARED_TABLE_IS_LOCKED_FIELD\<close> and \<open>SET_VARNISH_SHARED_TABLE_IS_LOCKED_FIELD\<close>.\<close>

definition get_is_locked :: "('l, 'd, 'k) lua_api \<Rightarrow> 'l \<Rightarrow> (bool \<times> 'l) res" where
  "get_is_locked api L =
     res_bind (lua_getglobal api ''varnish'' L) (\<lambda>L1.
     must (lua_type_of api (-1) L1 = LUA_TTABLE)
    (res_bind (lua_getfield api (-1) ''shared'' L1) (\<lambda>L2.
     must (lua_type_of api (-1) L2 = LUA_TTABLE)
    (res_bind (lua_getfield api (-1) ''_is_locked'' L2) (\<lambda>L3.
     must (lua_type_of api (-1) L3 = LUA_TBOOLEAN)
       (Inr (lua_toboolean api (-1) L3, lua_pop api 3 L3)))))))"

definition set_is_locked :: "('l, 'd, 'k) lua_api \<Rightarrow> bool \<Rightarrow> 'l \<Rightarrow> 'l res" where
  "set_is_locked api b L =
     res_bind (lua_getglobal api ''varnish'' L) (\<lambda>L1.
     must (lua_type_of api (-1) L1 = LUA_TTABLE)
    (res_bind (lua_getfield api (-1) ''shared'' L1) (\<lambda>L2.
     must (lua_type_of api (-1) L2 = LUA_TTABLE)
    (res_bind (lua_setfield api (-2) ''_is_locked'' (lua_pushboolean api b L2)) (\<lambda>L3.
       Inr (lua_pop api 2 L3))))))"

section \<open>The commands\<close>

text \<open>A command returns so many values, on top of the stack, or raises the value on top of it.\<close>

datatype command_end = Returned nat | Raised

type_synonym ('l, 'w, 'h, 're) command_result = "(command_end \<times> 'l \<times> ('w, 'h, 're) host) res"

text \<open>\<open>lua_pushstring(L, message); lua_error(L);\<close>\<close>

definition lua_raise :: "('l, 'd, 'w, 'h, 're) lua \<Rightarrow> string \<Rightarrow> 'l \<Rightarrow> ('w, 'h, 're) host \<Rightarrow> ('l, 'w, 'h, 're) command_result" where
  "lua_raise api message L k = Inr (Raised, lua_pushstring api (Some message) L, k)"

text \<open>An optional argument: NULL when it is not there.\<close>

definition optional_arg :: "('l, 'd, 'k) lua_api \<Rightarrow> bool \<Rightarrow> int \<Rightarrow> 'l \<Rightarrow> string option \<times> 'l" where
  "optional_arg api there i L = (if there then lua_tostring api i L else (None, L))"

definition varnish_log_lua_command :: "('l, 'd, 'w, 'h, 're) lua \<Rightarrow> 'l \<Rightarrow> ('w, 'h, 're) host \<Rightarrow> ('l, 'w, 'h, 're) command_result" where
  "varnish_log_lua_command api L k =
     (let argc = lua_gettop api L in
      if argc \<noteq> 1 then lua_raise api ''varnish.log() requires one argument.'' L k
      else (case lua_tostring api (-1) L of (message, L1) \<Rightarrow>
        (case message of
           None \<Rightarrow> Inr (Returned 0, L1, k)
         | Some m \<Rightarrow> res_bind (get_varnish_field api ''_ctx'' Ptr_Ctx L1) (\<lambda>L2. Inr (Returned 0, L2, k)))))"

definition varnish_get_header_lua_command ::
  "('l, 'd, 'w, 'h, 're) lua \<Rightarrow> ('w, 'h, 're) host_ops \<Rightarrow> 'l \<Rightarrow> ('w, 'h, 're) host \<Rightarrow> ('l, 'w, 'h, 're) command_result" where
  "varnish_get_header_lua_command api ho L k =
     (let argc = lua_gettop api L in
      if argc < 1 then lua_raise api ''varnish.get_header() requires one argument.'' L k
      else
        (case lua_tostring api (-1 * argc) L of (name, L1) \<Rightarrow>
         case optional_arg api (argc \<ge> 2) (-1 * argc + 1) L1 of (where_name, L2) \<Rightarrow>
         let where_name = (case where_name of None \<Rightarrow> ''req'' | Some w \<Rightarrow> w) in
         case nonempty name of
           None \<Rightarrow> Inr (Returned 1, lua_pushstring api None L2, k)
         | Some n \<Rightarrow>
             res_bind (get_varnish_field api ''_ctx'' Ptr_Ctx L2) (\<lambda>L3.
             res_bind (varnish_get_header_command (ho_hdr ho) (ho_ws ho) (h_ctx k) n where_name)
               (\<lambda>(result, error, ctx). case error of
                  Some e \<Rightarrow> lua_raise api e L3 (k\<lparr>h_ctx := ctx\<rparr>)
                | None \<Rightarrow> Inr (Returned 1, lua_pushstring api result L3, k\<lparr>h_ctx := ctx\<rparr>)))))"

definition varnish_set_header_lua_command ::
  "('l, 'd, 'w, 'h, 're) lua \<Rightarrow> ('w, 'h, 're) host_ops \<Rightarrow> 'l \<Rightarrow> ('w, 'h, 're) host \<Rightarrow> ('l, 'w, 'h, 're) command_result" where
  "varnish_set_header_lua_command api ho L k =
     (let argc = lua_gettop api L in
      if argc < 2 then lua_raise api ''varnish.set_header() requires two arguments.'' L k
      else
        (case lua_tostring api (-1 * argc) L of (name, L1) \<Rightarrow>
         case lua_tostring api (-1 * argc + 1) L1 of (val, L2) \<Rightarrow>
         case optional_arg api (argc \<ge> 3) (-1 * argc + 2) L2 of (where_name, L3) \<Rightarrow>
         let where_name = (case where_name of None \<Rightarrow> ''req'' | Some w \<Rightarrow> w) in
         case (nonempty name, nonempty val) of
           (Some n, Some v) \<Rightarrow>
             res_bind (get_varnish_field api ''_ctx'' Ptr_Ctx L3) (\<lambda>L4.
             res_bind (varnish_set_header_command (ho_hdr ho) (ho_ws ho) (h_ctx k) n v where_name)
               (\<lambda>(error, ctx). case error of
                  Some e \<Rightarrow> lua_raise api e L4 (k\<lparr>h_ctx := ctx\<rparr>)
                | None \<Rightarrow> Inr (Returned 0, L4, k\<lparr>h_ctx := ctx\<rparr>)))
         | _ \<Rightarrow> Inr (Returned 0, L3, k)))"

definition varnish_regmatch_lua_command ::
  "('l, 'd, 'w, 'h, 're) lua \<Rightarrow> ('w, 'h, 're) host_ops \<Rightarrow> 'l \<Rightarrow> ('w, 'h, 're) host \<Rightarrow> ('l, 'w, 'h, 're) command_result" where
  "varnish_regmatch_lua_command api ho L k =
     (let argc = lua_gettop api L in
      if argc < 2 then lua_raise api ''varnish.regmatch() requires two arguments.'' L k
      else
        (case lua_tostring api (-1 * argc) L of (string, L1) \<Rightarrow>
         case lua_tostring api (-1 * argc + 1) L1 of (regexp, L2) \<Rightarrow>
         let cache = (if argc \<ge> 3 then lua_toboolean api (-1 * argc + 2) L2 else True) in
         case (string, regexp) of
           (Some s, Some r) \<Rightarrow>
             res_bind (get_varnish_field api ''_ctx'' Ptr_Ctx L2) (\<lambda>L3.
             res_bind (get_varnish_field api ''_script'' Ptr_Script L3) (\<lambda>L4.
             res_bind (varnish_regmatch_command (ho_vre ho) (ho_ws ho) (h_ctx k) (h_regexps k) (h_regexps k) s r cache)
               (\<lambda>(result, error, ctx, regexps). case error of
                  Some e \<Rightarrow> lua_raise api e L4 (k\<lparr>h_ctx := ctx, h_regexps := regexps\<rparr>)
                | None \<Rightarrow> Inr (Returned 1, lua_pushboolean api result L4, k\<lparr>h_ctx := ctx, h_regexps := regexps\<rparr>))))
         | _ \<Rightarrow> Inr (Returned 1, lua_pushboolean api False L2, k)))"

definition varnish_regsub_lua_command ::
  "('l, 'd, 'w, 'h, 're) lua \<Rightarrow> ('w, 'h, 're) host_ops \<Rightarrow> bool \<Rightarrow> 'l \<Rightarrow> ('w, 'h, 're) host \<Rightarrow> ('l, 'w, 'h, 're) command_result" where
  "varnish_regsub_lua_command api ho all L k =
     (let argc = lua_gettop api L in
      if argc < 3 then lua_raise api ''varnish.regsub() & varnish.regsuball() require three arguments.'' L k
      else
        (case lua_tostring api (-1 * argc) L of (string, L1) \<Rightarrow>
         case lua_tostring api (-1 * argc + 1) L1 of (regexp, L2) \<Rightarrow>
         case lua_tostring api (-1 * argc + 2) L2 of (sub, L3) \<Rightarrow>
         let cache = (if argc \<ge> 4 then lua_toboolean api (-1 * argc + 3) L3 else True) in
         case (string, regexp, sub) of
           (Some s, Some r, Some u) \<Rightarrow>
             res_bind (get_varnish_field api ''_ctx'' Ptr_Ctx L3) (\<lambda>L4.
             res_bind (get_varnish_field api ''_script'' Ptr_Script L4) (\<lambda>L5.
             res_bind (varnish_regsub_command (ho_vre ho) (ho_ws ho) (h_ctx k) (h_regexps k) (h_regexps k) s r u cache all)
               (\<lambda>(result, error, ctx, regexps). case error of
                  Some e \<Rightarrow> lua_raise api e L5 (k\<lparr>h_ctx := ctx, h_regexps := regexps\<rparr>)
                | None \<Rightarrow> Inr (Returned 1, lua_pushstring api result L5, k\<lparr>h_ctx := ctx, h_regexps := regexps\<rparr>))))
         | _ \<Rightarrow> Inr (Returned 1, lua_pushstring api None L3, k)))"

text \<open>\<open>_is_locked\<close>, \<open>_ctx\<close>, \<open>_script\<close> and \<open>_state\<close>, in the order the shared commands read them.\<close>

definition get_shared_fields :: "('l, 'd, 'k) lua_api \<Rightarrow> 'l \<Rightarrow> 'l res" where
  "get_shared_fields api L =
     res_bind (get_is_locked api L) (\<lambda>(is_locked, L1).
     res_bind (get_varnish_field api ''_ctx'' Ptr_Ctx L1) (\<lambda>L2.
     res_bind (get_varnish_field api ''_script'' Ptr_Script L2) (\<lambda>L3.
     get_varnish_field api ''_state'' Ptr_State L3)))"

definition varnish_shared_get_lua_command ::
  "('l, 'd, 'w, 'h, 're) lua \<Rightarrow> ('w, 'h, 're) host_ops \<Rightarrow> 'l \<Rightarrow> ('w, 'h, 're) host \<Rightarrow> ('l, 'w, 'h, 're) command_result" where
  "varnish_shared_get_lua_command api ho L k =
     (let argc = lua_gettop api L in
      if argc < 1 then lua_raise api ''varnish.shared.get() requires one argument.'' L k
      else
        (case lua_tostring api (-1 * argc) L of (key, L1) \<Rightarrow>
         case optional_arg api (argc \<ge> 2) (-1 * argc + 1) L1 of (scope, L2) \<Rightarrow>
         let scope = (case scope of None \<Rightarrow> ''all'' | Some s \<Rightarrow> s) in
         case nonempty key of
           None \<Rightarrow> Inr (Returned 1, lua_pushstring api None L2, k)
         | Some x \<Rightarrow> res_bind (get_shared_fields api L2) (\<lambda>L3.
             case varnish_shared_get_command (ho_ws ho) (h_ctx k) (h_shared k) x scope of (result, ctx) \<Rightarrow>
               Inr (Returned 1, lua_pushstring api result L3, k\<lparr>h_ctx := ctx\<rparr>))))"

definition varnish_shared_set_lua_command ::
  "('l, 'd, 'w, 'h, 're) lua \<Rightarrow> ('w, 'h, 're) host_ops \<Rightarrow> 'l \<Rightarrow> ('w, 'h, 're) host \<Rightarrow> ('l, 'w, 'h, 're) command_result" where
  "varnish_shared_set_lua_command api ho L k =
     (let argc = lua_gettop api L in
      if argc < 2 then lua_raise api ''varnish.shared.set() requires two arguments.'' L k
      else
        (case lua_tostring api (-1 * argc) L of (key, L1) \<Rightarrow>
         case lua_tostring api (-1 * argc + 1) L1 of (val, L2) \<Rightarrow>
         case optional_arg api (argc \<ge> 3) (-1 * argc + 2) L2 of (scope, L3) \<Rightarrow>
         let scope = (case scope of None \<Rightarrow> ''task'' | Some s \<Rightarrow> s) in
         case (nonempty key, val) of
           (Some x, Some v) \<Rightarrow> res_bind (get_shared_fields api L3) (\<lambda>L4.
             res_bind (varnish_shared_set_command (ho_ws ho) (h_ctx k) (h_shared k) x v scope) (\<lambda>(ctx, sh).
               Inr (Returned 0, L4, k\<lparr>h_ctx := ctx, h_shared := sh\<rparr>)))
         | _ \<Rightarrow> Inr (Returned 0, L3, k)))"

definition varnish_shared_unset_lua_command ::
  "('l, 'd, 'w, 'h, 're) lua \<Rightarrow> 'l \<Rightarrow> ('w, 'h, 're) host \<Rightarrow> ('l, 'w, 'h, 're) command_result" where
  "varnish_shared_unset_lua_command api L k =
     (let argc = lua_gettop api L in
      if argc < 1 then lua_raise api ''varnish.shared.unset() requires one argument.'' L k
      else
        (case lua_tostring api (-1 * argc) L of (key, L1) \<Rightarrow>
         case optional_arg api (argc \<ge> 2) (-1 * argc + 1) L1 of (scope, L2) \<Rightarrow>
         let scope = (case scope of None \<Rightarrow> ''all'' | Some s \<Rightarrow> s) in
         case nonempty key of
           None \<Rightarrow> Inr (Returned 0, L2, k)
         | Some x \<Rightarrow> res_bind (get_shared_fields api L2) (\<lambda>L3.
             res_bind (varnish_shared_unset_command (h_shared k) x scope) (\<lambda>sh.
               Inr (Returned 0, L3, k\<lparr>h_shared := sh\<rparr>)))))"

text \<open>The read-write lock itself is not modelled, only the flag that says who holds it.\<close>

definition varnish_shared_eval_lua_command ::
  "('l, 'd, 'w, 'h, 're) lua \<Rightarrow> 'l \<Rightarrow> ('w, 'h, 're) host \<Rightarrow> ('l, 'w, 'h, 're) command_result" where
  "varnish_shared_eval_lua_command api L k =
     (let argc = lua_gettop api L in
      if argc \<noteq> 1 then lua_raise api ''varnish.shared.eval() requires one argument.'' L k
      else if lua_type_of api (-1) L \<noteq> LUA_TFUNCTION
      then lua_raise api ''varnish.shared.eval() requires a function argument.'' L k
      else
        res_bind (get_is_locked api L) (\<lambda>(is_locked, L1).
        res_bind (get_varnish_field api ''_script'' Ptr_Script L1) (\<lambda>L2.
        res_bind (if \<not> is_locked then set_is_locked api True L2 else Inr L2) (\<lambda>L3.
        res_bind (lua_pcall api 0 1 0 L3 k) (\<lambda>(success, L4, k').
        res_bind (if \<not> is_locked then set_is_locked api False L4 else Inr L4) (\<lambda>L5.
          Inr (if success then Returned 1 else Raised, L5, k')))))))"

fun run_lua_command ::
  "('l, 'd, 'w, 'h, 're) lua \<Rightarrow> ('w, 'h, 're) host_ops \<Rightarrow> lua_command \<Rightarrow> 'l \<Rightarrow> ('w, 'h, 're) host
    \<Rightarrow> ('l, 'w, 'h, 're) command_result" where
  "run_lua_command api ho Lua_Log L k = varnish_log_lua_command api L k"
| "run_lua_command api ho Lua_Get_Header L k = varnish_get_header_lua_command api ho L k"
| "run_lua_command api ho Lua_Set_Header L k = varnish_set_header_lua_command api ho L k"
| "run_lua_command api ho Lua_Regmatch L k = varnish_regmatch_lua_command api ho L k"
| "run_lua_command api ho (Lua_Regsub all) L k = varnish_regsub_lua_command api ho all L k"
| "run_lua_command api ho Lua_Shared_Get L k = varnish_shared_get_lua_command api ho L k"
| "run_lua_command api ho Lua_Shared_Set L k = varnish_shared_set_lua_command api ho L k"
| "run_lua_command api ho Lua_Shared_Unset L k = varnish_shared_unset_lua_command api L k"
| "run_lua_command api ho Lua_Shared_Eval L k = varnish_shared_eval_lua_command api L k"

section \<open>The documented behaviour of the API\<close>

text \<open>
  What C code can see of a value, and the view \<open>stk\<close> of the stack of a state, top first. A function
  that may raise an error does what is said here when it returns.
\<close>

datatype 'd lua_value = Lua_Nil | Lua_Boolean bool | Lua_Number 'd | Lua_String string | Lua_Table
  | Lua_Function | Lua_Userdata "host_ptr option" | Lua_Thread | Lua_Lightuserdata

fun value_type :: "'d lua_value \<Rightarrow> lua_type" where
  "value_type Lua_Nil = LUA_TNIL"
| "value_type (Lua_Boolean b) = LUA_TBOOLEAN"
| "value_type (Lua_Number d) = LUA_TNUMBER"
| "value_type (Lua_String s) = LUA_TSTRING"
| "value_type Lua_Table = LUA_TTABLE"
| "value_type Lua_Function = LUA_TFUNCTION"
| "value_type (Lua_Userdata p) = LUA_TUSERDATA"
| "value_type Lua_Thread = LUA_TTHREAD"
| "value_type Lua_Lightuserdata = LUA_TLIGHTUSERDATA"

definition opt_string :: "string option \<Rightarrow> 'd lua_value" where
  "opt_string s = (case s of None \<Rightarrow> Lua_Nil | Some t \<Rightarrow> Lua_String t)"

definition reads_stack :: "('l, 'd, 'k) lua_api \<Rightarrow> ('l \<Rightarrow> 'd lua_value list) \<Rightarrow> bool" where
  "reads_stack api stk \<longleftrightarrow>
     (\<forall>L. lua_gettop api L = int (length (stk L)))
     \<and> (\<forall>L i. i < length (stk L) \<longrightarrow>
         lua_type_of api (-1 - int i) L = value_type (stk L ! i)
         \<and> (lua_toboolean api (-1 - int i) L \<longleftrightarrow> stk L ! i \<noteq> Lua_Nil \<and> stk L ! i \<noteq> Lua_Boolean False)
         \<and> (\<forall>d. stk L ! i = Lua_Number d \<longrightarrow> lua_tonumber api (-1 - int i) L = d)
         \<and> (\<forall>p. stk L ! i = Lua_Userdata p \<longrightarrow> lua_touserdata api (-1 - int i) L = p)
         \<and> (case stk L ! i of
              Lua_String s \<Rightarrow> \<exists>L'. lua_tostring api (-1 - int i) L = (Some s, L') \<and> stk L' = stk L
            | Lua_Number d \<Rightarrow> \<exists>s L'. lua_tostring api (-1 - int i) L = (Some s, L') \<and> stk L' = (stk L)[i := Lua_String s]
            | _ \<Rightarrow> \<exists>L'. lua_tostring api (-1 - int i) L = (None, L') \<and> stk L' = stk L))"

definition pushes_stack :: "('l, 'd, 'k) lua_api \<Rightarrow> ('l \<Rightarrow> 'd lua_value list) \<Rightarrow> bool" where
  "pushes_stack api stk \<longleftrightarrow>
     stk (luaL_newstate api) = []
     \<and> (\<forall>L n. n \<le> length (stk L) \<longrightarrow> stk (lua_pop api n L) = drop n (stk L))
     \<and> (\<forall>L. stk (lua_pushnil api L) = Lua_Nil # stk L)
     \<and> (\<forall>L b. stk (lua_pushboolean api b L) = Lua_Boolean b # stk L)
     \<and> (\<forall>L n. \<exists>d. stk (lua_pushnumber api n L) = Lua_Number d # stk L)
     \<and> (\<forall>L s. stk (lua_pushstring api s L) = opt_string s # stk L)
     \<and> (\<forall>L f. stk (lua_pushcfunction api f L) = Lua_Function # stk L)
     \<and> (\<forall>L. stk (lua_newtable api L) = Lua_Table # stk L)
     \<and> (\<forall>L p. stk (lua_newuserdata api p L) = Lua_Userdata (Some p) # stk L)
     \<and> (\<forall>L. stk (lua_gc_collect api L) = stk L)
     \<and> (\<forall>L n. stk (lua_gc_step api n L) = stk L)"

definition table_stack :: "('l, 'd, 'k) lua_api \<Rightarrow> ('l \<Rightarrow> 'd lua_value list) \<Rightarrow> bool" where
  "table_stack api stk \<longleftrightarrow>
     (\<forall>n L L'. lua_getglobal api n L = Inr L' \<longrightarrow> (\<exists>v. stk L' = v # stk L))
     \<and> (\<forall>n L L'. lua_setglobal api n L = Inr L' \<longrightarrow> stk L' = tl (stk L))
     \<and> (\<forall>i n L L'. lua_getfield api i n L = Inr L' \<longrightarrow> (\<exists>v. stk L' = v # stk L))
     \<and> (\<forall>i n L L'. lua_setfield api i n L = Inr L' \<longrightarrow> stk L' = tl (stk L))
     \<and> (\<forall>i n L. i < length (stk L) \<longrightarrow> stk L ! i = Lua_Function \<longrightarrow>
         lua_setfield api (-1 - int i) n L = Inl Unprotected_Error)
     \<and> (\<forall>i L L'. lua_gettable api i L = Inr L' \<longrightarrow> (\<exists>v. stk L' = v # tl (stk L)))
     \<and> (\<forall>i n L. stk (lua_rawseti api i n L) = tl (stk L))
     \<and> (\<forall>n f L L'. luaL_requiref api n f L = Inr L' \<longrightarrow> (\<exists>v. stk L' = v # stk L))
     \<and> (\<forall>n L L'. lua_call api n 0 L = Inr L' \<longrightarrow> stk L' = drop (n + 1) (stk L))"

text \<open>
  A protected call without arguments takes the function off the stack and leaves its results, or
  the error. The code it runs reaches the host through the commands only.
\<close>

definition runs_code :: "('w, 'h, 're) host_ops \<Rightarrow> ('l, 'd, 'w, 'h, 're) lua \<Rightarrow> ('l \<Rightarrow> 'd lua_value list) \<Rightarrow> bool" where
  "runs_code ho api stk \<longleftrightarrow>
     (\<forall>s n L ok L'. luaL_loadbuffer api s n L = (ok, L') \<longrightarrow>
         (\<exists>v. stk L' = v # stk L \<and> (ok \<longrightarrow> v = Lua_Function)))
     \<and> (\<forall>n e L k ok L' k'. lua_pcall api 0 n e L k = Inr (ok, L', k') \<longrightarrow>
         (if ok then \<exists>vs. length vs = n \<and> stk L' = vs @ tl (stk L) else \<exists>v. stk L' = v # tl (stk L))
         \<and> (host_step ho)\<^sup>*\<^sup>* k k')"

definition lua_laws :: "('w, 'h, 're) host_ops \<Rightarrow> ('l, 'd, 'w, 'h, 're) lua \<Rightarrow> ('l \<Rightarrow> 'd lua_value list) \<Rightarrow> bool" where
  "lua_laws ho api stk \<longleftrightarrow> reads_stack api stk \<and> pushes_stack api stk \<and> table_stack api stk \<and> runs_code ho api stk"

section \<open>What follows of the stack\<close>

lemma value_type_iff [simp]:
  "value_type v = LUA_TNIL \<longleftrightarrow> v = Lua_Nil"
  "value_type v = LUA_TTABLE \<longleftrightarrow> v = Lua_Table"
  "value_type v = LUA_TFUNCTION \<longleftrightarrow> v = Lua_Function"
  "value_type v = LUA_TSTRING \<longleftrightarrow> (\<exists>s. v = Lua_String s)"
  by (cases v; simp)+

lemma lua_laws_parts:
  assumes "lua_laws ho api stk"
  shows "reads_stack api stk" "pushes_stack api stk" "table_stack api stk" "runs_code ho api stk"
  using assms by (simp_all add: lua_laws_def)

lemma stack_reads:
  assumes "lua_laws ho api stk"
  shows "lua_gettop api L = int (length (stk L))"
    and "stk L = v # vs \<Longrightarrow> lua_type_of api (-1) L = value_type v"
proof -
  note laws = lua_laws_parts(1)[OF assms, unfolded reads_stack_def]
  show "lua_gettop api L = int (length (stk L))" using laws by blast
  assume top: "stk L = v # vs"
  have "0 < length (stk L) \<longrightarrow> lua_type_of api (-1 - int 0) L = value_type (stk L ! 0)"
    using laws by blast
  then show "lua_type_of api (-1) L = value_type v" using top by simp
qed

lemma stack_tostring:
  assumes "lua_laws ho api stk" "i < length (stk L)"
  shows "\<exists>s L'. lua_tostring api (-1 - int i) L = (s, L') \<and> (case stk L ! i of
      Lua_String t \<Rightarrow> s = Some t \<and> stk L' = stk L
    | Lua_Number d \<Rightarrow> (\<exists>t. s = Some t \<and> stk L' = (stk L)[i := Lua_String t])
    | _ \<Rightarrow> s = None \<and> stk L' = stk L)"
proof -
  have "case stk L ! i of
      Lua_String s \<Rightarrow> \<exists>L'. lua_tostring api (-1 - int i) L = (Some s, L') \<and> stk L' = stk L
    | Lua_Number d \<Rightarrow> \<exists>s L'. lua_tostring api (-1 - int i) L = (Some s, L') \<and> stk L' = (stk L)[i := Lua_String s]
    | _ \<Rightarrow> \<exists>L'. lua_tostring api (-1 - int i) L = (None, L') \<and> stk L' = stk L"
    using lua_laws_parts(1)[OF assms(1)] assms(2) unfolding reads_stack_def by blast
  then show ?thesis by (cases "stk L ! i") auto
qed

lemma stack_tostring_top:
  assumes "lua_laws ho api stk" "stk L = v # vs"
  shows "\<exists>w. stk (snd (lua_tostring api (-1) L)) = w # vs"
proof -
  obtain s L' where "lua_tostring api (-1) L = (s, L')" "case v of
      Lua_String t \<Rightarrow> s = Some t \<and> stk L' = stk L
    | Lua_Number d \<Rightarrow> (\<exists>t. s = Some t \<and> stk L' = (stk L)[0 := Lua_String t])
    | _ \<Rightarrow> s = None \<and> stk L' = stk L"
    using stack_tostring[OF assms(1), of 0 L] assms(2) by auto
  then show ?thesis using assms(2) by (cases v) auto
qed

lemma stack_pushes:
  assumes "lua_laws ho api stk"
  shows "stk (luaL_newstate api) = []"
    and "n \<le> length (stk L) \<Longrightarrow> stk (lua_pop api n L) = drop n (stk L)"
    and "stk (lua_pushnil api L) = Lua_Nil # stk L"
    and "stk (lua_pushboolean api b L) = Lua_Boolean b # stk L"
    and "tl (stk (lua_pushnumber api m L)) = stk L"
    and "stk (lua_pushstring api s L) = opt_string s # stk L"
    and "stk (lua_pushcfunction api f L) = Lua_Function # stk L"
    and "stk (lua_newtable api L) = Lua_Table # stk L"
    and "stk (lua_newuserdata api p L) = Lua_Userdata (Some p) # stk L"
    and "stk (lua_gc_collect api L) = stk L"
    and "stk (lua_gc_step api g L) = stk L"
proof -
  note laws = lua_laws_parts(2)[OF assms]
  then obtain d where "stk (lua_pushnumber api m L) = Lua_Number d # stk L"
    unfolding pushes_stack_def by blast
  then show "tl (stk (lua_pushnumber api m L)) = stk L" by simp
qed (use lua_laws_parts(2)[OF assms] in \<open>simp_all add: pushes_stack_def\<close>)

lemma stack_tables:
  assumes "lua_laws ho api stk"
  shows "lua_getglobal api n L = Inr L' \<Longrightarrow> \<exists>v. stk L' = v # stk L"
    and "lua_setglobal api n L = Inr L' \<Longrightarrow> stk L' = tl (stk L)"
    and "lua_getfield api i n L = Inr L' \<Longrightarrow> \<exists>v. stk L' = v # stk L"
    and "lua_setfield api i n L = Inr L' \<Longrightarrow> stk L' = tl (stk L)"
    and "lua_gettable api i L = Inr L' \<Longrightarrow> \<exists>v. stk L' = v # tl (stk L)"
    and "stk (lua_rawseti api i j L) = tl (stk L)"
    and "luaL_requiref api n f L = Inr L' \<Longrightarrow> \<exists>v. stk L' = v # stk L"
    and "lua_call api c 0 L = Inr L' \<Longrightarrow> stk L' = drop (c + 1) (stk L)"
  using lua_laws_parts(3)[OF assms] by (simp_all add: table_stack_def)

lemma stack_setfield_function:
  assumes "lua_laws ho api stk" "stk L = v # Lua_Function # vs"
  shows "lua_setfield api (-2) n L = Inl Unprotected_Error"
proof -
  have "i < length (stk L) \<longrightarrow> stk L ! i = Lua_Function \<longrightarrow>
      lua_setfield api (-1 - int i) n L = Inl Unprotected_Error" for i
    using lua_laws_parts(3)[OF assms(1)] unfolding table_stack_def by blast
  from this[of 1] show ?thesis using assms(2) by simp
qed

lemma stack_code:
  assumes "lua_laws ho api stk"
  shows "luaL_loadbuffer api s n L = (ok, L') \<Longrightarrow> \<exists>v. stk L' = v # stk L"
    and "lua_pcall api 0 m e L k = Inr (ok, L', k') \<Longrightarrow>
      (if ok then \<exists>vs. length vs = m \<and> stk L' = vs @ tl (stk L) else \<exists>v. stk L' = v # tl (stk L))
      \<and> (host_step ho)\<^sup>*\<^sup>* k k'"
  using lua_laws_parts(4)[OF assms] unfolding runs_code_def by blast+

section \<open>The commands only use the host\<close>

text \<open>So what is said of protected calls holds again for code that calls a command.\<close>

lemma run_lua_command_steps:
  assumes "lua_laws ho api stk" "run_lua_command api ho c L k = Inr (r, L', k')"
  shows "(host_step ho)\<^sup>*\<^sup>* k k'"
proof (cases c)
  case Lua_Shared_Eval
  then show ?thesis
    using assms(2)
    by (auto simp: varnish_shared_eval_lua_command_def lua_raise_def res_bind_eq_Inr_iff Let_def
        split: if_splits dest: stack_code(2)[OF assms(1)])
next
  case Lua_Shared_Get
  then have "k' = k \<or> (\<exists>x scope. k' = k\<lparr>h_ctx := snd (varnish_shared_get_command (ho_ws ho) (h_ctx k) (h_shared k) x scope)\<rparr>)"
    using assms(2)
    by (auto simp: varnish_shared_get_lua_command_def lua_raise_def res_bind_eq_Inr_iff Let_def case_prod_unfold
        split: option.splits if_splits)
  then show ?thesis
    by (auto intro: host_step_star host_step.shared_get[OF prod.collapse[symmetric]])
qed (use assms(2) in \<open>auto simp: varnish_log_lua_command_def varnish_get_header_lua_command_def
    varnish_set_header_lua_command_def varnish_regmatch_lua_command_def varnish_regsub_lua_command_def
    varnish_shared_set_lua_command_def varnish_shared_unset_lua_command_def lua_raise_def res_bind_eq_Inr_iff Let_def
    split: prod.splits option.splits if_splits intro!: host_step_star intro: host_step.intros\<close>)

section \<open>Arguments of a command\<close>

lemma get_varnish_field_stack:
  assumes "lua_laws ho api stk" "get_varnish_field api field ptr L = Inr L'"
  shows "stk L' = stk L"
proof -
  obtain L1 L2 where steps: "lua_getglobal api ''varnish'' L = Inr L1" "lua_getfield api (-1) field L1 = Inr L2"
      "L' = lua_pop api 2 L2"
    using assms(2) by (auto simp: get_varnish_field_def res_bind_eq_Inr_iff must_eq_Inr_iff)
  then obtain v w where "stk L2 = w # v # stk L"
    using stack_tables(1,3)[OF assms(1)] by metis
  then show ?thesis using steps(3) by (simp add: stack_pushes(2)[OF assms(1)])
qed

lemma get_is_locked_stack:
  assumes "lua_laws ho api stk" "get_is_locked api L = Inr (b, L')"
  shows "stk L' = stk L"
proof -
  obtain L1 L2 L3 where steps: "lua_getglobal api ''varnish'' L = Inr L1" "lua_getfield api (-1) ''shared'' L1 = Inr L2"
      "lua_getfield api (-1) ''_is_locked'' L2 = Inr L3" "L' = lua_pop api 3 L3"
    using assms(2) by (auto simp: get_is_locked_def res_bind_eq_Inr_iff must_eq_Inr_iff)
  then obtain u v w where "stk L3 = w # v # u # stk L"
    using stack_tables(1,3)[OF assms(1)] by metis
  then show ?thesis using steps(4) by (simp add: stack_pushes(2)[OF assms(1)])
qed

lemma get_shared_fields_stack:
  assumes "lua_laws ho api stk" "get_shared_fields api L = Inr L'"
  shows "stk L' = stk L"
  using assms(2) get_is_locked_stack[OF assms(1)] get_varnish_field_stack[OF assms(1)]
  by (auto simp: get_shared_fields_def res_bind_eq_Inr_iff split: prod.splits)

text \<open>Argument \<open>j\<close> of a command called with strings.\<close>

lemma string_arg:
  assumes "lua_laws ho api stk" "stk L = rev (map Lua_String args)" "j < length args"
  shows "\<exists>L'. lua_tostring api (int j - int (length args)) L = (Some (args ! j), L') \<and> stk L' = stk L"
proof -
  define i where "i = length args - Suc j"
  have i: "-1 - int i = int j - int (length args)" "i < length (stk L)" "stk L ! i = Lua_String (args ! j)"
    using assms(2,3) by (simp_all add: i_def rev_nth)
  show ?thesis
    using stack_tostring[OF assms(1) i(2)] unfolding i(1,3) by auto
qed

lemma optional_string_arg:
  assumes "lua_laws ho api stk" "stk L = rev (map Lua_String args)"
  shows "\<exists>L'. optional_arg api (int (length args) > int j) (int j - int (length args)) L
      = (if j < length args then Some (args ! j) else None, L') \<and> stk L' = stk L"
  using string_arg[OF assms, of j] by (auto simp: optional_arg_def)

section \<open>The shared commands of a script\<close>

text \<open>What a call with so many strings means; None when it is ignored.\<close>

definition arg_or :: "string \<Rightarrow> string list \<Rightarrow> string" where
  "arg_or d rest = (case rest of [] \<Rightarrow> d | s # _ \<Rightarrow> s)"

fun shared_call :: "lua_command \<Rightarrow> string list \<Rightarrow> shared_command option" where
  "shared_call Lua_Shared_Get (x # rest) = (if x = [] then None else Some (Shared_Get x (arg_or ''all'' rest)))"
| "shared_call Lua_Shared_Set (x # v # rest) = (if x = [] then None else Some (Shared_Set x v (arg_or ''task'' rest)))"
| "shared_call Lua_Shared_Unset (x # rest) = (if x = [] then None else Some (Shared_Unset x (arg_or ''all'' rest)))"
| "shared_call c args = None"

definition least_args :: "lua_command \<Rightarrow> nat" where
  "least_args c = (if c = Lua_Shared_Set then 2 else 1)"

lemma shared_get_call:
  assumes "lua_laws ho api stk" "stk L = rev (map Lua_String (x # rest))" "x \<noteq> []"
    and "varnish_shared_get_lua_command api ho L k = Inr (r, L', k')"
  shows "\<exists>result ctx. varnish_shared_get_command (ho_ws ho) (h_ctx k) (h_shared k) x (arg_or ''all'' rest) = (result, ctx)
    \<and> r = Returned 1 \<and> stk L' = opt_string result # stk L \<and> k' = k\<lparr>h_ctx := ctx\<rparr>"
proof -
  let ?n = "int (length (x # rest))"
  have top: "lua_gettop api L = ?n"
    using stack_reads(1)[OF assms(1)] assms(2) by simp
  obtain L1 where L1: "lua_tostring api (- ?n) L = (Some x, L1)" "stk L1 = stk L"
    using string_arg[OF assms(1,2), of 0] by auto
  obtain L2 where L2: "optional_arg api (?n \<ge> 2) (- ?n + 1) L1 = (if rest = [] then None else Some (hd rest), L2)"
      "stk L2 = stk L"
    using optional_string_arg[OF assms(1), of L1 "x # rest" 1] L1(2) assms(2)
    by (cases rest) (auto simp: hd_conv_nth)
  have scope: "(case if rest = [] then None else Some (hd rest) of None \<Rightarrow> ''all'' | Some s \<Rightarrow> s) = arg_or ''all'' rest"
    by (cases rest) (simp_all add: arg_or_def)
  obtain result ctx where cmd: "varnish_shared_get_command (ho_ws ho) (h_ctx k) (h_shared k) x (arg_or ''all'' rest)
      = (result, ctx)" by fastforce
  have run: "varnish_shared_get_lua_command api ho L k = res_bind (get_shared_fields api L2) (\<lambda>L3.
        Inr (Returned 1, lua_pushstring api result L3, k\<lparr>h_ctx := ctx\<rparr>))"
    using top L1(1) L2(1) assms(3)
    by (simp add: varnish_shared_get_lua_command_def nonempty_def scope cmd del: of_nat_Suc length_Cons)
  obtain L3 where "get_shared_fields api L2 = Inr L3" "r = Returned 1" "L' = lua_pushstring api result L3"
      "k' = k\<lparr>h_ctx := ctx\<rparr>"
    using assms(4)[unfolded run] by (auto simp: res_bind_eq_Inr_iff)
  then show ?thesis
    using cmd get_shared_fields_stack[OF assms(1)] L2(2) stack_pushes(6)[OF assms(1)] by simp
qed

lemma shared_set_call:
  assumes "lua_laws ho api stk" "stk L = rev (map Lua_String (x # v # rest))" "x \<noteq> []"
    and "varnish_shared_set_lua_command api ho L k = Inr (r, L', k')"
  shows "\<exists>ctx sh. varnish_shared_set_command (ho_ws ho) (h_ctx k) (h_shared k) x v (arg_or ''task'' rest) = Inr (ctx, sh)
    \<and> r = Returned 0 \<and> stk L' = stk L \<and> k' = k\<lparr>h_ctx := ctx, h_shared := sh\<rparr>"
proof -
  let ?n = "int (length (x # v # rest))"
  have top: "lua_gettop api L = ?n"
    using stack_reads(1)[OF assms(1)] assms(2) by simp
  obtain L1 where L1: "lua_tostring api (- ?n) L = (Some x, L1)" "stk L1 = stk L"
    using string_arg[OF assms(1,2), of 0] by auto
  obtain L2 where L2: "lua_tostring api (- ?n + 1) L1 = (Some v, L2)" "stk L2 = stk L"
    using string_arg[OF assms(1), of L1 "x # v # rest" 1] L1(2) assms(2) by auto
  obtain L3 where L3: "optional_arg api (?n \<ge> 3) (- ?n + 2) L2 = (if rest = [] then None else Some (hd rest), L3)"
      "stk L3 = stk L"
    using optional_string_arg[OF assms(1), of L2 "x # v # rest" 2] L2(2) assms(2)
    by (cases rest) (auto simp: hd_conv_nth)
  have scope: "(case if rest = [] then None else Some (hd rest) of None \<Rightarrow> ''task'' | Some s \<Rightarrow> s) = arg_or ''task'' rest"
    by (cases rest) (simp_all add: arg_or_def)
  have run: "varnish_shared_set_lua_command api ho L k = res_bind (get_shared_fields api L3) (\<lambda>L4.
      res_bind (varnish_shared_set_command (ho_ws ho) (h_ctx k) (h_shared k) x v (arg_or ''task'' rest)) (\<lambda>(ctx, sh).
        Inr (Returned 0, L4, k\<lparr>h_ctx := ctx, h_shared := sh\<rparr>)))"
    using top L1(1) L2(1) L3(1) assms(3)
    by (simp add: varnish_shared_set_lua_command_def nonempty_def scope del: of_nat_Suc length_Cons)
  obtain ctx sh L4 where "get_shared_fields api L3 = Inr L4" "r = Returned 0" "L' = L4"
      "varnish_shared_set_command (ho_ws ho) (h_ctx k) (h_shared k) x v (arg_or ''task'' rest) = Inr (ctx, sh)"
      "k' = k\<lparr>h_ctx := ctx, h_shared := sh\<rparr>"
    using assms(4)[unfolded run] by (auto simp: res_bind_eq_Inr_iff)
  then show ?thesis
    using get_shared_fields_stack[OF assms(1)] L3(2) by simp
qed

lemma shared_unset_call:
  assumes "lua_laws ho api stk" "stk L = rev (map Lua_String (x # rest))" "x \<noteq> []"
    and "varnish_shared_unset_lua_command api L k = Inr (r, L', k')"
  shows "\<exists>sh. varnish_shared_unset_command (h_shared k) x (arg_or ''all'' rest) = Inr sh
    \<and> r = Returned 0 \<and> stk L' = stk L \<and> k' = k\<lparr>h_shared := sh\<rparr>"
proof -
  let ?n = "int (length (x # rest))"
  have top: "lua_gettop api L = ?n"
    using stack_reads(1)[OF assms(1)] assms(2) by simp
  obtain L1 where L1: "lua_tostring api (- ?n) L = (Some x, L1)" "stk L1 = stk L"
    using string_arg[OF assms(1,2), of 0] by auto
  obtain L2 where L2: "optional_arg api (?n \<ge> 2) (- ?n + 1) L1 = (if rest = [] then None else Some (hd rest), L2)"
      "stk L2 = stk L"
    using optional_string_arg[OF assms(1), of L1 "x # rest" 1] L1(2) assms(2)
    by (cases rest) (auto simp: hd_conv_nth)
  have scope: "(case if rest = [] then None else Some (hd rest) of None \<Rightarrow> ''all'' | Some s \<Rightarrow> s) = arg_or ''all'' rest"
    by (cases rest) (simp_all add: arg_or_def)
  have run: "varnish_shared_unset_lua_command api L k = res_bind (get_shared_fields api L2) (\<lambda>L3.
      res_bind (varnish_shared_unset_command (h_shared k) x (arg_or ''all'' rest)) (\<lambda>sh.
        Inr (Returned 0, L3, k\<lparr>h_shared := sh\<rparr>)))"
    using top L1(1) L2(1) assms(3)
    by (simp add: varnish_shared_unset_lua_command_def nonempty_def scope del: of_nat_Suc length_Cons)
  obtain sh L3 where "get_shared_fields api L2 = Inr L3" "r = Returned 0" "L' = L3"
      "varnish_shared_unset_command (h_shared k) x (arg_or ''all'' rest) = Inr sh" "k' = k\<lparr>h_shared := sh\<rparr>"
    using assms(4)[unfolded run] by (auto simp: res_bind_eq_Inr_iff)
  then show ?thesis
    using get_shared_fields_stack[OF assms(1)] L2(2) by simp
qed

lemma shared_call_ignored:
  assumes "lua_laws ho api stk" "stk L = rev (map Lua_String args)" "c \<in> {Lua_Shared_Get, Lua_Shared_Set, Lua_Shared_Unset}"
    and "run_lua_command api ho c L k = Inr (r, L', k')"
  shows "length args < least_args c \<Longrightarrow> r = Raised \<and> k' = k"
    and "\<not> length args < least_args c \<Longrightarrow> shared_call c args = None \<Longrightarrow> k' = k"
proof -
  have top: "lua_gettop api L = int (length args)"
    using stack_reads(1)[OF assms(1)] assms(2) by simp
  show "r = Raised \<and> k' = k" if "length args < least_args c"
    using that assms(3,4) top
    by (auto simp: least_args_def varnish_shared_get_lua_command_def varnish_shared_set_lua_command_def
        varnish_shared_unset_lua_command_def lua_raise_def)
  assume enough: "\<not> length args < least_args c" and none: "shared_call c args = None"
  then obtain rest where args: "args = [] # rest"
    using assms(3) by (cases args; cases "tl args") (auto simp: least_args_def split: if_splits)
  obtain L1 where "lua_tostring api (- int (length args)) L = (Some [], L1)"
    using string_arg[OF assms(1,2), of 0] args by auto
  then show "k' = k"
    using enough assms(3,4) top
    by (auto simp: least_args_def varnish_shared_get_lua_command_def varnish_shared_set_lua_command_def
        varnish_shared_unset_lua_command_def nonempty_def Let_def split: prod.splits)
qed

lemma shared_call_runs:
  assumes "lua_laws ho api stk" "stk L = rev (map Lua_String args)" "shared_call c args = Some call"
    and "run_lua_command api ho c L k = Inr (r, L', k')"
  shows "\<exists>result ctx sh. run_command (ho_ws ho) call (h_ctx k, h_shared k) = Inr (result, ctx, sh)
    \<and> k' = k\<lparr>h_ctx := ctx, h_shared := sh\<rparr>
    \<and> r = Returned (if c = Lua_Shared_Get then 1 else 0)
    \<and> stk L' = (if c = Lua_Shared_Get then [opt_string result] else []) @ stk L"
  using assms(3)
proof (cases "(c, args)" rule: shared_call.cases)
  case (1 x rest)
  then have call: "x \<noteq> []" "call = Shared_Get x (arg_or ''all'' rest)" and stk: "stk L = rev (map Lua_String (x # rest))"
    and run: "varnish_shared_get_lua_command api ho L k = Inr (r, L', k')"
    using assms(2,3,4) by (auto split: if_splits)
  obtain result ctx where "varnish_shared_get_command (ho_ws ho) (h_ctx k) (h_shared k) x (arg_or ''all'' rest) = (result, ctx)"
      "r = Returned 1" "stk L' = opt_string result # stk L" "k' = k\<lparr>h_ctx := ctx\<rparr>"
    using shared_get_call[OF assms(1) stk call(1) run] by blast
  then show ?thesis
    using 1 call(2) by (intro exI[of _ result] exI[of _ ctx] exI[of _ "h_shared k"]) simp
next
  case (2 x v rest)
  then have call: "x \<noteq> []" "call = Shared_Set x v (arg_or ''task'' rest)" and stk: "stk L = rev (map Lua_String (x # v # rest))"
    and run: "varnish_shared_set_lua_command api ho L k = Inr (r, L', k')"
    using assms(2,3,4) by (auto split: if_splits)
  obtain ctx sh where "varnish_shared_set_command (ho_ws ho) (h_ctx k) (h_shared k) x v (arg_or ''task'' rest) = Inr (ctx, sh)"
      "r = Returned 0" "stk L' = stk L" "k' = k\<lparr>h_ctx := ctx, h_shared := sh\<rparr>"
    using shared_set_call[OF assms(1) stk call(1) run] by blast
  then show ?thesis
    using 2 call(2) by (intro exI[of _ None] exI[of _ ctx] exI[of _ sh]) simp
next
  case (3 x rest)
  then have call: "x \<noteq> []" "call = Shared_Unset x (arg_or ''all'' rest)" and stk: "stk L = rev (map Lua_String (x # rest))"
    and run: "varnish_shared_unset_lua_command api L k = Inr (r, L', k')"
    using assms(2,3,4) by (auto split: if_splits)
  obtain sh where "varnish_shared_unset_command (h_shared k) x (arg_or ''all'' rest) = Inr sh"
      "r = Returned 0" "stk L' = stk L" "k' = k\<lparr>h_shared := sh\<rparr>"
    using shared_unset_call[OF assms(1) stk call(1) run] by blast
  then show ?thesis
    using 3 call(2) by (intro exI[of _ None] exI[of _ "h_ctx k"] exI[of _ sh]) simp
qed simp_all

text \<open>
  C36: The shared commands as a script calls them, with any number of strings. With too few they raise
  an error and change nothing, an empty key is ignored, the scope is \<open>all\<close> for \<open>get\<close> and \<open>unset\<close>
  and \<open>task\<close> for \<open>set\<close> when it is not given; and unless the workspace is exhausted the value on the
  stack and the variables are those of the two maps, with the trees and the counter well formed.
\<close>

theorem lua_shared_command_outcome:
  assumes "lua_laws ho api stk" "host_ok ho k" "ws_faithful (ho_ws ho)" "stk L = rev (map Lua_String args)"
    and "c \<in> {Lua_Shared_Get, Lua_Shared_Set, Lua_Shared_Unset}" "run_lua_command api ho c L k = Inr (r, L', k')"
  shows "host_ok ho k' \<and>
    (if length args < least_args c then r = Raised \<and> k' = k
     else case shared_call c args of
       None \<Rightarrow> k' = k
     | Some call \<Rightarrow> \<exists>result. r = Returned (if c = Lua_Shared_Get then 1 else 0)
         \<and> stk L' = (if c = Lua_Shared_Get then [opt_string result] else []) @ stk L
         \<and> (values_set (h_shared k) \<and> ctx_fails (h_ctx k') = ctx_fails (h_ctx k) \<longrightarrow>
              values_set (h_shared k')
              \<and> spec_command call (shared_maps (h_shared k)) = (result, shared_maps (h_shared k'))))"
proof -
  have ok: "host_ok ho k'"
    using host_steps_keep[OF run_lua_command_steps[OF assms(1,6)]] assms(2,3) by (simp add: host_keeps_def)
  show ?thesis
  proof (cases "shared_call c args")
    case None
    then show ?thesis
      using ok shared_call_ignored[OF assms(1,4,5,6)] by simp
  next
    case (Some call)
    then have enough: "\<not> length args < least_args c"
      by (cases "(c, args)" rule: shared_call.cases) (auto simp: least_args_def)
    have shared: "shared_ok (h_shared k)" using assms(2) by (simp add: host_ok_def)
    obtain result ctx sh where run: "run_command (ho_ws ho) call (h_ctx k, h_shared k) = Inr (result, ctx, sh)"
        "k' = k\<lparr>h_ctx := ctx, h_shared := sh\<rparr>" "r = Returned (if c = Lua_Shared_Get then 1 else 0)"
        "stk L' = (if c = Lua_Shared_Get then [opt_string result] else []) @ stk L"
      using shared_call_runs[OF assms(1,4) Some assms(6)] by blast
    then have "implements call (h_ctx k, h_shared k) (result, ctx, sh)"
      using run_command_implements[OF shared assms(3), of call "h_ctx k"] by auto
    then have "values_set (h_shared k) \<and> ctx_fails ctx = ctx_fails (h_ctx k) \<longrightarrow>
        values_set sh \<and> spec_command call (shared_maps (h_shared k)) = (result, shared_maps sh)"
      by (auto simp: implements_def)
    then show ?thesis
      unfolding if_not_P[OF enough] Some option.case
      using ok run by (intro conjI exI[of _ result]) simp_all
  qed
qed

section \<open>An instance\<close>

text \<open>
  A state that is a stack and a flag, for the witnesses: \<open>varnish\<close> is in place, every call returns
  \<open>answer\<close>, every item of a table is \<open>item\<close>, and functions are known after something was loaded.
\<close>

record list_state =
  ll_stack :: "int lua_value list"
  ll_known :: bool

definition ll_push :: "int lua_value \<Rightarrow> list_state \<Rightarrow> list_state" where
  "ll_push v L = L\<lparr>ll_stack := v # ll_stack L\<rparr>"

definition ll_drop :: "nat \<Rightarrow> list_state \<Rightarrow> list_state" where
  "ll_drop n L = L\<lparr>ll_stack := drop n (ll_stack L)\<rparr>"

definition ll_at :: "int \<Rightarrow> list_state \<Rightarrow> int lua_value" where
  "ll_at i L = ll_stack L ! nat (-1 - i)"

definition ll_field :: "string \<Rightarrow> int lua_value" where
  "ll_field n =
     (if n = ''_ctx'' then Lua_Userdata (Some Ptr_Ctx) else if n = ''_script'' then Lua_Userdata (Some Ptr_Script)
      else if n = ''_state'' then Lua_Userdata (Some Ptr_State) else if n = ''_is_locked'' then Lua_Boolean False
      else if n = ''_error_handler'' then Lua_Function else Lua_Table)"

definition list_lua :: "int lua_value \<Rightarrow> int lua_value \<Rightarrow> (list_state, int, 'k) lua_api" where
  "list_lua answer item = \<lparr>
     luaL_newstate = \<lparr>ll_stack = [], ll_known = False\<rparr>,
     lua_gettop = (\<lambda>L. int (length (ll_stack L))),
     lua_type_of = (\<lambda>i L. value_type (ll_at i L)),
     lua_toboolean = (\<lambda>i L. ll_at i L \<noteq> Lua_Nil \<and> ll_at i L \<noteq> Lua_Boolean False),
     lua_tonumber = (\<lambda>i L. case ll_at i L of Lua_Number d \<Rightarrow> d | _ \<Rightarrow> 0),
     lua_tostring = (\<lambda>i L. case ll_at i L of
         Lua_String s \<Rightarrow> (Some s, L)
       | Lua_Number d \<Rightarrow> (Some [], L\<lparr>ll_stack := (ll_stack L)[nat (-1 - i) := Lua_String []]\<rparr>)
       | _ \<Rightarrow> (None, L)),
     lua_touserdata = (\<lambda>i L. case ll_at i L of Lua_Userdata p \<Rightarrow> p | _ \<Rightarrow> None),
     lua_pop = ll_drop,
     lua_pushnil = ll_push Lua_Nil,
     lua_pushboolean = (\<lambda>b. ll_push (Lua_Boolean b)),
     lua_pushnumber = (\<lambda>n. ll_push (Lua_Number n)),
     lua_pushstring = (\<lambda>s. ll_push (opt_string s)),
     lua_pushcfunction = (\<lambda>f. ll_push Lua_Function),
     lua_newtable = ll_push Lua_Table,
     lua_newuserdata = (\<lambda>p. ll_push (Lua_Userdata (Some p))),
     lua_getglobal = (\<lambda>n L. Inr (ll_push
       (if n = ''varnish'' then Lua_Table else if ll_known L then Lua_Function else Lua_Nil) L)),
     lua_setglobal = (\<lambda>n L. Inr (ll_drop 1 L)),
     lua_getfield = (\<lambda>i n L. Inr (ll_push (ll_field n) L)),
     lua_setfield = (\<lambda>i n L. if ll_at i L = Lua_Function then Inl Unprotected_Error else Inr (ll_drop 1 L)),
     lua_gettable = (\<lambda>i L. Inr (ll_push item (ll_drop 1 L))),
     lua_rawseti = (\<lambda>i n. ll_drop 1),
     luaL_loadbuffer = (\<lambda>s n L. (True, ll_push Lua_Function L)),
     lua_version_num = 504,
     luaL_requiref = (\<lambda>n f L. Inr (ll_push Lua_Table L)),
     lua_call = (\<lambda>a r L. Inr (ll_drop (a + 1) L)),
     lua_pcall = (\<lambda>a r e L k. Inr (True, L\<lparr>ll_stack := replicate r answer @ tl (ll_stack L), ll_known := True\<rparr>, k)),
     lua_gc_count = (\<lambda>L. 7),
     lua_gc_collect = id,
     lua_gc_step = (\<lambda>n. id)\<rparr>"

lemma ll_at_simp: "i < length (ll_stack L) \<Longrightarrow> ll_at (-1 - int i) L = ll_stack L ! i"
  by (simp add: ll_at_def)

lemma list_lua_laws: "lua_laws ho (list_lua answer item) ll_stack"
proof -
  have "reads_stack (list_lua answer item) ll_stack"
    unfolding reads_stack_def list_lua_def by (auto simp: ll_at_simp split: lua_value.split)
  moreover have "pushes_stack (list_lua answer item) ll_stack"
    by (simp add: pushes_stack_def list_lua_def ll_push_def ll_drop_def)
  moreover have "table_stack (list_lua answer item) ll_stack"
    unfolding table_stack_def list_lua_def by (auto simp: ll_at_simp ll_push_def ll_drop_def drop_Suc split: if_splits)
  moreover have "runs_code ho (list_lua answer item) ll_stack"
    by (auto simp: runs_code_def list_lua_def ll_push_def)
  ultimately show ?thesis by (simp add: lua_laws_def)
qed

definition sample_host_ops :: "(nat, string, string) host_ops" where
  "sample_host_ops = \<lparr>ho_ws = counting_ws, ho_hdr = \<lparr>hdr_get = (\<lambda>h n. Some h), hdr_set = (\<lambda>h n v. v)\<rparr>,
     ho_vre = literal_vre\<rparr>"

definition sample_host :: "(nat, string, string) host" where
  "sample_host = \<lparr>h_ctx = \<lparr>ctx_ws = 99, ctx_method = MET_OTHER, ctx_vsb = [], ctx_fails = [],
       ctx_http = \<lparr>http_req = None, http_req_top = None, http_bereq = None, http_resp = None,
         http_beresp = None, http_obj = None\<rparr>\<rparr>,
     h_regexps = \<lparr>rxs_list = Leaf, rxs_n = 0\<rparr>,
     h_shared = \<lparr>sh_task = Leaf, sh_global = Leaf, sh_n = 0\<rparr>\<rparr>"

lemma sample_host_ok: "host_ok sample_host_ops sample_host" "values_set (h_shared sample_host)"
    "ws_faithful (ho_ws sample_host_ops)"
  by (simp_all add: host_ok_def sample_host_def sample_host_ops_def regexps_ok_def shared_ok_def values_set_def
      task_map_def find_task_variable_def vrbt_ok_def rb_tree_def)

theorem lua_shared_command_outcome_witness:
  "\<exists>r L' k'. run_lua_command (list_lua Lua_Nil Lua_Nil) sample_host_ops Lua_Shared_Set
      \<lparr>ll_stack = [Lua_String ''1'', Lua_String ''k''], ll_known = True\<rparr> sample_host = Inr (r, L', k')
    \<and> r = Returned 0 \<and> fst (shared_maps (h_shared k')) ''k'' = Some ''1''"
proof -
  let ?L = "\<lparr>ll_stack = [Lua_String ''1'', Lua_String ''k''], ll_known = True\<rparr>"
  obtain r L' k' where run: "run_lua_command (list_lua Lua_Nil Lua_Nil) sample_host_ops Lua_Shared_Set ?L sample_host
      = Inr (r, L', k')" and fails: "ctx_fails (h_ctx k') = ctx_fails (h_ctx sample_host)"
    by (simp add: varnish_shared_set_lua_command_def list_lua_def ll_at_def optional_arg_def nonempty_def
        get_shared_fields_def get_is_locked_def get_varnish_field_def ll_push_def ll_drop_def ll_field_def
        varnish_shared_set_command_def task_node_def sample_host_def sample_host_ops_def find_task_variable_def
        counting_ws_def sizeof_variable_def copy_or_fail_def vrbt_insert_def Let_def)
  have stk: "ll_stack ?L = rev (map Lua_String [''k'', ''1''])" by simp
  have call: "shared_call Lua_Shared_Set [''k'', ''1''] = Some (Shared_Set ''k'' ''1'' ''task'')"
    by (simp add: arg_or_def)
  note outcome = lua_shared_command_outcome[OF list_lua_laws sample_host_ok(1,3) stk _ run, unfolded call]
  obtain result where "r = Returned 0"
      "spec_command (Shared_Set ''k'' ''1'' ''task'') (shared_maps (h_shared sample_host)) = (result, shared_maps (h_shared k'))"
    using outcome fails sample_host_ok(2) by (auto simp: least_args_def)
  then have "r = Returned 0 \<and> fst (shared_maps (h_shared k')) ''k'' = Some ''1''"
    by (cases "shared_maps (h_shared sample_host)"; cases "shared_maps (h_shared k')") auto
  then show ?thesis using run by blast
qed

end
