(* ===== verification/Lua.thy ===== *)
theory Lua
  imports Lua_Commands
begin

text \<open>
  \<open>script_lua.c\<close>: the Lua engines of \<open>cfg.script\<close>, how one is set up and how \<open>execute_lua\<close> runs code
  on it and takes the result off its stack.
\<close>

section \<open>A new engine\<close>

text \<open>Lines of a program; \<open>CHR 0x27\<close> is a quote and \<open>CHR 0x5C\<close> a backslash.\<close>

definition text_lines :: "string list \<Rightarrow> string" where
  "text_lines ls = concat (map (\<lambda>l. l @ [CHR 0x0A]) ls)"

text \<open>The string \<open>protections\<close>, which makes globals strict and the \<open>varnish\<close> tables read only.\<close>

definition lua_protections :: string where
  "lua_protections = text_lines
    [''-- http://metalua.luaforge.net/src/lib/strict.lua.html'',
     ''setmetatable(_G, {'',
     ''  __index = function(table, key)'',
     ''    if debug.getinfo(2) and debug.getinfo(2, '' @ [CHR 0x27] @ ''S'' @ [CHR 0x27] @ '').what ~= '' @ [CHR 0x27] @ ''C'' @ [CHR 0x27] @ '' then'',
     ''      error('' @ [CHR 0x27] @ ''Script attempted to access nonexistent global variable '' @ [CHR 0x5C, CHR 0x27, CHR 0x27] @ '' .. tostring(key) .. '' @ [CHR 0x27, CHR 0x5C, CHR 0x27, CHR 0x27] @ '')'',
     ''    end'',
     ''    return rawget(table, key)'',
     ''  end,'',
     ''  __newindex = function(table, key, value)'',
     ''    if debug.getinfo(2) then'',
     ''      local w = debug.getinfo(2, '' @ [CHR 0x27] @ ''S'' @ [CHR 0x27] @ '').what'',
     ''      if w ~= '' @ [CHR 0x27] @ ''main'' @ [CHR 0x27] @ '' and w ~= '' @ [CHR 0x27] @ ''C'' @ [CHR 0x27] @ '' then'',
     ''        error('' @ [CHR 0x27] @ ''Script attempted to create global variable '' @ [CHR 0x5C, CHR 0x27, CHR 0x27] @ '' .. tostring(key) .. '' @ [CHR 0x27, CHR 0x5C, CHR 0x27, CHR 0x27] @ '')'',
     ''      end'',
     ''    end'',
     ''    rawset(table, key, value)'',
     ''  end'',
     '' });'',
     [],
     ''-- http://lua-users.org/wiki/ReadOnlyTables'',
     ''local function readonly_table(table, exceptions)'',
     ''   return setmetatable({}, {'',
     ''     __index = table,'',
     ''     __newindex = function(table, key, value)'',
     ''         if not exceptions[key] then'',
     ''           error('' @ [CHR 0x27] @ ''Script attempted to modify read-only table'' @ [CHR 0x27] @ '')'',
     ''         end'',
     ''         rawset(table, key, value)'',
     ''     end,'',
     ''     __metatable = false'',
     ''   });'',
     ''end'',
     ''varnish.shared = readonly_table(varnish.shared, {_is_locked = true})'',
     ''varnish = readonly_table(varnish, {_ctx = true, _script = true, _state = true})'',
     [],
     ''readonly_table = nil'']"

text \<open>
  The other Lua program \<open>new_context\<close> loads, \<open>script_lua_helpers.lua\<close>, is a header generated by the
  build: the argument \<open>helpers\<close>.
\<close>

definition load_lua_lib :: "('l, 'd, 'k) lua_api \<Rightarrow> string \<Rightarrow> string \<Rightarrow> 'l \<Rightarrow> 'l res" where
  "load_lua_lib api name f L =
     (if lua_version_num api \<ge> 502
      then res_bind (luaL_requiref api name (Library f) L) (\<lambda>L1. Inr (lua_pop api 1 L1))
      else lua_call api 1 0 (lua_pushstring api (Some name) (lua_pushcfunction api (Library f) L)))"

definition load_lua_libs :: "('l, 'd, 'k) lua_api \<Rightarrow> lua_cfg \<Rightarrow> 'l \<Rightarrow> 'l res" where
  "load_lua_libs api cfg =
     res_fold (\<lambda>(name, f). load_lua_lib api name f)
       ([(if lua_version_num api \<ge> 502 then ''_G'' else [], ''luaopen_base''),
         (''table'', ''luaopen_table''), (''string'', ''luaopen_string''), (''math'', ''luaopen_math''),
         (''debug'', ''luaopen_debug'')]
        @ (if lib_package cfg then [(''package'', ''luaopen_package'')] else [])
        @ (if lib_io cfg then [(''io'', ''luaopen_io'')] else [])
        @ (if lib_os cfg then [(''os'', ''luaopen_os'')] else []))"

definition remove_unsupported_lua_function :: "('l, 'd, 'k) lua_api \<Rightarrow> string \<Rightarrow> 'l \<Rightarrow> 'l res" where
  "remove_unsupported_lua_function api name L = lua_setglobal api name (lua_pushnil api L)"

definition remove_unsupported_lua_functions :: "('l, 'd, 'k) lua_api \<Rightarrow> lua_cfg \<Rightarrow> 'l \<Rightarrow> 'l res" where
  "remove_unsupported_lua_functions api cfg =
     res_fold (remove_unsupported_lua_function api)
       ((if \<not> fn_loadfile cfg then [''loadfile''] else []) @ (if \<not> fn_dotfile cfg then [''dotfile''] else []))"

text \<open>\<open>AZ(luaL_loadbuffer(...)); AZ(lua_pcall(L, 0, 0, 0));\<close>\<close>

definition run_lua_program :: "('l, 'd, 'k) lua_api \<Rightarrow> string \<Rightarrow> string \<Rightarrow> 'k \<Rightarrow> 'l \<Rightarrow> 'l res" where
  "run_lua_program api program chunk k L =
     (case luaL_loadbuffer api program chunk L of (loaded, L1) \<Rightarrow>
        must loaded (res_bind (lua_pcall api 0 0 0 L1 k) (\<lambda>(ok, L2, _). must ok (Inr L2))))"

definition enable_lua_protections :: "('l, 'd, 'k) lua_api \<Rightarrow> 'k \<Rightarrow> 'l \<Rightarrow> 'l res" where
  "enable_lua_protections api = run_lua_program api lua_protections ''@enable_lua_protections''"

text \<open>\<open>lua_pushcfunction(result, c); lua_setfield(result, -2, name);\<close>\<close>

definition add_lua_command :: "('l, 'd, 'k) lua_api \<Rightarrow> string \<times> lua_command \<Rightarrow> 'l \<Rightarrow> 'l res" where
  "add_lua_command api nc L = lua_setfield api (-2) (fst nc) (lua_pushcfunction api (Command (snd nc)) L)"

definition varnish_commands :: "(string \<times> lua_command) list" where
  "varnish_commands = [(''log'', Lua_Log), (''get_header'', Lua_Get_Header), (''set_header'', Lua_Set_Header),
     (''regmatch'', Lua_Regmatch), (''regsub'', Lua_Regsub False), (''regsuball'', Lua_Regsub True)]"

definition varnish_shared_commands :: "(string \<times> lua_command) list" where
  "varnish_shared_commands = [(''get'', Lua_Shared_Get), (''set'', Lua_Shared_Set),
     (''unset'', Lua_Shared_Unset), (''eval'', Lua_Shared_Eval)]"

definition new_context ::
  "('l, 'd, 'k) lua_api \<Rightarrow> string \<Rightarrow> ('re, 'e) cfg_script \<Rightarrow> 'k \<Rightarrow> 'l res" where
  "new_context api helpers script k =
     res_bind (load_lua_libs api (sc_lua script) (luaL_newstate api)) (\<lambda>L1.
     res_bind (remove_unsupported_lua_functions api (sc_lua script) L1) (\<lambda>L2.
     res_bind (lua_setfield api (-2) ''engine'' (lua_newtable api (lua_newtable api L2))) (\<lambda>L3.
     res_bind (lua_setfield api (-2) ''shared'' (lua_newtable api L3)) (\<lambda>L4.
     res_bind (res_fold (add_lua_command api) varnish_commands L4) (\<lambda>L5.
     res_bind (lua_setglobal api ''varnish'' L5) (\<lambda>L6.
     res_bind (lua_getglobal api ''varnish'' L6) (\<lambda>L7. must (lua_type_of api (-1) L7 = LUA_TTABLE)
    (res_bind (lua_getfield api (-1) ''shared'' L7) (\<lambda>L8. must (lua_type_of api (-1) L8 = LUA_TTABLE)
    (res_bind (lua_setfield api (-2) ''_is_locked'' (lua_pushboolean api False L8)) (\<lambda>L9.
     res_bind (res_fold (add_lua_command api) varnish_shared_commands L9) (\<lambda>L10.
     res_bind (run_lua_program api helpers ''@helpers'' k (lua_pop api 2 L10)) (\<lambda>L11.
       if sc_sandboxing script then enable_lua_protections api k L11 else Inr L11)))))))))))))"

definition get_lua_engine_used_memory :: "('l, 'd, 'k) lua_api \<Rightarrow> 'l \<Rightarrow> 32 word" where
  "get_lua_engine_used_memory api L = lua_gc_count api L"

definition get_lua_engine_stack_size :: "('l, 'd, 'k) lua_api \<Rightarrow> 'l engine \<Rightarrow> int" where
  "get_lua_engine_stack_size api e = lua_gettop api (eng_ctx e)"

definition new_lua_engine ::
  "('l, 'd, 'k) lua_api \<Rightarrow> string \<Rightarrow> ('re, 'e) cfg_script \<Rightarrow> 'k \<Rightarrow> 'l engine res" where
  "new_lua_engine api helpers script k =
     must (sc_type script = ENGINE_TYPE_LUA)
       (res_bind (new_context api helpers script k) (\<lambda>L.
          Inr ((new_engine L)\<lparr>eng_memory := get_lua_engine_used_memory api L\<rparr>)))"

section \<open>The function to run\<close>

text \<open>\<open>function %s()\n%s\nend\<close>\<close>

definition function_source :: "string \<Rightarrow> string \<Rightarrow> string" where
  "function_source name code = ''function '' @ name @ ''()'' @ [CHR 0x0A] @ code @ [CHR 0x0A] @ ''end''"

text \<open>\<open>LOG(..., lua_tostring(L, -1)); lua_pop(L, 1);\<close>\<close>

definition log_and_pop :: "('l, 'd, 'k) lua_api \<Rightarrow> 'l \<Rightarrow> 'l" where
  "log_and_pop api L = lua_pop api 1 (snd (lua_tostring api (-1) L))"

definition pre_execute :: "('l, 'd, 'k) lua_api \<Rightarrow> string \<Rightarrow> string \<Rightarrow> 'l \<Rightarrow> 'k \<Rightarrow> (bool \<times> 'l \<times> 'k) res" where
  "pre_execute api code name L k =
     (case luaL_loadbuffer api (function_source name code) ''@varnish_script'' L of (loaded, L1) \<Rightarrow>
        if loaded
        then res_bind (lua_pcall api 0 0 0 L1 k) (\<lambda>(ok, L2, k1).
          if ok then Inr (True, L2, k1) else Inr (False, log_and_pop api L2, k1))
        else Inr (False, log_and_pop api L1, k))"

text \<open>
  The start of \<open>execute_lua\<close> on an engine: \<open>varnish\<close>, the error handler and the function are pushed,
  after \<open>pre_execute\<close> when the engine does not know the function. The first flag is false at
  \<open>goto done\<close>, the second one counts in \<open>executions.unknown\<close>.
\<close>

definition push_function :: "('l, 'd, 'k) lua_api \<Rightarrow> string \<Rightarrow> string \<Rightarrow> 'l \<Rightarrow> 'k \<Rightarrow> (bool \<times> bool \<times> 'l \<times> 'k) res" where
  "push_function api code name L k =
     res_bind (lua_getglobal api ''varnish'' L) (\<lambda>L1. must (lua_type_of api (-1) L1 = LUA_TTABLE)
    (res_bind (lua_getfield api (-1) ''_error_handler'' L1) (\<lambda>L2. must (lua_type_of api (-1) L2 = LUA_TFUNCTION)
    (res_bind (lua_getglobal api name L2) (\<lambda>L3.
       if lua_type_of api (-1) L3 = LUA_TFUNCTION then Inr (True, False, L3, k)
       else
         res_bind (pre_execute api code name (lua_pop api 1 L3) k) (\<lambda>(ok, L4, k1).
           if ok
           then res_bind (lua_getglobal api name L4) (\<lambda>L5.
             must (lua_type_of api (-1) L5 = LUA_TFUNCTION) (Inr (True, True, L5, k1)))
           else Inr (False, True, lua_pop api 1 L4, k1)))))))"

section \<open>The result\<close>

text \<open>
  \<open>STORE_BOOLEAN\<close>, \<open>STORE_NUMBER\<close> and \<open>STORE_STRING\<close> of the value on top of the stack. The flag is
  false when the copy of a string failed the task.
\<close>

definition store_string ::
  "('l, 'd, 'k) lua_api \<Rightarrow> 'w ws_ops \<Rightarrow> ('w, 'h) vrt_ctx \<Rightarrow> 'l \<Rightarrow> (bool \<times> 'd result_value \<times> ('w, 'h) vrt_ctx \<times> 'l) res" where
  "store_string api ops ctx L =
     (case lua_tostring api (-1) L of
        (None, L1) \<Rightarrow> Inl Null_Deref
      | (Some s, L1) \<Rightarrow> (case copy_or_fail ops ctx s of (ctx', copied) \<Rightarrow>
          Inr (copied \<noteq> None, RESULT_STRING copied, ctx', L1)))"

definition store_item ::
  "('l, 'd, 'k) lua_api \<Rightarrow> 'w ws_ops \<Rightarrow> ('w, 'h) vrt_ctx \<Rightarrow> 'l \<Rightarrow> (bool \<times> 'd result_value \<times> ('w, 'h) vrt_ctx \<times> 'l) res" where
  "store_item api ops ctx L =
     (case lua_type_of api (-1) L of
        LUA_TBOOLEAN \<Rightarrow> Inr (True, RESULT_BOOLEAN (lua_toboolean api (-1) L), ctx, L)
      | LUA_TNUMBER \<Rightarrow> Inr (True, RESULT_NUMBER (lua_tonumber api (-1) L), ctx, L)
      | LUA_TSTRING \<Rightarrow> store_string api ops ctx L
      | LUA_TTABLE \<Rightarrow> Inr (True, RESULT_TABLE, ctx, L)
      | _ \<Rightarrow> Inr (True, RESULT_ERROR, ctx, L))"

text \<open>The loop over the items 1, 2, ... of a table. A string that cannot be copied returns from the loop.\<close>

function store_items ::
  "('l, 'd, 'k) lua_api \<Rightarrow> 'w ws_ops \<Rightarrow> ('w, 'h) vrt_ctx \<Rightarrow> 'l \<Rightarrow> 'd result
    \<Rightarrow> (bool \<times> 'd result \<times> ('w, 'h) vrt_ctx \<times> 'l) res" where
  "store_items api ops ctx L r =
     res_bind (lua_gettable api (-2) (lua_pushnumber api (nvalues r + 1) L)) (\<lambda>L1.
     if lua_type_of api (-1) L1 = LUA_TNIL then Inr (True, r, ctx, lua_pop api 1 L1)
     else
       res_bind (store_item api ops ctx L1) (\<lambda>(stored, v, ctx1, L2).
       res_bind (put_value (nvalues r) v r) (\<lambda>r1.
         if \<not> stored then Inr (False, r1, ctx1, L2)
         else if nvalues r1 + 1 = int MAX_RESULT_VALUES
         then Inr (True, r1\<lparr>nvalues := nvalues r1 + 1\<rparr>, ctx1, lua_pop api 1 L2)
         else store_items api ops ctx1 (lua_pop api 1 L2) (r1\<lparr>nvalues := nvalues r1 + 1\<rparr>))))"
  by pat_completeness auto
termination
  by (relation "measure (\<lambda>(api, ops, ctx, L, r). nat (int (length (result_values r)) - nvalues r))")
     (auto simp: put_value_def split: if_splits)

declare store_items.simps [simp del]

definition post_execute ::
  "('l, 'd, 'k) lua_api \<Rightarrow> 'w ws_ops \<Rightarrow> ('w, 'h) vrt_ctx \<Rightarrow> 'l \<Rightarrow> 'd result
    \<Rightarrow> (bool \<times> 'd result \<times> ('w, 'h) vrt_ctx \<times> 'l) res" where
  "post_execute api ops ctx L r =
     (case lua_type_of api (-1) L of
        LUA_TNIL \<Rightarrow> res_bind (put_value 0 RESULT_NIL r) (\<lambda>r'. Inr (True, r', ctx, L))
      | LUA_TBOOLEAN \<Rightarrow> res_bind (put_value 0 (RESULT_BOOLEAN (lua_toboolean api (-1) L)) r) (\<lambda>r'. Inr (True, r', ctx, L))
      | LUA_TNUMBER \<Rightarrow> res_bind (put_value 0 (RESULT_NUMBER (lua_tonumber api (-1) L)) r) (\<lambda>r'. Inr (True, r', ctx, L))
      | LUA_TSTRING \<Rightarrow>
          res_bind (store_string api ops ctx L) (\<lambda>(stored, v, ctx', L1).
          res_bind (put_value 0 v r) (\<lambda>r'. Inr (stored, r', ctx', L1)))
      | LUA_TTABLE \<Rightarrow> store_items api ops ctx L (r\<lparr>nvalues := 0\<rparr>)
      | _ \<Rightarrow> res_bind (put_value 0 RESULT_ERROR r) (\<lambda>r'. Inr (False, r', ctx, L)))"

section \<open>Executing\<close>

text \<open>\<open>varnish._ctx\<close>, \<open>varnish._script\<close> and \<open>varnish._state\<close> before the call, and after it.\<close>

definition host_fields :: "(string \<times> host_ptr) list" where
  "host_fields = [(''_ctx'', Ptr_Ctx), (''_script'', Ptr_Script), (''_state'', Ptr_State)]"

definition set_host_fields :: "('l, 'd, 'k) lua_api \<Rightarrow> 'l \<Rightarrow> 'l res" where
  "set_host_fields api =
     res_fold (\<lambda>(field, ptr) L. lua_setfield api (-4) field (lua_newuserdata api ptr L)) host_fields"

definition clear_host_fields :: "('l, 'd, 'k) lua_api \<Rightarrow> 'l \<Rightarrow> 'l res" where
  "clear_host_fields api = res_fold (\<lambda>(field, ptr) L. lua_setfield api (-2) field (lua_pushnil api L)) host_fields"

definition set_lua_argv :: "('l, 'd, 'k) lua_api \<Rightarrow> int \<Rightarrow> string option list \<Rightarrow> 'l \<Rightarrow> 'l res" where
  "set_lua_argv api argc argv L =
     res_bind (res_fold (\<lambda>i L.
         if i < length argv then Inr (lua_rawseti api (-2) (int i) (lua_pushstring api (argv ! i) L))
         else Inl Out_Of_Bounds)
       [0..<nat argc] (lua_newtable api L)) (lua_setglobal api ''ARGV'')"

text \<open>
  After the call: the result is stored, or \<open>values[0]\<close> becomes an error; then the result and the
  error handler are popped and the host fields are cleared.
\<close>

definition finish_call ::
  "('l, 'd, 'w, 'h, 're) lua \<Rightarrow> 'w ws_ops \<Rightarrow> bool \<Rightarrow> 'l \<Rightarrow> ('w, 'h, 're) host \<Rightarrow> 'd result
    \<Rightarrow> (bool \<times> 'd result \<times> 'l \<times> ('w, 'h, 're) host) res" where
  "finish_call api ops called L k r =
     res_bind
       (if called
        then res_bind (post_execute api ops (h_ctx k) L r) (\<lambda>(success, r1, ctx, L1).
          if success then Inr (True, r1, L1, k\<lparr>h_ctx := ctx\<rparr>)
          else res_bind (put_value 0 RESULT_ERROR r1) (\<lambda>r2. Inr (False, r2, L1, k\<lparr>h_ctx := ctx\<rparr>)))
        else res_bind (put_value 0 RESULT_ERROR r) (\<lambda>r1. Inr (False, r1, snd (lua_tostring api (-1) L), k)))
       (\<lambda>(success, r', L', k').
          res_bind (clear_host_fields api (lua_pop api 2 L')) (\<lambda>L''. Inr (success, r', L'', k')))"

definition call_function ::
  "('l, 'd, 'w, 'h, 're) lua \<Rightarrow> 'w ws_ops \<Rightarrow> 'd task_state \<Rightarrow> 'l \<Rightarrow> ('w, 'h, 're) host
    \<Rightarrow> (bool \<times> 'd result \<times> 'l \<times> ('w, 'h, 're) host) res" where
  "call_function api ops state L k =
     res_bind (set_host_fields api L) (\<lambda>L1.
     res_bind (set_lua_argv api (ts_argc state) (ts_argv state) L1) (\<lambda>L2.
     res_bind (lua_pcall api 0 1 (-2) L2 k) (\<lambda>(called, L3, k1).
       finish_call api ops called L3 k1 (ts_result state))))"

text \<open>
  \<open>execute_lua\<close> between \<open>lock_engine\<close> and the statistics: success, whether the function was unknown, the
  result if there is a task state, the engine and the host.
\<close>

definition run_on_engine ::
  "('l, 'd, 'w, 'h, 're) lua \<Rightarrow> 'w ws_ops \<Rightarrow> string \<Rightarrow> string \<Rightarrow> 'd task_state option \<Rightarrow> 'l \<Rightarrow> ('w, 'h, 're) host
    \<Rightarrow> (bool \<times> bool \<times> 'd result option \<times> 'l \<times> ('w, 'h, 're) host) res" where
  "run_on_engine api ops code name state L k =
     res_bind (push_function api code name L k) (\<lambda>(ready, unknown, L1, k1).
     res_bind
       (if ready
        then (case state of
            Some s \<Rightarrow> res_bind (call_function api ops s L1 k1) (\<lambda>(success, r, L2, k2). Inr (success, Some r, L2, k2))
          | None \<Rightarrow> Inr (True, None, lua_pop api 2 L1, k1))
        else Inr (False, map_option ts_result state, L1, k1))
       (\<lambda>(success, r, L2, k2). Inr (success, unknown, r, lua_pop api 1 L2, k2)))"

text \<open>The calls of the garbage collector, and the whole of \<open>execute_lua\<close>.\<close>

definition lua_collect_garbage ::
  "('l, 'd, 'k) lua_api \<Rightarrow> ('re, 'e) cfg_script \<Rightarrow> bool \<Rightarrow> uint32 \<Rightarrow> 'l \<Rightarrow> (bool \<times> 'l) res" where
  "lua_collect_garbage api =
     collect_garbage (lua_gc_collect api) (\<lambda>script. lua_gc_step api (gc_step_size (sc_lua script)))"

definition execute_lua ::
  "('l, 'd, 'w, 'h, 're) lua \<Rightarrow> 'w ws_ops \<Rightarrow> string \<Rightarrow> (string \<Rightarrow> string) \<Rightarrow> ('l pool \<Rightarrow> nat)
    \<Rightarrow> ('w, 'h http_ctx, 're, 'l, 'd) execute" where
  "execute_lua api ops helpers =
     execute_script (\<lambda>script. run_on_engine api ops) (lua_collect_garbage api) (get_lua_engine_used_memory api)
       (new_lua_engine api helpers)"

section \<open>The stack of a new engine\<close>

lemma res_fold_keeps:
  assumes "res_fold f xs s = Inr s'" "\<And>x t t'. f x t = Inr t' \<Longrightarrow> g t' = g t"
  shows "g s' = g s"
  using assms(1)
proof (induction xs arbitrary: s)
  case (Cons x xs)
  then obtain t where "f x s = Inr t" "res_fold f xs t = Inr s'"
    by (auto simp: res_bind_eq_Inr_iff)
  then show ?case using Cons.IH assms(2) by simp
qed simp

lemma load_lua_lib_stack:
  assumes "lua_laws ho api stk" "load_lua_lib api name f L = Inr L'"
  shows "stk L' = stk L"
proof (cases "lua_version_num api \<ge> 502")
  case True
  then obtain L1 where "luaL_requiref api name (Library f) L = Inr L1" "L' = lua_pop api 1 L1"
    using assms(2) by (auto simp: load_lua_lib_def res_bind_eq_Inr_iff)
  then show ?thesis
    using stack_tables(7)[OF assms(1)] stack_pushes(2)[OF assms(1), of 1 L1] by fastforce
next
  case False
  then have "lua_call api 1 0 (lua_pushstring api (Some name) (lua_pushcfunction api (Library f) L)) = Inr L'"
    using assms(2) by (simp add: load_lua_lib_def)
  from stack_tables(8)[OF assms(1) this] show ?thesis
    by (simp add: stack_pushes(6,7)[OF assms(1)])
qed

lemma load_lua_libs_stack:
  assumes "lua_laws ho api stk" "load_lua_libs api cfg L = Inr L'"
  shows "stk L' = stk L"
  using assms(2) unfolding load_lua_libs_def
proof (rule res_fold_keeps)
  fix nf L L'
  assume "(case nf of (name, f) \<Rightarrow> load_lua_lib api name f) L = Inr L'"
  then show "stk L' = stk L"
    using load_lua_lib_stack[OF assms(1)] by (cases nf) auto
qed

lemma remove_functions_stack:
  assumes "lua_laws ho api stk" "remove_unsupported_lua_functions api cfg L = Inr L'"
  shows "stk L' = stk L"
  using assms(2) unfolding remove_unsupported_lua_functions_def
proof (rule res_fold_keeps)
  fix name L L'
  assume "remove_unsupported_lua_function api name L = Inr L'"
  then show "stk L' = stk L"
    using stack_pushes(3)[OF assms(1)] stack_tables(2)[OF assms(1)]
    by (fastforce simp: remove_unsupported_lua_function_def)
qed

lemma add_commands_stack:
  assumes "lua_laws ho api stk" "res_fold (add_lua_command api) cs L = Inr L'"
  shows "stk L' = stk L"
  using assms(2)
proof (rule res_fold_keeps)
  fix nc L L'
  assume "add_lua_command api nc L = Inr L'"
  then show "stk L' = stk L"
    using stack_pushes(7)[OF assms(1)] stack_tables(4)[OF assms(1)] by (fastforce simp: add_lua_command_def)
qed

lemma run_lua_program_stack:
  assumes "lua_laws ho api stk" "run_lua_program api program chunk k L = Inr L'"
  shows "stk L' = stk L"
proof -
  obtain ok L1 k1 where steps: "luaL_loadbuffer api program chunk L = (True, L1)"
      "lua_pcall api 0 0 0 L1 k = Inr (True, L', k1)"
    using assms(2) by (auto simp: run_lua_program_def res_bind_eq_Inr_iff must_eq_Inr_iff split: prod.splits)
  then show ?thesis
    using stack_code(1)[OF assms(1) steps(1)] stack_code(2)[OF assms(1) steps(2)] by auto
qed

lemma new_context_stack:
  assumes "lua_laws ho api stk" "new_context api helpers script k = Inr L"
  shows "stk L = []"
proof -
  note pushes = stack_pushes[OF assms(1)] and tables = stack_tables[OF assms(1)]
  obtain L1 L2 L3 L4 L5 L6 L7 L8 L9 L10 L11 where steps:
      "load_lua_libs api (sc_lua script) (luaL_newstate api) = Inr L1"
      "remove_unsupported_lua_functions api (sc_lua script) L1 = Inr L2"
      "lua_setfield api (-2) ''engine'' (lua_newtable api (lua_newtable api L2)) = Inr L3"
      "lua_setfield api (-2) ''shared'' (lua_newtable api L3) = Inr L4"
      "res_fold (add_lua_command api) varnish_commands L4 = Inr L5"
      "lua_setglobal api ''varnish'' L5 = Inr L6"
      "lua_getglobal api ''varnish'' L6 = Inr L7"
      "lua_getfield api (-1) ''shared'' L7 = Inr L8"
      "lua_setfield api (-2) ''_is_locked'' (lua_pushboolean api False L8) = Inr L9"
      "res_fold (add_lua_command api) varnish_shared_commands L9 = Inr L10"
      "run_lua_program api helpers ''@helpers'' k (lua_pop api 2 L10) = Inr L11"
      "if sc_sandboxing script then enable_lua_protections api k L11 = Inr L else L11 = L"
    using assms(2) by (auto simp: new_context_def res_bind_eq_Inr_iff must_eq_Inr_iff split: if_splits)
  have "stk L2 = []"
    using load_lua_libs_stack[OF assms(1) steps(1)] remove_functions_stack[OF assms(1) steps(2)] pushes(1) by simp
  then have "stk L3 = [Lua_Table]" using tables(4)[OF steps(3)] pushes(8) by simp
  then have "stk L4 = [Lua_Table]" using tables(4)[OF steps(4)] pushes(8) by simp
  then have "stk L6 = []"
    using add_commands_stack[OF assms(1) steps(5)] tables(2)[OF steps(6)] by simp
  then obtain v w where "stk L8 = [w, v]"
    using tables(1)[OF steps(7)] tables(3)[OF steps(8)] by auto
  then have "stk L9 = [w, v]" using tables(4)[OF steps(9)] pushes(4) by simp
  then have "stk (lua_pop api 2 L10) = []"
    using add_commands_stack[OF assms(1) steps(10)] pushes(2) by simp
  then have "stk L11 = []" using run_lua_program_stack[OF assms(1) steps(11)] by simp
  then show ?thesis
    using steps(12) run_lua_program_stack[OF assms(1)] by (auto simp: enable_lua_protections_def split: if_splits)
qed

section \<open>The stack of an execution\<close>

lemma log_and_pop_stack:
  assumes "lua_laws ho api stk" "stk L = v # vs"
  shows "stk (log_and_pop api L) = vs"
  using stack_tostring_top[OF assms] by (auto simp: log_and_pop_def stack_pushes(2)[OF assms(1)])

lemma pre_execute_stack:
  assumes "lua_laws ho api stk" "pre_execute api code name L k = Inr (ok, L', k')"
  shows "stk L' = stk L \<and> (host_step ho)\<^sup>*\<^sup>* k k'"
proof -
  obtain loaded L1 where load: "luaL_loadbuffer api (function_source name code) ''@varnish_script'' L = (loaded, L1)"
    by fastforce
  obtain v where L1: "stk L1 = v # stk L" using stack_code(1)[OF assms(1) load] by blast
  show ?thesis
  proof (cases loaded)
    case False
    then show ?thesis
      using assms(2) load log_and_pop_stack[OF assms(1) L1] by (simp add: pre_execute_def)
  next
    case True
    then obtain called L2 k2 where call: "lua_pcall api 0 0 0 L1 k = Inr (called, L2, k2)"
        and fin: "(if called then (ok, L', k') = (True, L2, k2) else (ok, L', k') = (False, log_and_pop api L2, k2))"
      using assms(2) load by (auto simp: pre_execute_def res_bind_eq_Inr_iff split: if_splits)
    show ?thesis
      using stack_code(2)[OF assms(1) call] fin L1 log_and_pop_stack[OF assms(1)] by (auto split: if_splits)
  qed
qed

lemma push_function_stack:
  assumes "lua_laws ho api stk" "push_function api code name L k = Inr (ready, unknown, L', k')"
  shows "stk L' = (if ready then [Lua_Function, Lua_Function, Lua_Table] else [Lua_Table]) @ stk L
    \<and> (host_step ho)\<^sup>*\<^sup>* k k'"
proof -
  note reads = stack_reads[OF assms(1)] and pushes = stack_pushes[OF assms(1)] and tables = stack_tables[OF assms(1)]
  obtain L1 L2 L3 where steps: "lua_getglobal api ''varnish'' L = Inr L1" "lua_type_of api (-1) L1 = LUA_TTABLE"
      "lua_getfield api (-1) ''_error_handler'' L1 = Inr L2" "lua_type_of api (-1) L2 = LUA_TFUNCTION"
      "lua_getglobal api name L2 = Inr L3"
      and rest: "(if lua_type_of api (-1) L3 = LUA_TFUNCTION then Inr (True, False, L3, k)
       else res_bind (pre_execute api code name (lua_pop api 1 L3) k) (\<lambda>(ok, L4, k1).
           if ok then res_bind (lua_getglobal api name L4) (\<lambda>L5.
             must (lua_type_of api (-1) L5 = LUA_TFUNCTION) (Inr (True, True, L5, k1)))
           else Inr (False, True, lua_pop api 1 L4, k1))) = Inr (ready, unknown, L', k')"
    using assms(2) by (auto simp: push_function_def res_bind_eq_Inr_iff must_eq_Inr_iff)
  have L1: "stk L1 = Lua_Table # stk L" using tables(1)[OF steps(1)] steps(2) reads(2) by fastforce
  have L2: "stk L2 = Lua_Function # Lua_Table # stk L" using tables(3)[OF steps(3)] steps(4) L1 reads(2) by fastforce
  obtain v where L3: "stk L3 = v # stk L2" using tables(1)[OF steps(5)] by blast
  show ?thesis
  proof (cases "v = Lua_Function")
    case True
    then show ?thesis using rest L2 L3 reads(2)[OF L3] by simp
  next
    case False
    then obtain ok L4 k1 where pre: "pre_execute api code name (lua_pop api 1 L3) k = Inr (ok, L4, k1)"
        and fin: "(if ok then res_bind (lua_getglobal api name L4) (\<lambda>L5.
             must (lua_type_of api (-1) L5 = LUA_TFUNCTION) (Inr (True, True, L5, k1)))
           else Inr (False, True, lua_pop api 1 L4, k1)) = Inr (ready, unknown, L', k')"
      using rest reads(2)[OF L3] by (auto simp: res_bind_eq_Inr_iff)
    have L4: "stk L4 = stk L2" "(host_step ho)\<^sup>*\<^sup>* k k1"
      using pre_execute_stack[OF assms(1) pre] L3 pushes(2)[of 1 L3] by auto
    show ?thesis
    proof (cases ok)
      case True
      then have L5: "lua_getglobal api name L4 = Inr L'" "lua_type_of api (-1) L' = LUA_TFUNCTION" "ready" "k' = k1"
        using fin by (auto simp: res_bind_eq_Inr_iff must_eq_Inr_iff)
      then have "stk L' = Lua_Function # stk L4" using tables(1)[OF L5(1)] reads(2) by fastforce
      then show ?thesis using L5(3,4) L4 L2 by simp
    next
      case False
      then show ?thesis using fin L4 L2 pushes(2)[of 1 L4] by auto
    qed
  qed
qed

lemma set_host_fields_stack:
  assumes "lua_laws ho api stk" "set_host_fields api L = Inr L'"
  shows "stk L' = stk L"
  using assms(2) unfolding set_host_fields_def
proof (rule res_fold_keeps)
  fix fp :: "string \<times> host_ptr" and L L'
  assume a: "(case fp of (field, ptr) \<Rightarrow> \<lambda>L. lua_setfield api (-4) field (lua_newuserdata api ptr L)) L = Inr L'"
  obtain field ptr where "fp = (field, ptr)" by (cases fp)
  then have "lua_setfield api (-4) field (lua_newuserdata api ptr L) = Inr L'" using a by simp
  from stack_tables(4)[OF assms(1) this] show "stk L' = stk L"
    by (simp add: stack_pushes(9)[OF assms(1)])
qed

lemma clear_host_fields_stack:
  assumes "lua_laws ho api stk" "clear_host_fields api L = Inr L'"
  shows "stk L' = stk L"
  using assms(2) unfolding clear_host_fields_def
proof (rule res_fold_keeps)
  fix fp :: "string \<times> host_ptr" and L L'
  assume a: "(case fp of (field, ptr) \<Rightarrow> \<lambda>L. lua_setfield api (-2) field (lua_pushnil api L)) L = Inr L'"
  obtain field ptr where "fp = (field, ptr)" by (cases fp)
  then have "lua_setfield api (-2) field (lua_pushnil api L) = Inr L'" using a by simp
  from stack_tables(4)[OF assms(1) this] show "stk L' = stk L"
    by (simp add: stack_pushes(3)[OF assms(1)])
qed

text \<open>On a function instead of the table the first assignment already raises an error.\<close>

lemma clear_host_fields_function:
  assumes "lua_laws ho api stk" "stk L = Lua_Function # vs"
  shows "clear_host_fields api L = Inl Unprotected_Error"
proof -
  have "stk (lua_pushnil api L) = Lua_Nil # Lua_Function # vs"
    using stack_pushes(3)[OF assms(1)] assms(2) by simp
  then show ?thesis
    using stack_setfield_function[OF assms(1)] by (simp add: clear_host_fields_def host_fields_def)
qed

lemma set_lua_argv_stack:
  assumes "lua_laws ho api stk" "set_lua_argv api argc argv L = Inr L'"
  shows "stk L' = stk L"
proof -
  obtain L1 where fold: "res_fold (\<lambda>i L. if i < length argv
        then Inr (lua_rawseti api (-2) (int i) (lua_pushstring api (argv ! i) L)) else Inl Out_Of_Bounds)
        [0..<nat argc] (lua_newtable api L) = Inr L1" and set: "lua_setglobal api ''ARGV'' L1 = Inr L'"
    using assms(2) by (auto simp: set_lua_argv_def res_bind_eq_Inr_iff)
  have "stk L1 = stk (lua_newtable api L)"
    by (rule res_fold_keeps[OF fold])
       (auto simp: stack_pushes(6)[OF assms(1)] stack_tables(6)[OF assms(1)] split: if_splits)
  then show ?thesis
    using stack_tables(2)[OF assms(1) set] by (simp add: stack_pushes(8)[OF assms(1)])
qed

section \<open>What is stored\<close>

lemma store_string_grows:
  "store_string api ops ctx L = Inr (stored, w, ctx', L') \<Longrightarrow> fails_grow ctx ctx'"
  by (auto simp: store_string_def split: prod.splits option.splits dest: copy_or_fail_grow)

lemma store_item_outcome:
  assumes "lua_laws ho api stk" "stk L = v # vs" "store_item api ops ctx L = Inr (stored, w, ctx', L')"
  shows "(\<exists>u. stk L' = u # vs) \<and> fails_grow ctx ctx'"
proof (cases "lua_type_of api (-1) L = LUA_TSTRING")
  case True
  then have "store_string api ops ctx L = Inr (stored, w, ctx', L')"
    using assms(3) by (simp add: store_item_def)
  moreover from this obtain s where "lua_tostring api (-1) L = (Some s, L')"
    by (auto simp: store_string_def split: prod.splits option.splits)
  ultimately show ?thesis
    using stack_tostring_top[OF assms(1,2)] store_string_grows by fastforce
next
  case False
  then show ?thesis
    using assms(2,3) by (auto simp: store_item_def split: lua_type.splits)
qed

lemma store_items_outcome:
  assumes "lua_laws ho api stk" "stk L = v # vs" "result_ok r" "0 \<le> nvalues r"
    and "store_items api ops ctx L r = Inr (ok, r', ctx', L')"
  shows "result_ok r' \<and> 0 \<le> nvalues r' \<and> fails_grow ctx ctx' \<and> (if ok then stk L' = stk L else \<exists>x. stk L' = x # stk L)"
  using assms(2-5)
proof (induction "nat (int MAX_RESULT_VALUES - nvalues r)" arbitrary: L r ctx rule: less_induct)
  case less
  obtain L1 where get: "lua_gettable api (-2) (lua_pushnumber api (nvalues r + 1) L) = Inr L1"
    and rest: "(if lua_type_of api (-1) L1 = LUA_TNIL then Inr (True, r, ctx, lua_pop api 1 L1)
      else res_bind (store_item api ops ctx L1) (\<lambda>(stored, w, ctx1, L2).
        res_bind (put_value (nvalues r) w r) (\<lambda>r1.
          if \<not> stored then Inr (False, r1, ctx1, L2)
          else if nvalues r1 + 1 = int MAX_RESULT_VALUES
          then Inr (True, r1\<lparr>nvalues := nvalues r1 + 1\<rparr>, ctx1, lua_pop api 1 L2)
          else store_items api ops ctx1 (lua_pop api 1 L2) (r1\<lparr>nvalues := nvalues r1 + 1\<rparr>)))) = Inr (ok, r', ctx', L')"
    using less.prems(4) by (subst (asm) store_items.simps) (auto simp: res_bind_eq_Inr_iff)
  obtain x where L1: "stk L1 = x # stk L"
    using stack_tables(5)[OF assms(1) get] stack_pushes(5)[OF assms(1)] by auto
  show ?case
  proof (cases "lua_type_of api (-1) L1 = LUA_TNIL")
    case True
    then show ?thesis
      using rest less.prems L1 stack_pushes(2)[OF assms(1), of 1 L1] by auto
  next
    case False
    then obtain stored w ctx1 L2 r1 where item: "store_item api ops ctx L1 = Inr (stored, w, ctx1, L2)"
        and put: "put_value (nvalues r) w r = Inr r1"
        and fin: "(if \<not> stored then Inr (False, r1, ctx1, L2)
          else if nvalues r1 + 1 = int MAX_RESULT_VALUES
          then Inr (True, r1\<lparr>nvalues := nvalues r1 + 1\<rparr>, ctx1, lua_pop api 1 L2)
          else store_items api ops ctx1 (lua_pop api 1 L2) (r1\<lparr>nvalues := nvalues r1 + 1\<rparr>)) = Inr (ok, r', ctx', L')"
      using rest by (auto simp: res_bind_eq_Inr_iff)
    obtain u where L2: "stk L2 = u # stk L" and grows: "fails_grow ctx ctx1"
      using store_item_outcome[OF assms(1) L1 item] by blast
    then have popped: "stk (lua_pop api 1 L2) = stk L"
      using stack_pushes(2)[OF assms(1), of 1 L2] by simp
    have r1: "result_ok r1" "nvalues r1 = nvalues r" "nvalues r < int MAX_RESULT_VALUES"
      using put_value_keeps[OF put less.prems(2)] put less.prems(2) by (auto simp: put_value_iff result_ok_def)
    then have next_ok: "result_ok (r1\<lparr>nvalues := nvalues r1 + 1\<rparr>)"
      using less.prems(3) by (simp add: result_ok_def)
    consider "\<not> stored" | "stored" "nvalues r1 + 1 = int MAX_RESULT_VALUES"
      | "stored" "nvalues r1 + 1 \<noteq> int MAX_RESULT_VALUES" by blast
    then show ?thesis
    proof cases
      case 1
      then show ?thesis using fin r1 less.prems(3) L2 grows by auto
    next
      case 2
      then show ?thesis using fin r1(2) less.prems(3) next_ok popped grows by auto
    next
      case 3
      let ?r = "r1\<lparr>nvalues := nvalues r1 + 1\<rparr>"
      have run: "store_items api ops ctx1 (lua_pop api 1 L2) ?r = Inr (ok, r', ctx', L')"
        using fin 3 by simp
      have "nat (int MAX_RESULT_VALUES - nvalues ?r) < nat (int MAX_RESULT_VALUES - nvalues r)" "0 \<le> nvalues ?r"
        using r1 less.prems(3) by simp_all
      from less.hyps[OF this(1) trans[OF popped less.prems(1)] next_ok this(2) run] show ?thesis
        unfolding popped using fails_grow_trans[OF grows] by blast
    qed
  qed
qed

lemma post_execute_outcome:
  assumes "lua_laws ho api stk" "stk L = v # vs" "result_ok r"
    and "post_execute api ops ctx L r = Inr (ok, r', ctx', L')"
  shows "result_ok r' \<and> fails_grow ctx ctx'
    \<and> (if v = Lua_Table \<and> \<not> ok then \<exists>x. stk L' = x # v # vs else \<exists>u. stk L' = u # vs)"
proof (cases "v = Lua_Table")
  case True
  then have "store_items api ops ctx L (r\<lparr>nvalues := 0\<rparr>) = Inr (ok, r', ctx', L')"
    using assms(4) stack_reads(2)[OF assms(1,2)] by (simp add: post_execute_def)
  from store_items_outcome[OF assms(1,2) _ _ this] show ?thesis
    using assms(2,3) True by (auto simp: result_ok_def)
next
  case False
  show ?thesis
  proof (cases "\<exists>s. v = Lua_String s")
    case True
    then obtain stored w where s: "store_string api ops ctx L = Inr (stored, w, ctx', L')" "put_value 0 w r = Inr r'"
      using assms(4) stack_reads(2)[OF assms(1,2)] by (auto simp: post_execute_def res_bind_eq_Inr_iff)
    then obtain t where "lua_tostring api (-1) L = (Some t, L')"
      by (auto simp: store_string_def split: prod.splits option.splits)
    then show ?thesis
      using False stack_tostring_top[OF assms(1,2)] put_value_keeps[OF s(2) assms(3)] store_string_grows[OF s(1)] by simp
  next
    case other: False
    then show ?thesis
      using assms(2-4) False stack_reads(2)[OF assms(1,2)]
      by (cases v) (auto simp: post_execute_def res_bind_eq_Inr_iff dest: put_value_keeps)
  qed
qed

lemma finish_call_outcome:
  assumes "lua_laws ho api stk" "stk L = v # Lua_Function # vs" "result_ok r"
    and "finish_call api ops called L k r = Inr (success, r', L', k')"
  shows "stk L' = vs \<and> result_ok r' \<and> host_keeps ho k k'"
proof -
  note pop = stack_pushes(2)[OF assms(1)]
  have finish: "stk L' = vs" if clear: "clear_host_fields api (lua_pop api 2 L1) = Inr L'"
      and L1: "stk L1 = u # w # vs" for L1 u w
    using clear_host_fields_stack[OF assms(1) clear] pop[of 2 L1] L1 by simp
  show ?thesis
  proof (cases called)
    case False
    then have steps: "put_value 0 RESULT_ERROR r = Inr r'" "k' = k"
        "clear_host_fields api (lua_pop api 2 (snd (lua_tostring api (-1) L))) = Inr L'"
      using assms(4) by (auto simp: finish_call_def res_bind_eq_Inr_iff)
    obtain u where "stk (snd (lua_tostring api (-1) L)) = u # Lua_Function # vs"
      using stack_tostring_top[OF assms(1,2)] by blast
    then have "stk L' = vs" by (rule finish[OF steps(3)])
    then show ?thesis using put_value_keeps[OF steps(1) assms(3)] steps(2) by simp
  next
    case True
    then obtain ok r1 ctx L1 where post: "post_execute api ops (h_ctx k) L r = Inr (ok, r1, ctx, L1)"
        and store: "if ok then r' = r1 else put_value 0 RESULT_ERROR r1 = Inr r'" and k': "k' = k\<lparr>h_ctx := ctx\<rparr>"
        and clear: "clear_host_fields api (lua_pop api 2 L1) = Inr L'"
      using assms(4) by (auto simp: finish_call_def res_bind_eq_Inr_iff split: if_splits)
    note outcome = post_execute_outcome[OF assms(1,2,3) post]
    have r': "result_ok r'"
      using outcome store put_value_keeps[of 0 RESULT_ERROR r1 r'] by (auto split: if_splits)
    show ?thesis
    proof (cases "v = Lua_Table \<and> \<not> ok")
      case True
      then obtain x where "stk L1 = x # v # Lua_Function # vs" using outcome by auto
      then have "stk (lua_pop api 2 L1) = Lua_Function # vs" using pop[of 2 L1] by simp
      then show ?thesis using clear clear_host_fields_function[OF assms(1)] by simp
    next
      case False
      then obtain u where "stk L1 = u # Lua_Function # vs" using outcome by (auto split: if_splits)
      then have "stk L' = vs" by (rule finish[OF clear])
      then show ?thesis using r' k' host_keeps_ctx[of k ctx] outcome by simp
    qed
  qed
qed

lemma call_function_outcome:
  assumes "lua_laws ho api stk" "stk L = Lua_Function # Lua_Function # vs" "result_ok (ts_result s)"
    and "call_function api ops s L k = Inr (success, r, L', k')"
  shows "stk L' = vs \<and> result_ok r \<and> host_keeps ho k k'"
proof -
  obtain L1 L2 called L3 k1 where steps: "set_host_fields api L = Inr L1"
      "set_lua_argv api (ts_argc s) (ts_argv s) L1 = Inr L2" "lua_pcall api 0 1 (-2) L2 k = Inr (called, L3, k1)"
      "finish_call api ops called L3 k1 (ts_result s) = Inr (success, r, L', k')"
    using assms(4) by (auto simp: call_function_def res_bind_eq_Inr_iff)
  have "stk L2 = Lua_Function # Lua_Function # vs"
    using set_host_fields_stack[OF assms(1) steps(1)] set_lua_argv_stack[OF assms(1) steps(2)] assms(2) by simp
  moreover note stack_code(2)[OF assms(1) steps(3)]
  ultimately obtain v where "stk L3 = v # Lua_Function # vs" "(host_step ho)\<^sup>*\<^sup>* k k1"
    by (auto simp: length_Suc_conv split: if_splits)
  then show ?thesis
    using finish_call_outcome[OF assms(1) _ assms(3) steps(4)] host_steps_keep host_keeps_trans by blast
qed

lemma run_on_engine_outcome:
  assumes "lua_laws ho api stk" "\<And>s. state = Some s \<Longrightarrow> result_ok (ts_result s)"
    and "run_on_engine api ops code name state L k = Inr (success, unknown, result, L', k')"
  shows "stk L' = stk L \<and> (case (state, result) of (Some s, Some r) \<Rightarrow> result_ok r | (None, None) \<Rightarrow> True | _ \<Rightarrow> False)
    \<and> host_keeps ho k k'"
proof -
  note pop = stack_pushes(2)[OF assms(1)]
  obtain ready L1 k1 r L2 where push: "push_function api code name L k = Inr (ready, unknown, L1, k1)"
    and run: "(if ready
        then (case state of
            Some s \<Rightarrow> res_bind (call_function api ops s L1 k1) (\<lambda>(success, r, L2, k2). Inr (success, Some r, L2, k2))
          | None \<Rightarrow> Inr (True, None, lua_pop api 2 L1, k1))
        else Inr (False, map_option ts_result state, L1, k1)) = Inr (success, result, L2, k')"
    and L': "L' = lua_pop api 1 L2"
    using assms(3) by (auto simp: run_on_engine_def res_bind_eq_Inr_iff)
  have L1: "stk L1 = (if ready then [Lua_Function, Lua_Function, Lua_Table] else [Lua_Table]) @ stk L"
      and host: "host_keeps ho k k1"
    using push_function_stack[OF assms(1) push] host_steps_keep by blast+
  consider (early) "\<not> ready" | (check) "ready" "state = None" | (call) s where "ready" "state = Some s"
    by (cases state) auto
  then have "stk L2 = Lua_Table # stk L
    \<and> (case (state, result) of (Some s, Some r) \<Rightarrow> result_ok r | (None, None) \<Rightarrow> True | _ \<Rightarrow> False)
    \<and> host_keeps ho k k'"
  proof cases
    case early
    then have "k' = k1" "L2 = L1" "result = map_option ts_result state" using run by simp_all
    then show ?thesis using L1 host assms(2) early by (cases state) simp_all
  next
    case check
    then have "k' = k1" "L2 = lua_pop api 2 L1" "result = None" using run by simp_all
    then show ?thesis using L1 host check pop[of 2 L1] by simp
  next
    case (call s)
    then obtain r where c: "call_function api ops s L1 k1 = Inr (success, r, L2, k')" "result = Some r"
      using run by (auto simp: res_bind_eq_Inr_iff)
    have "stk L1 = Lua_Function # Lua_Function # Lua_Table # stk L" using L1 call by simp
    from call_function_outcome[OF assms(1) this assms(2)[OF call(2)] c(1)]
    show ?thesis using c(2) call host_keeps_trans[OF host] by simp
  qed
  then show ?thesis using L' pop[of 1 L2] by simp
qed

section \<open>The promises of an engine\<close>

lemma new_lua_engine_stack:
  "lua_laws ho api stk \<Longrightarrow> new_lua_engine api helpers script k = Inr e \<Longrightarrow> stk (eng_ctx e) = []"
  using new_context_stack by (auto simp: new_lua_engine_def new_engine_def res_bind_eq_Inr_iff must_eq_Inr_iff)

lemma lua_collect_garbage_stack:
  "lua_laws ho api stk \<Longrightarrow> lua_collect_garbage api script gcc n L = Inr (collected, L') \<Longrightarrow> stk L' = stk L"
  using stack_pushes(10,11) by (fastforce simp: lua_collect_garbage_def collect_garbage_def split: if_splits)

interpretation lua_engine: script_engine "lua_laws ho api stk" ho "\<lambda>script. run_on_engine api ops"
    "lua_collect_garbage api" "new_lua_engine api helpers" "lua_gettop api" "\<lambda>_ _. True"
  for ho :: "('w, 'h, 're) host_ops" and api :: "('l, 'd, 'w, 'h, 're) lua" and stk ops helpers
proof
  assume laws: "lua_laws ho api stk"
  note gettop = stack_reads(1)[OF laws]
  show "(case (state, result) of (Some s, Some r) \<Rightarrow> result_ok r | (None, None) \<Rightarrow> True | _ \<Rightarrow> False)
      \<and> host_keeps ho k k' \<and> (True \<longrightarrow> lua_gettop api L' = lua_gettop api L)"
    if "priv_ok state" and run: "run_on_engine api ops code name state L k = Inr (success, unknown, result, L', k')"
    for code name and state :: "'d task_state option" and L k success unknown result L' k'
  proof -
    have "\<And>s. state = Some s \<Longrightarrow> result_ok (ts_result s)"
      using that(1) by (auto simp: priv_ok_def task_ok_def)
    from run_on_engine_outcome[OF laws this run] show ?thesis using gettop by simp
  qed
  fix script :: "('re, 'l) cfg_script"
  show "lua_gettop api L' = lua_gettop api L" if "lua_collect_garbage api script gcc n L = Inr (collected, L')"
    for gcc n L collected L'
    using lua_collect_garbage_stack[OF laws that] gettop by simp
  show "lua_gettop api (eng_ctx e) = 0" if "new_lua_engine api helpers script k = Inr e" for k e
    using new_lua_engine_stack[OF laws that] gettop by simp
qed

section \<open>Properties\<close>


text \<open>
  C35: What \<open>cfg.script\<close> relies on when it calls \<open>execute_lua\<close>: the code, its function and the remote stay
  as they are, a task keeps its code and arguments and its result stays within the array; the cache
  of regexps and both trees of shared variables stay well formed, with exact counters; no failure of
  the task is forgotten; and every execution is counted, and counted as failed exactly when it failed.
\<close>

theorem execute_lua_contract:
  assumes "lua_laws ho api stk" "ws_faithful (ho_ws ho)" "priv_ok state" "host_ok ho (host_of ctx script state)"
    and "execute_lua api ops helpers sha256 malloc ctx script state code name gc tc
      = Inr (success, name', ctx', script', state')"
  shows "execute_keeps (execute_lua api ops helpers sha256 malloc)
    \<and> priv_ok state' \<and> host_ok ho (host_of ctx' script' state') \<and> fails_grow ctx ctx'
    \<and> sc_code script' = sc_code script \<and> sc_function script' = sc_function script \<and> sc_remote script' = sc_remote script
    \<and> ex_total (sc_stats script') = ex_total (sc_stats script) + 1
    \<and> ex_failed (sc_stats script') = ex_failed (sc_stats script) + (if success then 0 else 1)"
proof -
  have keeps: "execute_keeps (execute_lua api ops helpers sha256 malloc)"
    unfolding execute_lua_def by (rule lua_engine.execute_keeps[OF assms(1)])
  then show ?thesis
    using execute_keeps_script[OF keeps assms(5)] lua_engine.execute_host[OF assms(1-4) assms(5)[unfolded execute_lua_def]]
    by simp
qed

text \<open>
  C37: A script that returns a table with a string the workspace has no room for stops the process:
  \<open>post_execute\<close> leaves that string on the stack, so that the error handler, a function, is where
  \<open>execute_lua\<close> expects the \<open>varnish\<close> table, and setting a field of it raises an error outside any
  protected call.
\<close>

theorem lua_table_overflow_aborts:
  assumes "lua_laws ho api stk" "stk L = Lua_Table # Lua_Function # vs" "result_ok r"
    and "store_items api ops (h_ctx k) L (r\<lparr>nvalues := 0\<rparr>) = Inr (False, r', ctx', L')"
  shows "finish_call api ops True L k r = Inl Unprotected_Error"
proof -
  have r: "result_ok (r\<lparr>nvalues := 0\<rparr>)" using assms(3) by (simp add: result_ok_def)
  obtain x where L': "stk L' = x # Lua_Table # Lua_Function # vs" and r': "result_ok r'"
    using store_items_outcome[OF assms(1,2) r _ assms(4)] assms(2) by auto
  have post: "post_execute api ops (h_ctx k) L r = Inr (False, r', ctx', L')"
    using assms(4) stack_reads(2)[OF assms(1,2)] by (simp add: post_execute_def)
  obtain r1 where r1: "put_value 0 RESULT_ERROR r' = Inr r1"
    using r' by (simp add: put_value_iff result_ok_def MAX_RESULT_VALUES_def flip: length_greater_0_conv)
  have "stk (lua_pop api 2 L') = Lua_Function # vs"
    using stack_pushes(2)[OF assms(1), of 2 L'] L' by simp
  then show ?thesis
    using clear_host_fields_function[OF assms(1)] by (simp add: finish_call_def post r1)
qed

section \<open>Witnesses\<close>

lemmas list_lua_eval = list_lua_def ll_push_def ll_drop_def ll_at_def ll_field_def

definition sample_helpers :: string where
  "sample_helpers = ''h''"

definition sample_lua_script :: "(string, list_state) cfg_script" where
  "sample_lua_script = new_script ''s'' sample_args
     \<lparr>sa_type = Some ENGINE_TYPE_LUA, sa_max_engines = 1, sa_max_cycles = 0, sa_min_gc_cycles = 1,
      sa_enable_sandboxing = True, sa_lua_gc_step_size = 1, sa_lua_remove_loadfile_function = True,
      sa_lua_remove_dotfile_function = True, sa_lua_load_package_lib = True, sa_lua_load_io_lib = False,
      sa_lua_load_os_lib = False\<rparr> ENGINE_TYPE_LUA"

definition sample_task :: "int task_state" where
  "sample_task = vmod_script_init None (Some ''return true'')"

lemma list_lua_libs: "load_lua_libs (list_lua answer item) cfg L = Inr L"
  by (simp add: load_lua_libs_def load_lua_lib_def list_lua_eval)

lemma list_lua_context:
  "new_context (list_lua answer item) helpers script k = Inr \<lparr>ll_stack = [], ll_known = True\<rparr>"
  unfolding new_context_def list_lua_libs
  by (simp add: remove_unsupported_lua_functions_def remove_unsupported_lua_function_def varnish_commands_def
      varnish_shared_commands_def add_lua_command_def run_lua_program_def enable_lua_protections_def list_lua_eval)

lemma list_lua_push:
  "name \<noteq> ''varnish'' \<Longrightarrow> push_function (list_lua answer item) code name \<lparr>ll_stack = [], ll_known = True\<rparr> k
    = Inr (True, False, \<lparr>ll_stack = [Lua_Function, Lua_Function, Lua_Table], ll_known = True\<rparr>, k)"
  by (simp add: push_function_def list_lua_eval)

lemma sample_call:
  "call_function (list_lua (Lua_Boolean True) item) ops sample_task
      \<lparr>ll_stack = [Lua_Function, Lua_Function, Lua_Table], ll_known = True\<rparr> k
    = Inr (True, empty_result\<lparr>result_values := (result_values empty_result)[0 := RESULT_BOOLEAN True]\<rparr>,
        \<lparr>ll_stack = [Lua_Table], ll_known = True\<rparr>, k)"
  by (simp add: call_function_def set_host_fields_def clear_host_fields_def host_fields_def set_lua_argv_def
      finish_call_def post_execute_def put_value_def sample_task_def vmod_script_init_def get_task_state_def
      new_task_state_def reset_task_state_def empty_result_def MAX_RESULT_VALUES_def list_lua_eval Let_def)

lemma sample_lua_run:
  "\<exists>name' ctx' script' s'. execute_lua (list_lua (Lua_Boolean True) Lua_Nil) counting_ws sample_helpers id (\<lambda>p. 7)
      (h_ctx sample_host) sample_lua_script (Some sample_task) ''return true'' None False False
    = Inr (True, name', ctx', script', Some s') \<and> result_values (ts_result s') ! 0 = RESULT_BOOLEAN True"
proof -
  let ?api = "list_lua (Lua_Boolean True) Lua_Nil :: (list_state, int, nat, string, string) lua"
  let ?e = "(new_engine \<lparr>ll_stack = [], ll_known = True\<rparr>)\<lparr>eng_memory := 7\<rparr>"
  have made: "new_lua_engine ?api sample_helpers sample_lua_script k = Inr ?e" for k
    by (simp add: new_lua_engine_def list_lua_context get_lua_engine_used_memory_def sample_lua_script_def new_script_def)
       (simp add: list_lua_def)
  have lock: "lock_turn (sc_max_engines sample_lua_script) (sc_max_cycles sample_lua_script) (Inr ?e) 7 (sc_pool sample_lua_script)
      = Inr (Some 7, empty_pool\<lparr>pool_heap := [7 \<mapsto> ?e], pool_total := 1, pool_busy := [7], pool_n := 1\<rparr>)"
    by (simp add: lock_turn_def lock_scan.simps sample_lua_script_def new_script_def empty_pool_def to_unsigned_def)
  have run: "run_on_engine ?api counting_ws code name (Some sample_task) \<lparr>ll_stack = [], ll_known = True\<rparr> k
      = Inr (True, False, Some (empty_result\<lparr>result_values := (result_values empty_result)[0 := RESULT_BOOLEAN True]\<rparr>),
          \<lparr>ll_stack = [], ll_known = True\<rparr>, k)" if "name \<noteq> ''varnish''" for code name k
    by (simp add: run_on_engine_def list_lua_push[OF that] sample_call) (simp add: list_lua_eval)
  have name: "new_function_name id ''return true'' \<noteq> ''varnish''"
    by (simp add: new_function_name_def)
  show ?thesis
    unfolding execute_lua_def execute_script_def Let_def made lock
    by (simp add: execute_on_def new_engine_def run[OF name] lua_collect_garbage_def collect_garbage_def sample_lua_script_def
        new_script_def to_unsigned_def unlock_engine_def put_state_def empty_result_def MAX_RESULT_VALUES_def)
qed

lemma sample_lua_ready:
  "priv_ok (Some sample_task)" "pool_ok (sc_max_engines sample_lua_script) (sc_pool sample_lua_script)"
  "unused_address (sc_max_cycles sample_lua_script) (sc_pool sample_lua_script) 7"
  "engines_clean (get_lua_engine_stack_size api) (sc_pool sample_lua_script)"
  "host_ok sample_host_ops (host_of (h_ctx sample_host) sample_lua_script (Some sample_task))"
proof -
  show "priv_ok (Some sample_task)"
    using task_ok_init[of None] by (simp add: priv_ok_def sample_task_def)
  have pool: "sc_pool sample_lua_script = empty_pool" by (simp add: sample_lua_script_def new_script_def)
  then show "pool_ok (sc_max_engines sample_lua_script) (sc_pool sample_lua_script)"
    by (simp add: pool_ok_empty)
  show "unused_address (sc_max_cycles sample_lua_script) (sc_pool sample_lua_script) 7" "engines_clean (get_lua_engine_stack_size api) (sc_pool sample_lua_script)"
    unfolding pool by (simp_all add: unused_address_def lock_scan.simps empty_pool_def engines_clean_def)
  show "host_ok sample_host_ops (host_of (h_ctx sample_host) sample_lua_script (Some sample_task))"
    by (simp add: host_ok_def host_of_def sample_lua_script_def new_script_def sample_host_ops_def regexps_ok_def
        shared_ok_def vrbt_ok_def rb_tree_def sample_task_def vmod_script_init_def get_task_state_def
        new_task_state_def reset_task_state_def Let_def)
qed


theorem execute_lua_contract_witness:
  "\<exists>name' ctx' script' state'. execute_lua (list_lua (Lua_Boolean True) Lua_Nil) counting_ws sample_helpers id (\<lambda>p. 7)
      (h_ctx sample_host) sample_lua_script (Some sample_task) ''return true'' None False False
      = Inr (True, name', ctx', script', state')
    \<and> ex_total (sc_stats script') = 1 \<and> ex_failed (sc_stats script') = 0"
proof -
  obtain name' ctx' script' s' where run: "execute_lua (list_lua (Lua_Boolean True) Lua_Nil) counting_ws sample_helpers id
      (\<lambda>p. 7) (h_ctx sample_host) sample_lua_script (Some sample_task) ''return true'' None False False
      = Inr (True, name', ctx', script', Some s')"
    using sample_lua_run by blast
  have "ex_total (sc_stats sample_lua_script) = 0" "ex_failed (sc_stats sample_lua_script) = 0"
    by (simp_all add: sample_lua_script_def new_script_def)
  then show ?thesis
    using run execute_lua_contract[OF list_lua_laws sample_host_ok(3) sample_lua_ready(1,5) run] by auto
qed

theorem lua_table_overflow_aborts_witness:
  "finish_call (list_lua Lua_Nil (Lua_String ''abc'')) counting_ws True
      \<lparr>ll_stack = [Lua_Table, Lua_Function, Lua_Table], ll_known = True\<rparr>
      (sample_host\<lparr>h_ctx := (h_ctx sample_host)\<lparr>ctx_ws := 3\<rparr>\<rparr>) empty_result = Inl Unprotected_Error"
proof -
  let ?api = "list_lua Lua_Nil (Lua_String ''abc'') :: (list_state, int, nat, string, string) lua"
  let ?L = "\<lparr>ll_stack = [Lua_Table, Lua_Function, Lua_Table], ll_known = True\<rparr>"
  let ?k = "sample_host\<lparr>h_ctx := (h_ctx sample_host)\<lparr>ctx_ws := 3\<rparr>\<rparr>"
  obtain r' ctx' L' where "store_items ?api counting_ws (h_ctx ?k) ?L (empty_result\<lparr>nvalues := 0\<rparr>) = Inr (False, r', ctx', L')"
    unfolding store_items.simps[of ?api counting_ws "h_ctx ?k" ?L]
    by (simp add: list_lua_eval store_item_def store_string_def copy_or_fail_def counting_ws_def sample_host_def
        put_value_def empty_result_def MAX_RESULT_VALUES_def)
  moreover have "result_ok (empty_result :: int result)"
    by (simp add: result_ok_def empty_result_def)
  ultimately show ?thesis
    using lua_table_overflow_aborts[OF list_lua_laws, where L = ?L and k = ?k] by simp
qed

end
