(* ===== verification/Lua_Live.thy ===== *)
theory Lua_Live
  imports Lua Script_Live
begin

text \<open>
  When an execution on a Lua engine returns: the assertions and the unprotected calls of \<open>script_lua.c\<close>
  never stop the process as long as scripts end and leave the \<open>varnish\<close> table as they found it, no
  metamethod of a table the host touches raises an error, and the workspace has room. \<open>lua_undisturbed\<close>
  says what that means for the virtual machine, one call of its API at a time; \<open>good\<close> are the states of a
  set-up, undisturbed engine.
\<close>

section \<open>Scripts that leave the host alone\<close>

text \<open>No call of the host, running scripts included, takes a good state to another one.\<close>

definition globals_kept :: "('l, 'd, 'k) lua_api \<Rightarrow> ('l \<Rightarrow> bool) \<Rightarrow> bool" where
  "globals_kept api good \<longleftrightarrow> (\<forall>L. good L \<longrightarrow>
     (\<forall>n. good (lua_pop api n L)) \<and> good (lua_pushnil api L) \<and> (\<forall>n. good (lua_pushnumber api n L))
     \<and> (\<forall>s. good (lua_pushstring api s L)) \<and> good (lua_newtable api L) \<and> (\<forall>p. good (lua_newuserdata api p L))
     \<and> (\<forall>i. good (snd (lua_tostring api i L))) \<and> (\<forall>i j. good (lua_rawseti api i j L))
     \<and> good (lua_gc_collect api L) \<and> (\<forall>n. good (lua_gc_step api n L))
     \<and> (\<forall>s c. good (snd (luaL_loadbuffer api s c L)))
     \<and> (\<forall>n L'. lua_getglobal api n L = Inr L' \<longrightarrow> good L')
     \<and> (\<forall>n L'. n \<noteq> ''varnish'' \<longrightarrow> lua_setglobal api n L = Inr L' \<longrightarrow> good L')
     \<and> (\<forall>i n L'. lua_getfield api i n L = Inr L' \<longrightarrow> good L')
     \<and> (\<forall>i n L'. n \<in> fst ` set host_fields \<longrightarrow> lua_setfield api i n L = Inr L' \<longrightarrow> good L')
     \<and> (\<forall>i L'. lua_gettable api i L = Inr L' \<longrightarrow> good L')
     \<and> (\<forall>n e k ok L' k'. lua_pcall api 0 n e L k = Inr (ok, L', k') \<longrightarrow> good L'))"

text \<open>
  In a good state globals and tables can be read and written, protected calls end, and \<open>varnish\<close> is a
  table with the function \<open>_error_handler\<close>.
\<close>

definition host_readable :: "('l, 'd, 'k) lua_api \<Rightarrow> ('l \<Rightarrow> 'd lua_value list) \<Rightarrow> ('l \<Rightarrow> bool) \<Rightarrow> bool" where
  "host_readable api stk good \<longleftrightarrow> (\<forall>L. good L \<longrightarrow>
     (\<forall>n. returns (lua_getglobal api n L)) \<and> (\<forall>n. stk L \<noteq> [] \<longrightarrow> returns (lua_setglobal api n L))
     \<and> (\<forall>i n. i < length (stk L) \<longrightarrow> stk L ! i = Lua_Table \<longrightarrow>
         returns (lua_getfield api (-1 - int i) n L) \<and> returns (lua_setfield api (-1 - int i) n L)
         \<and> returns (lua_gettable api (-1 - int i) L))
     \<and> (\<forall>n e k vs. stk L = Lua_Function # vs \<longrightarrow> returns (lua_pcall api 0 n e L k))
     \<and> (\<forall>L1. lua_getglobal api ''varnish'' L = Inr L1 \<longrightarrow> stk L1 = Lua_Table # stk L
         \<and> (\<forall>L2. lua_getfield api (-1) ''_error_handler'' L1 = Inr L2 \<longrightarrow> stk L2 = Lua_Function # stk L1)))"

text \<open>The definition of a function defines it.\<close>

definition functions_defined :: "('l, 'd, 'k) lua_api \<Rightarrow> ('l \<Rightarrow> 'd lua_value list) \<Rightarrow> ('l \<Rightarrow> bool) \<Rightarrow> bool" where
  "functions_defined api stk good \<longleftrightarrow>
     (\<forall>name code chunk L L1 k L2 k2 L3. good L \<and> name \<noteq> ''varnish'' \<and>
         luaL_loadbuffer api (function_source name code) chunk L = (True, L1) \<and>
         lua_pcall api 0 0 0 L1 k = Inr (True, L2, k2) \<and>
         lua_getglobal api name L2 = Inr L3 \<longrightarrow> stk L3 = Lua_Function # stk L2)"

text \<open>
  A new engine. The calls that set it up return, and none of them but the ones below touches the
  global \<open>varnish\<close> or a field \<open>shared\<close>.
\<close>

definition set_up_calls :: "('l, 'd, 'k) lua_api \<Rightarrow> ('l \<Rightarrow> 'd lua_value list) \<Rightarrow> ('l \<Rightarrow> bool) \<Rightarrow> bool" where
  "set_up_calls api stk P \<longleftrightarrow> (\<forall>L. P L \<longrightarrow>
     (\<forall>n. P (lua_pop api n L)) \<and> P (lua_pushnil api L) \<and> (\<forall>b. P (lua_pushboolean api b L))
     \<and> (\<forall>s. P (lua_pushstring api s L)) \<and> (\<forall>f. P (lua_pushcfunction api f L)) \<and> P (lua_newtable api L)
     \<and> (\<forall>n f. ends (luaL_requiref api n f L) P)
     \<and> (\<forall>s vs. stk L = s # Lua_Function # vs \<longrightarrow> ends (lua_call api 1 0 L) P)
     \<and> (\<forall>n. ends (lua_getglobal api n L) P)
     \<and> (\<forall>n. n \<noteq> ''varnish'' \<longrightarrow> stk L \<noteq> [] \<longrightarrow> ends (lua_setglobal api n L) P)
     \<and> (\<forall>n vs. stk L = Lua_Table # vs \<longrightarrow> ends (lua_getfield api (-1) n L) P)
     \<and> (\<forall>n u vs. n \<noteq> ''shared'' \<longrightarrow> stk L = u # Lua_Table # vs \<longrightarrow> ends (lua_setfield api (-2) n L) P))"

text \<open>
  \<open>fresh\<close>: being set up; \<open>shaped\<close>: the table on top has a table \<open>shared\<close>; \<open>named\<close>: such a table is the
  global \<open>varnish\<close>. The programs of the host compile, run, and leave a good engine.
\<close>

definition engines_made ::
  "('l, 'd, 'w, 'h, 're) lua \<Rightarrow> ('l \<Rightarrow> 'd lua_value list) \<Rightarrow> string \<Rightarrow> ('l \<Rightarrow> bool) \<Rightarrow> ('l \<Rightarrow> bool) \<Rightarrow> ('l \<Rightarrow> bool) \<Rightarrow> ('l \<Rightarrow> bool) \<Rightarrow> bool" where
  "engines_made api stk helpers fresh shaped named good \<longleftrightarrow>
     set_up_calls api stk fresh \<and> set_up_calls api stk named \<and> fresh (luaL_newstate api)
     \<and> (\<forall>L vs. fresh L \<longrightarrow> stk L = Lua_Table # Lua_Table # vs \<longrightarrow> ends (lua_setfield api (-2) ''shared'' L) shaped)
     \<and> (\<forall>L vs n f. shaped L \<longrightarrow> stk L = Lua_Table # vs \<longrightarrow> n \<noteq> ''shared'' \<longrightarrow>
         ends (lua_setfield api (-2) n (lua_pushcfunction api f L)) shaped)
     \<and> (\<forall>L vs. shaped L \<longrightarrow> stk L = Lua_Table # vs \<longrightarrow> ends (lua_setglobal api ''varnish'' L) named)
     \<and> (\<forall>L L1 L2. named L \<longrightarrow> lua_getglobal api ''varnish'' L = Inr L1 \<longrightarrow> stk L1 = Lua_Table # stk L
         \<and> (lua_getfield api (-1) ''shared'' L1 = Inr L2 \<longrightarrow> stk L2 = Lua_Table # stk L1))
     \<and> (\<forall>L k. named L \<longrightarrow> ends (run_lua_program api helpers ''@helpers'' k L) good)
     \<and> (\<forall>L k. good L \<longrightarrow> ends (enable_lua_protections api k L) good)"

definition lua_undisturbed :: "('l, 'd, 'w, 'h, 're) lua \<Rightarrow> ('l \<Rightarrow> 'd lua_value list) \<Rightarrow> ('l \<Rightarrow> bool) \<Rightarrow> string \<Rightarrow> bool" where
  "lua_undisturbed api stk good helpers \<longleftrightarrow> globals_kept api good \<and> host_readable api stk good
     \<and> functions_defined api stk good \<and> (\<exists>fresh shaped named. engines_made api stk helpers fresh shaped named good)"

lemma good_kept:
  assumes "lua_undisturbed api stk good helpers" "good L"
  shows "good (lua_pop api n L)" "good (lua_pushnil api L)" "good (lua_pushnumber api m L)"
    "good (lua_pushstring api s L)" "good (lua_newtable api L)" "good (lua_newuserdata api p L)"
    "good (snd (lua_tostring api i L))" "good (lua_rawseti api i j L)"
    "good (lua_gc_collect api L)" "good (lua_gc_step api g L)" "good (snd (luaL_loadbuffer api t c L))"
    "lua_getglobal api x L = Inr L' \<Longrightarrow> good L'"
    "x \<noteq> ''varnish'' \<Longrightarrow> lua_setglobal api x L = Inr L' \<Longrightarrow> good L'"
    "lua_getfield api i x L = Inr L' \<Longrightarrow> good L'"
    "x \<in> fst ` set host_fields \<Longrightarrow> lua_setfield api i x L = Inr L' \<Longrightarrow> good L'"
    "lua_gettable api i L = Inr L' \<Longrightarrow> good L'"
    "lua_pcall api 0 n e L k = Inr (ok, L', k') \<Longrightarrow> good L'"
proof -
  have "globals_kept api good" using assms(1) by (simp add: lua_undisturbed_def)
  note kept = this[unfolded globals_kept_def, THEN spec[of _ L], THEN mp, OF assms(2)]
  show "good (lua_pop api n L)" "good (lua_pushnil api L)" "good (lua_pushnumber api m L)"
    "good (lua_pushstring api s L)" "good (lua_newtable api L)" "good (lua_newuserdata api p L)"
    "good (snd (lua_tostring api i L))" "good (lua_rawseti api i j L)"
    "good (lua_gc_collect api L)" "good (lua_gc_step api g L)" "good (snd (luaL_loadbuffer api t c L))"
    using kept by simp_all
  have parts: "\<forall>n L'. lua_getglobal api n L = Inr L' \<longrightarrow> good L'"
    "\<forall>n L'. n \<noteq> ''varnish'' \<longrightarrow> lua_setglobal api n L = Inr L' \<longrightarrow> good L'"
    "\<forall>i n L'. lua_getfield api i n L = Inr L' \<longrightarrow> good L'"
    "\<forall>i n L'. n \<in> fst ` set host_fields \<longrightarrow> lua_setfield api i n L = Inr L' \<longrightarrow> good L'"
    "\<forall>i L'. lua_gettable api i L = Inr L' \<longrightarrow> good L'"
    "\<forall>n e k ok L' k'. lua_pcall api 0 n e L k = Inr (ok, L', k') \<longrightarrow> good L'"
    using kept by - (elim conjE, assumption)+
  show "lua_getglobal api x L = Inr L' \<Longrightarrow> good L'" by (rule parts(1)[rule_format])
  show "x \<noteq> ''varnish'' \<Longrightarrow> lua_setglobal api x L = Inr L' \<Longrightarrow> good L'" by (rule parts(2)[THEN spec, THEN spec, THEN mp, THEN mp])
  show "lua_getfield api i x L = Inr L' \<Longrightarrow> good L'" by (rule parts(3)[rule_format])
  show "x \<in> fst ` set host_fields \<Longrightarrow> lua_setfield api i x L = Inr L' \<Longrightarrow> good L'"
    by (rule parts(4)[THEN spec, THEN spec, THEN spec, THEN mp, THEN mp])
  show "lua_gettable api i L = Inr L' \<Longrightarrow> good L'" by (rule parts(5)[rule_format])
  show "lua_pcall api 0 n e L k = Inr (ok, L', k') \<Longrightarrow> good L'" by (rule parts(6)[rule_format])
qed

lemma host_read:
  assumes "lua_undisturbed api stk good helpers" "good L"
  shows "returns (lua_getglobal api n L)" "stk L \<noteq> [] \<Longrightarrow> returns (lua_setglobal api n L)"
    and "stk L = Lua_Table # vs \<Longrightarrow> returns (lua_getfield api (-1) n L)"
    and "stk L = u # Lua_Table # vs \<Longrightarrow> returns (lua_setfield api (-2) n L) \<and> returns (lua_gettable api (-2) L)"
    and "stk L = u # v # w # Lua_Table # vs \<Longrightarrow> returns (lua_setfield api (-4) n L)"
    and "stk L = Lua_Function # vs \<Longrightarrow> returns (lua_pcall api 0 m e L k)"
    and "lua_getglobal api ''varnish'' L = Inr L1 \<Longrightarrow> stk L1 = Lua_Table # stk L"
    and "lua_getglobal api ''varnish'' L = Inr L1 \<Longrightarrow> lua_getfield api (-1) ''_error_handler'' L1 = Inr L2
      \<Longrightarrow> stk L2 = Lua_Function # stk L1"
proof -
  have "host_readable api stk good" using assms(1) by (simp add: lua_undisturbed_def)
  note read = this[unfolded host_readable_def, THEN spec[of _ L], THEN mp, OF assms(2)]
  have parts: "\<forall>n. returns (lua_getglobal api n L)" "\<forall>n. stk L \<noteq> [] \<longrightarrow> returns (lua_setglobal api n L)"
    "\<forall>i n. i < length (stk L) \<longrightarrow> stk L ! i = Lua_Table \<longrightarrow>
         returns (lua_getfield api (-1 - int i) n L) \<and> returns (lua_setfield api (-1 - int i) n L)
         \<and> returns (lua_gettable api (-1 - int i) L)"
    "\<forall>n e k vs. stk L = Lua_Function # vs \<longrightarrow> returns (lua_pcall api 0 n e L k)"
    "\<forall>L1. lua_getglobal api ''varnish'' L = Inr L1 \<longrightarrow> stk L1 = Lua_Table # stk L
         \<and> (\<forall>L2. lua_getfield api (-1) ''_error_handler'' L1 = Inr L2 \<longrightarrow> stk L2 = Lua_Function # stk L1)"
    using read by - (elim conjE, assumption)+
  show "returns (lua_getglobal api n L)" "stk L \<noteq> [] \<Longrightarrow> returns (lua_setglobal api n L)"
    and "stk L = Lua_Function # vs \<Longrightarrow> returns (lua_pcall api 0 m e L k)"
    using parts(1,2,4) by blast+
  show "lua_getglobal api ''varnish'' L = Inr L1 \<Longrightarrow> stk L1 = Lua_Table # stk L"
    and "lua_getglobal api ''varnish'' L = Inr L1 \<Longrightarrow> lua_getfield api (-1) ''_error_handler'' L1 = Inr L2
      \<Longrightarrow> stk L2 = Lua_Function # stk L1"
    using parts(5) by simp_all
  note at = parts(3)[THEN spec, THEN spec[of _ n], THEN mp, THEN mp]
  show "stk L = Lua_Table # vs \<Longrightarrow> returns (lua_getfield api (-1) n L)" using at[of 0] by simp
  show "stk L = u # Lua_Table # vs \<Longrightarrow> returns (lua_setfield api (-2) n L) \<and> returns (lua_gettable api (-2) L)"
    using at[of 1] by simp
  show "stk L = u # v # w # Lua_Table # vs \<Longrightarrow> returns (lua_setfield api (-4) n L)"
    using at[of 3] by (simp add: eval_nat_numeral)
qed

lemma function_defined:
  assumes "lua_undisturbed api stk good helpers" "good L" "name \<noteq> ''varnish''"
    and "luaL_loadbuffer api (function_source name code) chunk L = (True, L1)"
    and "lua_pcall api 0 0 0 L1 k = Inr (True, L2, k2)" "lua_getglobal api name L2 = Inr L3"
  shows "stk L3 = Lua_Function # stk L2"
proof -
  have "functions_defined api stk good" using assms(1) by (simp add: lua_undisturbed_def)
  then show ?thesis using assms(2-6) unfolding functions_defined_def by metis
qed

section \<open>A new engine\<close>

lemma set_up_D:
  assumes "set_up_calls api stk P" "P L"
  shows "P (lua_pop api n L)" "P (lua_pushnil api L)" "P (lua_pushboolean api b L)" "P (lua_pushstring api s L)"
    "P (lua_pushcfunction api f L)" "P (lua_newtable api L)" "ends (luaL_requiref api x g L) P"
    "stk L = u # Lua_Function # vs \<Longrightarrow> ends (lua_call api 1 0 L) P" "ends (lua_getglobal api x L) P"
    "x \<noteq> ''varnish'' \<Longrightarrow> stk L \<noteq> [] \<Longrightarrow> ends (lua_setglobal api x L) P"
    "stk L = Lua_Table # vs \<Longrightarrow> ends (lua_getfield api (-1) x L) P"
    "x \<noteq> ''shared'' \<Longrightarrow> stk L = u # Lua_Table # vs \<Longrightarrow> ends (lua_setfield api (-2) x L) P"
  using assms unfolding set_up_calls_def by simp_all

lemma load_lua_libs_ends:
  assumes "lua_laws ho api stk" "set_up_calls api stk P" "P L"
  shows "ends (load_lua_libs api cfg L) P"
  unfolding load_lua_libs_def
proof (rule ends_fold)
  fix nf :: "string \<times> string" and L assume "P L"
  note calls = set_up_D[OF assms(2)]
  obtain n f where nf: "nf = (n, f)" by (cases nf)
  have old: "ends (lua_call api 1 0 (lua_pushstring api (Some n) (lua_pushcfunction api (Library f) L))) P"
    by (rule calls(8)[OF calls(4)[OF calls(5)[OF \<open>P L\<close>]]])
       (simp add: stack_pushes(6,7)[OF assms(1)])
  have "ends (load_lua_lib api n f L) P"
    using old calls(1) calls(7)[OF \<open>P L\<close>, of n "Library f"] by (auto simp: load_lua_lib_def intro: ends_bind)
  then show "ends ((case nf of (name, f) \<Rightarrow> load_lua_lib api name f) L) P" by (simp add: nf)
qed (rule assms(3))

lemma remove_functions_ends:
  assumes "lua_laws ho api stk" "set_up_calls api stk P" "P L"
  shows "ends (remove_unsupported_lua_functions api cfg L) P"
  unfolding remove_unsupported_lua_functions_def remove_unsupported_lua_function_def
proof (rule ends_fold)
  fix name L
  assume n: "name \<in> set ((if \<not> fn_loadfile cfg then [''loadfile''] else []) @ (if \<not> fn_dotfile cfg then [''dotfile''] else []))"
    and "P L"
  show "ends (lua_setglobal api name (lua_pushnil api L)) P"
    by (rule set_up_D(10)[OF assms(2) set_up_D(2)[OF assms(2) \<open>P L\<close>]])
       (use n stack_pushes(3)[OF assms(1)] in \<open>auto split: if_splits\<close>)
qed (rule assms(3))

lemma engines_made_D:
  assumes "engines_made api stk helpers fresh shaped named good"
  shows "set_up_calls api stk fresh" "set_up_calls api stk named" "fresh (luaL_newstate api)"
    and "\<forall>L vs. fresh L \<longrightarrow> stk L = Lua_Table # Lua_Table # vs \<longrightarrow> ends (lua_setfield api (-2) ''shared'' L) shaped"
    "\<forall>L vs n f. shaped L \<longrightarrow> stk L = Lua_Table # vs \<longrightarrow> n \<noteq> ''shared'' \<longrightarrow>
         ends (lua_setfield api (-2) n (lua_pushcfunction api f L)) shaped"
    "\<forall>L vs. shaped L \<longrightarrow> stk L = Lua_Table # vs \<longrightarrow> ends (lua_setglobal api ''varnish'' L) named"
    "\<forall>L L1 L2. named L \<longrightarrow> lua_getglobal api ''varnish'' L = Inr L1 \<longrightarrow> stk L1 = Lua_Table # stk L
         \<and> (lua_getfield api (-1) ''shared'' L1 = Inr L2 \<longrightarrow> stk L2 = Lua_Table # stk L1)"
    "\<forall>L k. named L \<longrightarrow> ends (run_lua_program api helpers ''@helpers'' k L) good"
    "\<forall>L k. good L \<longrightarrow> ends (enable_lua_protections api k L) good"
  using assms unfolding engines_made_def by - (elim conjE, assumption)+

lemma add_commands_end:
  assumes "lua_laws ho api stk" "P L" "stk L = Lua_Table # vs"
    and "\<And>nc L. nc \<in> set cs \<Longrightarrow> P L \<Longrightarrow> stk L = Lua_Table # vs \<Longrightarrow> ends (add_lua_command api nc L) P"
  shows "ends (res_fold (add_lua_command api) cs L) (\<lambda>L. P L \<and> stk L = Lua_Table # vs)"
proof (rule ends_fold)
  fix nc L assume nc: "nc \<in> set cs" and L: "P L \<and> stk L = Lua_Table # vs"
  then have "ends (add_lua_command api nc L) P" using assms(4) by blast
  then show "ends (add_lua_command api nc L) (\<lambda>L. P L \<and> stk L = Lua_Table # vs)"
    using stack_tables(4)[OF assms(1)] L by (fastforce simp: ends_def add_lua_command_def stack_pushes(7)[OF assms(1)])
qed (simp add: assms(2,3))

text \<open>The table \<open>varnish\<close> with its commands, as far as \<open>lua_setglobal\<close>.\<close>

lemma varnish_table_ends:
  assumes "lua_laws ho api stk" "engines_made api stk helpers fresh shaped named good" "fresh L" "stk L = []"
  obtains L3 L4 L5 L6 where
    "lua_setfield api (-2) ''engine'' (lua_newtable api (lua_newtable api L)) = Inr L3"
    and "lua_setfield api (-2) ''shared'' (lua_newtable api L3) = Inr L4"
    and "res_fold (add_lua_command api) varnish_commands L4 = Inr L5"
    and "lua_setglobal api ''varnish'' L5 = Inr L6" "named L6"
proof -
  note pushes = stack_pushes[OF assms(1)] and tables = stack_tables[OF assms(1)]
  note made = engines_made_D[OF assms(2)]
  note fresh = set_up_D[OF made(1)]
  have "ends (lua_setfield api (-2) ''engine'' (lua_newtable api (lua_newtable api L))) fresh"
    by (rule fresh(12)[OF fresh(6)[OF fresh(6)[OF assms(3)]]]) (simp_all add: pushes(8))
  then obtain L3 where L3: "lua_setfield api (-2) ''engine'' (lua_newtable api (lua_newtable api L)) = Inr L3" "fresh L3"
    by (auto simp: ends_def)
  have s3: "stk L3 = [Lua_Table]" using tables(4)[OF L3(1)] assms(4) by (simp add: pushes(8))
  have "ends (lua_setfield api (-2) ''shared'' (lua_newtable api L3)) shaped"
    using made(4) fresh(6)[OF L3(2)] s3 by (simp add: pushes(8))
  then obtain L4 where L4: "lua_setfield api (-2) ''shared'' (lua_newtable api L3) = Inr L4" "shaped L4"
    by (auto simp: ends_def)
  have s4: "stk L4 = [Lua_Table]" using tables(4)[OF L4(1)] s3 by (simp add: pushes(8))
  have "ends (res_fold (add_lua_command api) varnish_commands L4) (\<lambda>L. shaped L \<and> stk L = [Lua_Table])"
  proof (rule add_commands_end[where P = shaped, OF assms(1) L4(2) s4])
    fix nc L assume L: "nc \<in> set varnish_commands" "shaped L" "stk L = [Lua_Table]"
    then have "fst nc \<noteq> ''shared''" by (auto simp: varnish_commands_def)
    then show "ends (add_lua_command api nc L) shaped" using made(5) L unfolding add_lua_command_def by blast
  qed
  then obtain L5 where L5: "res_fold (add_lua_command api) varnish_commands L4 = Inr L5" "shaped L5" "stk L5 = [Lua_Table]"
    by (auto simp: ends_def)
  obtain L6 where "lua_setglobal api ''varnish'' L5 = Inr L6" "named L6"
    using made(6) L5(2,3) unfolding ends_def by blast
  then show thesis using that L3(1) L4(1) L5(1) by blast
qed

text \<open>The table \<open>varnish.shared\<close>, read back out of the global.\<close>

lemma shared_table_ends:
  assumes "lua_laws ho api stk" "engines_made api stk helpers fresh shaped named good" "named L"
  obtains L7 L8 L9 L10 vs where
    "lua_getglobal api ''varnish'' L = Inr L7" "stk L7 = Lua_Table # vs"
    and "lua_getfield api (-1) ''shared'' L7 = Inr L8" "stk L8 = Lua_Table # stk L7"
    and "lua_setfield api (-2) ''_is_locked'' (lua_pushboolean api False L8) = Inr L9"
    and "res_fold (add_lua_command api) varnish_shared_commands L9 = Inr L10" "named L10"
proof -
  note pushes = stack_pushes[OF assms(1)] and tables = stack_tables[OF assms(1)]
  note made = engines_made_D[OF assms(2)]
  note named = set_up_D[OF made(2)]
  obtain L7 where L7: "lua_getglobal api ''varnish'' L = Inr L7" "named L7"
    using named(9)[OF assms(3)] by (auto simp: ends_def)
  have s7: "stk L7 = Lua_Table # stk L" using made(7) assms(3) L7(1) by blast
  obtain L8 where L8: "lua_getfield api (-1) ''shared'' L7 = Inr L8" "named L8"
    using named(11)[OF L7(2) s7] unfolding ends_def by blast
  have s8: "stk L8 = Lua_Table # stk L7" using made(7) assms(3) L7(1) L8(1) by blast
  have "ends (lua_setfield api (-2) ''_is_locked'' (lua_pushboolean api False L8)) named"
    by (rule named(12)[OF named(3)[OF L8(2)]]) (simp_all add: pushes(4) s8)
  then obtain L9 where L9: "lua_setfield api (-2) ''_is_locked'' (lua_pushboolean api False L8) = Inr L9" "named L9"
    by (auto simp: ends_def)
  have s9: "stk L9 = Lua_Table # stk L7" using tables(4)[OF L9(1)] s8 by (simp add: pushes(4))
  have "ends (res_fold (add_lua_command api) varnish_shared_commands L9) (\<lambda>L. named L \<and> stk L = Lua_Table # stk L7)"
  proof (rule add_commands_end[where P = named, OF assms(1) L9(2) s9])
    fix nc L assume L: "nc \<in> set varnish_shared_commands" "named L" "stk L = Lua_Table # stk L7"
    then have "fst nc \<noteq> ''shared''" by (auto simp: varnish_shared_commands_def)
    then show "ends (add_lua_command api nc L) named"
      unfolding add_lua_command_def using named(12)[OF named(5)] L by (simp add: pushes(7))
  qed
  then obtain L10 where "res_fold (add_lua_command api) varnish_shared_commands L9 = Inr L10" "named L10"
    by (auto simp: ends_def)
  then show thesis using that L7(1) L8(1) L9(1) s7 s8 by blast
qed

lemma new_context_ends:
  assumes "lua_laws ho api stk" "lua_undisturbed api stk good helpers"
  shows "ends (new_context api helpers script k) good"
proof -
  obtain fresh shaped named where eng: "engines_made api stk helpers fresh shaped named good"
    using assms(2) by (auto simp: lua_undisturbed_def)
  note made = engines_made_D[OF eng]
  obtain L1 where L1: "load_lua_libs api (sc_lua script) (luaL_newstate api) = Inr L1" "fresh L1"
    using load_lua_libs_ends[OF assms(1) made(1,3)] by (auto simp: ends_def)
  obtain L2 where L2: "remove_unsupported_lua_functions api (sc_lua script) L1 = Inr L2" "fresh L2"
    using remove_functions_ends[OF assms(1) made(1) L1(2)] by (auto simp: ends_def)
  have s2: "stk L2 = []"
    using load_lua_libs_stack[OF assms(1) L1(1)] remove_functions_stack[OF assms(1) L2(1)] stack_pushes(1)[OF assms(1)]
    by simp
  obtain L3 L4 L5 L6 where upper:
    "lua_setfield api (-2) ''engine'' (lua_newtable api (lua_newtable api L2)) = Inr L3"
    "lua_setfield api (-2) ''shared'' (lua_newtable api L3) = Inr L4"
    "res_fold (add_lua_command api) varnish_commands L4 = Inr L5"
    "lua_setglobal api ''varnish'' L5 = Inr L6" "named L6"
    by (rule varnish_table_ends[OF assms(1) eng L2(2) s2])
  obtain L7 L8 L9 L10 vs where lower:
    "lua_getglobal api ''varnish'' L6 = Inr L7" "stk L7 = Lua_Table # vs"
    "lua_getfield api (-1) ''shared'' L7 = Inr L8" "stk L8 = Lua_Table # stk L7"
    "lua_setfield api (-2) ''_is_locked'' (lua_pushboolean api False L8) = Inr L9"
    "res_fold (add_lua_command api) varnish_shared_commands L9 = Inr L10" "named L10"
    by (rule shared_table_ends[OF assms(1) eng upper(5)])
  obtain L11 where L11: "run_lua_program api helpers ''@helpers'' k (lua_pop api 2 L10) = Inr L11" "good L11"
    using made(8) set_up_D(1)[OF made(2) lower(7)] unfolding ends_def by blast
  have "ends (if sc_sandboxing script then enable_lua_protections api k L11 else Inr L11) good"
    using made(9) L11(2) by simp
  then show ?thesis
    using stack_reads(2)[OF assms(1) lower(2)] stack_reads(2)[OF assms(1) lower(4)]
    unfolding new_context_def by (simp add: L1 L2 upper lower L11)
qed

section \<open>An execution\<close>

lemma log_and_pop_good: "lua_undisturbed api stk good helpers \<Longrightarrow> good L \<Longrightarrow> good (log_and_pop api L)"
  by (simp add: log_and_pop_def good_kept(1,7))

lemma pre_execute_ends:
  assumes "lua_laws ho api stk" "lua_undisturbed api stk good helpers" "good L"
  shows "ends (pre_execute api code name L k) (\<lambda>(ok, L', k'). good L')"
proof -
  obtain loaded L1 where load: "luaL_loadbuffer api (function_source name code) ''@varnish_script'' L = (loaded, L1)"
    by fastforce
  have L1: "good L1" using good_kept(11)[OF assms(2,3), of "function_source name code" "''@varnish_script''"] load by simp
  show ?thesis
  proof (cases loaded)
    case False
    then show ?thesis using load log_and_pop_good[OF assms(2) L1] by (simp add: pre_execute_def)
  next
    case True
    then have "stk L1 = Lua_Function # stk L"
      using lua_laws_parts(4)[OF assms(1), unfolded runs_code_def, THEN conjunct1, rule_format, OF load] by auto
    then have "returns (lua_pcall api 0 0 0 L1 k)" by (rule host_read(6)[OF assms(2) L1])
    then obtain ok L2 k2 where call: "lua_pcall api 0 0 0 L1 k = Inr (ok, L2, k2)"
      by (metis returnsE prod_cases3)
    note L2 = good_kept(17)[OF assms(2) L1 call]
    show ?thesis
      using True load call L2 log_and_pop_good[OF assms(2) L2] by (simp add: pre_execute_def)
  qed
qed

lemma push_function_ends:
  assumes "lua_laws ho api stk" "lua_undisturbed api stk good helpers" "good L" "name \<noteq> ''varnish''"
  shows "ends (push_function api code name L k) (\<lambda>(ready, unknown, L', k'). good L')"
proof -
  note reads = stack_reads(2)[OF assms(1)] and read = host_read[OF assms(2)] and kept = good_kept[OF assms(2)]
  obtain L1 where L1: "lua_getglobal api ''varnish'' L = Inr L1"
    using read(1)[OF assms(3)] by (rule returnsE)
  note g1 = kept(12)[OF assms(3) L1] and s1 = read(7)[OF assms(3) L1]
  obtain L2 where L2: "lua_getfield api (-1) ''_error_handler'' L1 = Inr L2"
    using read(3)[OF g1 s1] by (rule returnsE)
  note g2 = kept(14)[OF g1 L2] and s2 = read(8)[OF assms(3) L1 L2]
  obtain L3 where L3: "lua_getglobal api name L2 = Inr L3"
    using read(1)[OF g2] by (rule returnsE)
  note g3 = kept(12)[OF g2 L3]
  obtain ok L4 k1 where pre: "pre_execute api code name (lua_pop api 1 L3) k = Inr (ok, L4, k1)" and g4: "good L4"
    using pre_execute_ends[OF assms(1,2) kept(1)[OF g3], of code name 1 k] by (auto simp: ends_def)
  obtain L5 where L5: "lua_getglobal api name L4 = Inr L5"
    using read(1)[OF g4] by (rule returnsE)
  have "lua_type_of api (-1) L5 = LUA_TFUNCTION" if okay: ok
  proof -
    obtain L1' where load: "luaL_loadbuffer api (function_source name code) ''@varnish_script'' (lua_pop api 1 L3) = (True, L1')"
        and call: "lua_pcall api 0 0 0 L1' k = Inr (True, L4, k1)"
      using pre okay by (auto simp: pre_execute_def res_bind_eq_Inr_iff split: prod.splits if_splits)
    then show ?thesis using reads[OF function_defined[OF assms(2) kept(1)[OF g3] assms(4) load call L5]] by simp
  qed
  then show ?thesis
    using g3 kept(12)[OF g4 L5] kept(1)[OF g4]
    by (simp add: push_function_def L1 L2 L3 L5 pre[unfolded One_nat_def] reads[OF s1] reads[OF s2])
qed

lemma host_fields_end:
  assumes "lua_laws ho api stk" "lua_undisturbed api stk good helpers" "good L"
  shows "stk L = u # v # Lua_Table # vs \<Longrightarrow> ends (set_host_fields api L) good"
    and "stk L = Lua_Table # vs \<Longrightarrow> ends (clear_host_fields api L) good"
proof -
  note pushes = stack_pushes[OF assms(1)] and tables = stack_tables(4)[OF assms(1)]
  note read = host_read[OF assms(2)] and kept = good_kept[OF assms(2)]
  show "ends (set_host_fields api L) good" if L: "stk L = u # v # Lua_Table # vs"
  proof -
    define I where "I = (\<lambda>L. good L \<and> stk L = u # v # Lua_Table # vs)"
    have "ends (set_host_fields api L) I"
      unfolding set_host_fields_def
    proof (rule ends_fold)
      show "I L" using assms(3) L by (simp add: I_def)
    next
      fix fp :: "string \<times> host_ptr" and L
      assume fp: "fp \<in> set host_fields" and "I L"
      obtain field ptr where p: "fp = (field, ptr)" by (cases fp)
      then have field: "field \<in> fst ` set host_fields" using fp by force
      have L: "good (lua_newuserdata api ptr L)" "stk (lua_newuserdata api ptr L) = Lua_Userdata (Some ptr) # u # v # Lua_Table # vs"
        using \<open>I L\<close> kept(6) pushes(9) by (simp_all add: I_def)
      from read(5)[OF this] obtain L' where set: "lua_setfield api (-4) field (lua_newuserdata api ptr L) = Inr L'"
        by (rule returnsE)
      show "ends ((case fp of (field, ptr) \<Rightarrow> \<lambda>L. lua_setfield api (-4) field (lua_newuserdata api ptr L)) L) I"
        using set kept(15)[OF L(1) field set] tables[OF set] L(2) p by (simp add: I_def)
    qed
    then show ?thesis by (rule ends_mono) (simp add: I_def)
  qed
  show "ends (clear_host_fields api L) good" if L: "stk L = Lua_Table # vs"
  proof -
    define I where "I = (\<lambda>L. good L \<and> stk L = Lua_Table # vs)"
    have "ends (clear_host_fields api L) I"
      unfolding clear_host_fields_def
    proof (rule ends_fold)
      show "I L" using assms(3) L by (simp add: I_def)
    next
      fix fp :: "string \<times> host_ptr" and L
      assume fp: "fp \<in> set host_fields" and "I L"
      obtain field ptr where p: "fp = (field, ptr)" by (cases fp)
      then have field: "field \<in> fst ` set host_fields" using fp by force
      have L: "good (lua_pushnil api L)" "stk (lua_pushnil api L) = Lua_Nil # Lua_Table # vs"
        using \<open>I L\<close> kept(2) pushes(3) by (simp_all add: I_def)
      from conjunct1[OF read(4)[OF this]] obtain L' where set: "lua_setfield api (-2) field (lua_pushnil api L) = Inr L'"
        by (rule returnsE)
      show "ends ((case fp of (field, ptr) \<Rightarrow> \<lambda>L. lua_setfield api (-2) field (lua_pushnil api L)) L) I"
        using set kept(15)[OF L(1) field set] tables[OF set] L(2) p by (simp add: I_def)
    qed
    then show ?thesis by (rule ends_mono) (simp add: I_def)
  qed
qed

lemma set_lua_argv_ends:
  assumes "lua_laws ho api stk" "lua_undisturbed api stk good helpers" "good L" "argc \<le> int (length argv)"
  shows "ends (set_lua_argv api argc argv L) good"
proof -
  note kept = good_kept[OF assms(2)]
  define I where "I = (\<lambda>L1. good L1 \<and> stk L1 = Lua_Table # stk L)"
  have "ends (res_fold (\<lambda>i L. if i < length argv
      then Inr (lua_rawseti api (-2) (int i) (lua_pushstring api (argv ! i) L)) else Inl Out_Of_Bounds)
      [0..<nat argc] (lua_newtable api L)) I"
  proof (rule ends_fold)
    show "I (lua_newtable api L)" using kept(5)[OF assms(3)] stack_pushes(8)[OF assms(1)] by (simp add: I_def)
  next
    fix i L1
    assume "i \<in> set [0..<nat argc]" "I L1"
    then show "ends (if i < length argv then Inr (lua_rawseti api (-2) (int i) (lua_pushstring api (argv ! i) L1))
        else Inl Out_Of_Bounds) I"
      using assms(4) kept(4,8) stack_pushes(6)[OF assms(1)] stack_tables(6)[OF assms(1)] by (auto simp: I_def)
  qed
  moreover have "ends (lua_setglobal api ''ARGV'' L1) good" if "I L1" for L1
    using host_read(2)[OF assms(2), of L1 "''ARGV''"] kept(13)[of L1 "''ARGV''"] that
    by (auto simp: I_def returns_def ends_def)
  ultimately show ?thesis unfolding set_lua_argv_def by (blast intro: ends_bind)
qed

section \<open>The result\<close>

text \<open>With room in the workspace every item of a table is stored.\<close>

lemma store_string_ends:
  assumes "lua_laws ho api stk" "lua_undisturbed api stk good helpers" "ws_roomy ops" "good L" "stk L = Lua_String s # vs"
  shows "ends (store_string api ops ctx L) (\<lambda>(stored, w, ctx', L'). stored \<and> good L')"
proof -
  obtain L1 where str: "lua_tostring api (-1) L = (Some s, L1)"
    using stack_tostring[OF assms(1), of 0 L] assms(5) by auto
  then have "good L1" using good_kept(7)[OF assms(2,4), of "-1"] by simp
  moreover obtain ctx' r where "copy_or_fail ops ctx s = (ctx', r)" by fastforce
  moreover from copy_or_fail_roomy[OF assms(3) this] have "r \<noteq> None" .
  ultimately show ?thesis by (simp add: store_string_def str)
qed

lemma store_item_ends:
  assumes "lua_laws ho api stk" "lua_undisturbed api stk good helpers" "ws_roomy ops" "good L" "stk L = v # vs"
  shows "ends (store_item api ops ctx L) (\<lambda>(stored, w, ctx', L'). stored \<and> good L')"
  using store_string_ends[OF assms(1-4), of _ vs ctx] stack_reads(2)[OF assms(1,5)] assms(4,5)
  by (cases v) (simp_all add: store_item_def)

lemma store_items_end:
  assumes "lua_laws ho api stk" "lua_undisturbed api stk good helpers" "ws_roomy ops"
    and "good L" "stk L = Lua_Table # vs" "result_ok r" "0 \<le> nvalues r" "nvalues r < int MAX_RESULT_VALUES"
  shows "ends (store_items api ops ctx L r) (\<lambda>(stored, r', ctx', L'). stored \<and> good L')"
  using assms(4-)
proof (induction "nat (int MAX_RESULT_VALUES - nvalues r)" arbitrary: L r ctx rule: less_induct)
  case less
  note kept = good_kept[OF assms(2)]
  obtain d where "stk (lua_pushnumber api (nvalues r + 1) L) = d # Lua_Table # vs"
    using less.prems(2) lua_laws_parts(2)[OF assms(1)] unfolding pushes_stack_def by metis
  from conjunct2[OF host_read(4)[OF assms(2) kept(3)[OF less.prems(1)] this]]
  obtain L1 where L1: "lua_gettable api (-2) (lua_pushnumber api (nvalues r + 1) L) = Inr L1"
    by (rule returnsE)
  note g1 = kept(16)[OF kept(3)[OF less.prems(1)] L1]
  obtain x where s1: "stk L1 = x # stk L"
    using stack_tables(5)[OF assms(1) L1] stack_pushes(5)[OF assms(1)] by auto
  obtain w ctx1 L2 where item: "store_item api ops ctx L1 = Inr (True, w, ctx1, L2)" and g2: "good L2"
    using store_item_ends[OF assms(1-3) g1 s1, of ctx] by (auto simp: ends_def)
  obtain u where "stk L2 = u # stk L"
    using store_item_outcome[OF assms(1) s1 item] by blast
  then have s2: "stk (lua_pop api 1 L2) = Lua_Table # vs"
    using stack_pushes(2)[OF assms(1), of 1 L2] less.prems(2) by simp
  obtain r1 where r1: "put_value (nvalues r) w r = Inr r1"
    using less.prems by (simp add: put_value_def result_ok_def nat_less_iff)
  let ?r = "r1\<lparr>nvalues := nvalues r1 + 1\<rparr>"
  have keeps: "nvalues r1 = nvalues r" "result_ok ?r"
    using put_value_keeps[OF r1 less.prems(3)] less.prems by (auto simp: result_ok_def)
  show ?case
  proof (cases "lua_type_of api (-1) L1 = LUA_TNIL \<or> nvalues r1 + 1 = int MAX_RESULT_VALUES")
    case True
    then show ?thesis
      by (subst store_items.simps) (auto simp: L1 item r1 kept(1)[OF g1] kept(1)[OF g2])
  next
    case False
    have "nat (int MAX_RESULT_VALUES - nvalues ?r) < nat (int MAX_RESULT_VALUES - nvalues r)"
        "0 \<le> nvalues ?r" "nvalues ?r < int MAX_RESULT_VALUES"
      using keeps(1) less.prems False by simp_all
    then show ?thesis
      using less.hyps[OF _ kept(1)[OF g2] s2 keeps(2), of ctx1] False
      by (subst store_items.simps) (simp add: L1 item r1)
  qed
qed

lemma post_execute_ends:
  assumes "lua_laws ho api stk" "lua_undisturbed api stk good helpers" "ws_roomy ops" "good L" "stk L = v # vs" "result_ok r"
  shows "ends (post_execute api ops ctx L r) (\<lambda>(ok, r', ctx', L'). good L' \<and> (v = Lua_Table \<longrightarrow> ok))"
proof (cases v)
  case (Lua_String s)
  obtain w ctx' L' where "store_string api ops ctx L = Inr (True, w, ctx', L')" "good L'"
    using store_string_ends[OF assms(1-4), of s vs ctx] assms(5) Lua_String by (auto simp: ends_def)
  then show ?thesis
    using stack_reads(2)[OF assms(1,5)] put_value_first[OF assms(6)] Lua_String by (simp add: post_execute_def)
next
  case Lua_Table
  have "result_ok (r\<lparr>nvalues := 0\<rparr>)" using assms(6) by (simp add: result_ok_def)
  from store_items_end[OF assms(1-4) assms(5)[unfolded Lua_Table] this, of ctx]
  show ?thesis
    using stack_reads(2)[OF assms(1,5)] Lua_Table by (auto simp: post_execute_def MAX_RESULT_VALUES_def elim: ends_mono)
qed (use stack_reads(2)[OF assms(1,5)] put_value_first[OF assms(6)] assms(4) in \<open>auto simp: post_execute_def\<close>)

lemma finish_call_ends:
  assumes "lua_laws ho api stk" "lua_undisturbed api stk good helpers" "ws_roomy ops"
    and "good L" "stk L = v # Lua_Function # Lua_Table # vs" "result_ok r"
  shows "ends (finish_call api ops called L k r) (\<lambda>(success, r', L', k'). good L')"
proof -
  have clear: "ends (clear_host_fields api (lua_pop api 2 L')) good"
    if "good L'" "stk L' = u # Lua_Function # Lua_Table # vs" for L' u
    using host_fields_end(2)[OF assms(1,2) good_kept(1)[OF assms(2) that(1)]] stack_pushes(2)[OF assms(1), of 2 L'] that(2) by simp
  show ?thesis
  proof (cases called)
    case False
    obtain u where "stk (snd (lua_tostring api (-1) L)) = u # Lua_Function # Lua_Table # vs"
      using stack_tostring_top[OF assms(1,5)] by blast
    from clear[OF good_kept(7)[OF assms(2,4)] this]
    obtain L' where "clear_host_fields api (lua_pop api 2 (snd (lua_tostring api (-1) L))) = Inr L'" "good L'"
      by (auto simp: ends_def)
    then show ?thesis using False put_value_first[OF assms(6)] by (simp add: finish_call_def)
  next
    case True
    obtain ok r1 ctx L1 where post: "post_execute api ops (h_ctx k) L r = Inr (ok, r1, ctx, L1)"
        and L1: "good L1" "v = Lua_Table \<longrightarrow> ok"
      using post_execute_ends[OF assms(1-6), of "h_ctx k"] by (auto simp: ends_def)
    from post_execute_outcome[OF assms(1,5,6) post] L1(2)
    obtain u where u: "stk L1 = u # Lua_Function # Lua_Table # vs" "result_ok r1" by (auto split: if_splits)
    from clear[OF L1(1) u(1)] obtain L' where "clear_host_fields api (lua_pop api 2 L1) = Inr L'" "good L'"
      by (auto simp: ends_def)
    then show ?thesis using True put_value_first[OF u(2)] by (simp add: finish_call_def post)
  qed
qed

lemma call_function_ends:
  assumes "lua_laws ho api stk" "lua_undisturbed api stk good helpers" "ws_roomy ops"
    and "good L" "stk L = Lua_Function # Lua_Function # Lua_Table # vs" "task_ok s"
  shows "ends (call_function api ops s L k) (\<lambda>(success, r', L', k'). good L')"
proof -
  obtain L1 where L1: "set_host_fields api L = Inr L1" "good L1"
    using host_fields_end(1)[OF assms(1,2,4,5)] by (auto simp: ends_def)
  have "ts_argc s \<le> int (length (ts_argv s))" using assms(6) by (simp add: task_ok_def)
  from set_lua_argv_ends[OF assms(1,2) L1(2) this]
  obtain L2 where L2: "set_lua_argv api (ts_argc s) (ts_argv s) L1 = Inr L2" "good L2" by (auto simp: ends_def)
  have s2: "stk L2 = Lua_Function # Lua_Function # Lua_Table # vs"
    using set_host_fields_stack[OF assms(1) L1(1)] set_lua_argv_stack[OF assms(1) L2(1)] assms(5) by simp
  obtain called L3 k1 where call: "lua_pcall api 0 1 (-2) L2 k = Inr (called, L3, k1)"
    using host_read(6)[OF assms(2) L2(2) s2] by (metis returnsE prod_cases3)
  obtain v where s3: "stk L3 = v # Lua_Function # Lua_Table # vs"
    using stack_code(2)[OF assms(1) call] s2 by (auto simp: length_Suc_conv split: if_splits)
  have "result_ok (ts_result s)" using assms(6) by (simp add: task_ok_def)
  from finish_call_ends[OF assms(1-3) good_kept(17)[OF assms(2) L2(2) call] s3 this, of called k1] show ?thesis
    by (simp add: call_function_def L1 L2 call[unfolded One_nat_def])
qed

lemma run_on_engine_ends:
  assumes "lua_laws ho api stk" "lua_undisturbed api stk good helpers" "ws_roomy ops"
    and "priv_ok state" "name \<noteq> ''varnish''" "good L"
  shows "ends (run_on_engine api ops code name state L k) (\<lambda>(success, unknown, r, L', k'). good L')"
proof -
  note pop = good_kept(1)[OF assms(2)]
  obtain ready unknown L1 k1 where push: "push_function api code name L k = Inr (ready, unknown, L1, k1)" and g1: "good L1"
    using push_function_ends[OF assms(1,2,6,5), of code k] by (auto simp: ends_def)
  note L1 = push_function_stack[OF assms(1) push]
  consider (early) "\<not> ready" | (check) "ready" "state = None" | (call) s where "ready" "state = Some s"
    by (cases state) auto
  then show ?thesis
  proof cases
    case (call s)
    have "stk L1 = Lua_Function # Lua_Function # Lua_Table # stk L" "task_ok s"
      using L1 call assms(4) by (simp_all add: priv_ok_def)
    from call_function_ends[OF assms(1-3) g1 this, of k1]
    obtain success r L2 k2 where "call_function api ops s L1 k1 = Inr (success, r, L2, k2)" "good L2"
      by (auto simp: ends_def)
    then show ?thesis by (simp add: run_on_engine_def push call pop)
  qed (simp_all add: run_on_engine_def push pop g1)
qed

interpretation live_lua: live_engine "lua_laws ho api stk" ho "\<lambda>script. run_on_engine api ops"
    "lua_collect_garbage api" "new_lua_engine api helpers" "lua_gettop api" "\<lambda>_ _. True"
    "lua_undisturbed api stk good helpers \<and> ws_roomy ops" ENGINE_TYPE_LUA good
  for ho :: "('w, 'h, 're) host_ops" and api :: "('l, 'd, 'w, 'h, 're) lua" and stk ops good helpers
proof
  assume laws: "lua_laws ho api stk" and live: "lua_undisturbed api stk good helpers \<and> ws_roomy ops"
  show "ends (run_on_engine api ops code name state L k) (\<lambda>(success, unknown, result, L', k'). good L')"
    if "priv_ok state" "name \<noteq> ''varnish''" "good L" for code name and state :: "'d task_state option" and L k
    using run_on_engine_ends[OF laws conjunct1[OF live] conjunct2[OF live] that] .
  fix script :: "('re, 'l) cfg_script"
  show "ends (lua_collect_garbage api script gcc n L) (\<lambda>(collected, L'). good L')"
    if "sc_min_gc_cycles script \<noteq> 0" "good L" for gcc n L
    using that good_kept(9,10)[OF conjunct1[OF live] that(2)] by (simp add: lua_collect_garbage_def collect_garbage_def)
  show "ends (new_lua_engine api helpers script k) (\<lambda>e. good (eng_ctx e))" if "sc_type script = ENGINE_TYPE_LUA" for k
  proof -
    have "ends (new_context api helpers script k) good"
      using new_context_ends[OF laws] live by blast
    then show ?thesis using that by (auto simp: new_lua_engine_def new_engine_def intro: ends_bind)
  qed
qed

end
