(* ===== verification/Javascript_Commands.thy ===== *)
theory Javascript_Commands
  imports Script_Host
begin

text \<open>
  The commands a JavaScript script calls, the \<open>varnish_*_javascript_command\<close> functions of
  \<open>script_javascript.c\<close>, and what they use of the API of Duktape: its functions are the fields of \<open>duk_api\<close>, an
  argument of every definition. Duktape is the hundred thousand lines of \<open>duktape.c\<close>, vendored and not
  modelled; what its documentation says of the value stack is in \<open>js_laws\<close>.
\<close>

section \<open>The API\<close>

datatype duk_type = DUK_TYPE_UNDEFINED | DUK_TYPE_NULL | DUK_TYPE_BOOLEAN | DUK_TYPE_NUMBER | DUK_TYPE_STRING
  | DUK_TYPE_OBJECT | DUK_TYPE_BUFFER | DUK_TYPE_POINTER | DUK_TYPE_LIGHTFUNC

datatype javascript_command = Js_Log | Js_Get_Header | Js_Set_Header | Js_Regmatch | Js_Regsub bool
  | Js_Shared_Get | Js_Shared_Set | Js_Shared_Unset | Js_Shared_Eval

text \<open>
  What ends normally has a value, what throws an error has none and leaves the error to the protected
  call around it. Reading or writing a property and coercing a value may run code of the script,
  accessors and \<open>toString\<close>: such functions take the host and give it back.
\<close>

type_synonym ('a, 'l, 'k) js = "('a option \<times> 'l \<times> 'k) res"

definition js_bind :: "('a, 'l, 'k) js \<Rightarrow> ('a \<Rightarrow> 'l \<Rightarrow> 'k \<Rightarrow> ('b, 'l, 'k) js) \<Rightarrow> ('b, 'l, 'k) js" where
  "js_bind m f = res_bind m (\<lambda>(r, D, k). case r of None \<Rightarrow> Inr (None, D, k) | Some x \<Rightarrow> f x D k)"

text \<open>Outside any protected call an error reaches the fatal error handler.\<close>

definition unprotected :: "('a, 'l, 'k) js \<Rightarrow> ('a \<times> 'l \<times> 'k) res" where
  "unprotected m = res_bind m (\<lambda>(r, D, k). case r of None \<Rightarrow> Inl Unprotected_Error | Some x \<Rightarrow> Inr (x, D, k))"

record ('l, 'd, 'k) duk_api =
  duk_create_heap :: 'l
  duk_get_top :: "'l \<Rightarrow> int"
  duk_get_type :: "int \<Rightarrow> 'l \<Rightarrow> duk_type"
  duk_is_undefined :: "int \<Rightarrow> 'l \<Rightarrow> bool"
  duk_is_boolean :: "int \<Rightarrow> 'l \<Rightarrow> bool"
  duk_is_object :: "int \<Rightarrow> 'l \<Rightarrow> bool"
  duk_is_array :: "int \<Rightarrow> 'l \<Rightarrow> bool"
  duk_is_function :: "int \<Rightarrow> 'l \<Rightarrow> bool"
  duk_is_pointer :: "int \<Rightarrow> 'l \<Rightarrow> bool"
  duk_get_boolean :: "int \<Rightarrow> 'l \<Rightarrow> bool"
  duk_get_pointer :: "int \<Rightarrow> 'l \<Rightarrow> host_ptr option"
  duk_to_boolean :: "int \<Rightarrow> 'l \<Rightarrow> bool \<times> 'l"
  duk_to_number :: "int \<Rightarrow> 'l \<Rightarrow> 'd"
  duk_to_string :: "int \<Rightarrow> 'l \<Rightarrow> 'k \<Rightarrow> (string, 'l, 'k) js"
  duk_safe_to_string :: "int \<Rightarrow> 'l \<Rightarrow> 'k \<Rightarrow> (string \<times> 'l \<times> 'k) res"
  duk_pop :: "nat \<Rightarrow> 'l \<Rightarrow> 'l"
  duk_push_null :: "'l \<Rightarrow> 'l"
  duk_push_boolean :: "bool \<Rightarrow> 'l \<Rightarrow> 'l"
  duk_push_string :: "string option \<Rightarrow> 'l \<Rightarrow> 'l"
  duk_push_pointer :: "host_ptr \<Rightarrow> 'l \<Rightarrow> 'l"
  duk_push_object :: "'l \<Rightarrow> 'l"
  duk_push_array :: "'l \<Rightarrow> 'l"
  duk_push_c_function :: "javascript_command \<Rightarrow> 'l \<Rightarrow> 'l"
  duk_error :: "string \<Rightarrow> 'l \<Rightarrow> 'l"
  duk_get_global_string :: "string \<Rightarrow> 'l \<Rightarrow> 'k \<Rightarrow> (unit, 'l, 'k) js"
  duk_put_global_string :: "string \<Rightarrow> 'l \<Rightarrow> 'k \<Rightarrow> (unit, 'l, 'k) js"
  duk_get_prop_string :: "int \<Rightarrow> string \<Rightarrow> 'l \<Rightarrow> 'k \<Rightarrow> (unit, 'l, 'k) js"
  duk_put_prop_string :: "int \<Rightarrow> string \<Rightarrow> 'l \<Rightarrow> 'k \<Rightarrow> (unit, 'l, 'k) js"
  duk_get_prop_index :: "int \<Rightarrow> int \<Rightarrow> 'l \<Rightarrow> 'k \<Rightarrow> (unit, 'l, 'k) js"
  duk_put_prop_index :: "int \<Rightarrow> int \<Rightarrow> 'l \<Rightarrow> 'k \<Rightarrow> (unit, 'l, 'k) js"
  duk_get_length :: "int \<Rightarrow> 'l \<Rightarrow> 'k \<Rightarrow> (nat, 'l, 'k) js"
  duk_peval_lstring :: "string \<Rightarrow> 'l \<Rightarrow> 'k \<Rightarrow> (bool \<times> 'l \<times> 'k) res"
  duk_pcall :: "nat \<Rightarrow> 'l \<Rightarrow> 'k \<Rightarrow> (bool \<times> 'l \<times> 'k) res"
  duk_gc :: "'l \<Rightarrow> 'l"

type_synonym ('l, 'd, 'w, 'h, 're) duk = "('l, 'd, ('w, 'h, 're) host) duk_api"

text \<open>\<open>DUK_HIDDEN_SYMBOL(x)\<close>: a key scripts cannot write.\<close>

definition hidden :: "string \<Rightarrow> string" where
  "hidden x = CHR 0xFF # x"

section \<open>Reading the varnish object\<close>

text \<open>\<open>GET_VARNISH_OBJECT_FOO_FIELD\<close>.\<close>

definition get_varnish_pointer :: "('l, 'd, 'k) duk_api \<Rightarrow> string \<Rightarrow> host_ptr \<Rightarrow> 'l \<Rightarrow> 'k \<Rightarrow> (unit, 'l, 'k) js" where
  "get_varnish_pointer api field ptr D k =
     js_bind (duk_get_global_string api ''varnish'' D k) (\<lambda>_ D1 k1.
     must (duk_is_object api (-1) D1)
    (js_bind (duk_get_prop_string api (-1) (hidden field) D1 k1) (\<lambda>_ D2 k2.
     must (duk_is_pointer api (-1) D2)
    (must (duk_get_pointer api (-1) D2 = Some ptr) (Inr (Some (), duk_pop api 2 D2, k2))))))"

text \<open>\<open>GET_VARNISH_SHARED_OBJECT_IS_LOCKED_FIELD\<close> and \<open>SET_VARNISH_SHARED_OBJECT_IS_LOCKED_FIELD\<close>.\<close>

definition js_get_is_locked :: "('l, 'd, 'k) duk_api \<Rightarrow> 'l \<Rightarrow> 'k \<Rightarrow> (bool, 'l, 'k) js" where
  "js_get_is_locked api D k =
     js_bind (duk_get_global_string api ''varnish'' D k) (\<lambda>_ D1 k1.
     must (duk_is_object api (-1) D1)
    (js_bind (duk_get_prop_string api (-1) ''shared'' D1 k1) (\<lambda>_ D2 k2.
     must (duk_is_object api (-1) D2)
    (js_bind (duk_get_prop_string api (-1) (hidden ''_is_locked'') D2 k2) (\<lambda>_ D3 k3.
     must (duk_is_boolean api (-1) D3)
       (Inr (Some (duk_get_boolean api (-1) D3), duk_pop api 3 D3, k3)))))))"

definition js_set_is_locked :: "('l, 'd, 'k) duk_api \<Rightarrow> bool \<Rightarrow> 'l \<Rightarrow> 'k \<Rightarrow> (unit, 'l, 'k) js" where
  "js_set_is_locked api b D k =
     js_bind (duk_get_global_string api ''varnish'' D k) (\<lambda>_ D1 k1.
     must (duk_is_object api (-1) D1)
    (js_bind (duk_get_prop_string api (-1) ''shared'' D1 k1) (\<lambda>_ D2 k2.
     must (duk_is_object api (-1) D2)
    (js_bind (duk_put_prop_string api (-2) (hidden ''_is_locked'') (duk_push_boolean api b D2) k2) (\<lambda>_ D3 k3.
       Inr (Some (), duk_pop api 2 D3, k3))))))"

section \<open>The commands\<close>

text \<open>A command returns so many values, on top of the stack, or throws.\<close>

type_synonym ('l, 'w, 'h, 're) js_result = "(nat, 'l, ('w, 'h, 're) host) js"

text \<open>\<open>(void) duk_error(D, DUK_ERR_TYPE_ERROR, message);\<close>\<close>

definition js_raise :: "('l, 'd, 'w, 'h, 're) duk \<Rightarrow> string \<Rightarrow> 'l \<Rightarrow> ('w, 'h, 're) host \<Rightarrow> ('l, 'w, 'h, 're) js_result" where
  "js_raise api message D k = Inr (None, duk_error api message D, k)"

text \<open>
  An optional argument: NULL when it is not there or \<open>undefined\<close>. \<open>duk_to_string\<close> never gives NULL: a test
  for it always holds and is left out.
\<close>

definition js_optional_arg :: "('l, 'd, 'k) duk_api \<Rightarrow> bool \<Rightarrow> int \<Rightarrow> 'l \<Rightarrow> 'k \<Rightarrow> (string option, 'l, 'k) js" where
  "js_optional_arg api there i D k =
     (if there \<and> \<not> duk_is_undefined api i D
      then js_bind (duk_to_string api i D k) (\<lambda>s D1 k1. Inr (Some (Some s), D1, k1))
      else Inr (Some None, D, k))"

definition varnish_log_javascript_command :: "('l, 'd, 'w, 'h, 're) duk \<Rightarrow> 'l \<Rightarrow> ('w, 'h, 're) host \<Rightarrow> ('l, 'w, 'h, 're) js_result" where
  "varnish_log_javascript_command api D k =
     (let argc = duk_get_top api D in
      if argc \<noteq> 1 then js_raise api ''varnish.log() requires one argument.'' D k
      else
        js_bind (duk_to_string api (-1) D k) (\<lambda>message D1 k1.
        js_bind (get_varnish_pointer api ''_ctx'' Ptr_Ctx D1 k1) (\<lambda>_ D2 k2. Inr (Some 0, D2, k2))))"

definition varnish_get_header_javascript_command ::
  "('l, 'd, 'w, 'h, 're) duk \<Rightarrow> ('w, 'h, 're) host_ops \<Rightarrow> 'l \<Rightarrow> ('w, 'h, 're) host \<Rightarrow> ('l, 'w, 'h, 're) js_result" where
  "varnish_get_header_javascript_command api ho D k =
     (let argc = duk_get_top api D in
      if argc < 1 then js_raise api ''varnish.get_header() requires one argument.'' D k
      else
        js_bind (duk_to_string api (-1 * argc) D k) (\<lambda>name D1 k1.
        js_bind (js_optional_arg api (argc \<ge> 2) (-1 * argc + 1) D1 k1) (\<lambda>where_name D2 k2.
        let where_name = (case where_name of None \<Rightarrow> ''req'' | Some w \<Rightarrow> w) in
        if length name > 0
        then
          js_bind (get_varnish_pointer api ''_ctx'' Ptr_Ctx D2 k2) (\<lambda>_ D3 k3.
          res_bind (varnish_get_header_command (ho_hdr ho) (ho_ws ho) (h_ctx k3) name where_name)
            (\<lambda>(result, error, ctx). case error of
               Some e \<Rightarrow> js_raise api e D3 (k3\<lparr>h_ctx := ctx\<rparr>)
             | None \<Rightarrow> Inr (Some 1, duk_push_string api result D3, k3\<lparr>h_ctx := ctx\<rparr>)))
        else Inr (Some 1, duk_push_string api None D2, k2))))"

definition varnish_set_header_javascript_command ::
  "('l, 'd, 'w, 'h, 're) duk \<Rightarrow> ('w, 'h, 're) host_ops \<Rightarrow> 'l \<Rightarrow> ('w, 'h, 're) host \<Rightarrow> ('l, 'w, 'h, 're) js_result" where
  "varnish_set_header_javascript_command api ho D k =
     (let argc = duk_get_top api D in
      if argc < 2 then js_raise api ''varnish.set_header() requires two arguments.'' D k
      else
        js_bind (duk_to_string api (-1 * argc) D k) (\<lambda>name D1 k1.
        js_bind (duk_to_string api (-1 * argc + 1) D1 k1) (\<lambda>val D2 k2.
        js_bind (js_optional_arg api (argc \<ge> 3) (-1 * argc + 2) D2 k2) (\<lambda>where_name D3 k3.
        let where_name = (case where_name of None \<Rightarrow> ''req'' | Some w \<Rightarrow> w) in
        if length name > 0 \<and> length val > 0
        then
          js_bind (get_varnish_pointer api ''_ctx'' Ptr_Ctx D3 k3) (\<lambda>_ D4 k4.
          res_bind (varnish_set_header_command (ho_hdr ho) (ho_ws ho) (h_ctx k4) name val where_name)
            (\<lambda>(error, ctx). case error of
               Some e \<Rightarrow> js_raise api e D4 (k4\<lparr>h_ctx := ctx\<rparr>)
             | None \<Rightarrow> Inr (Some 0, D4, k4\<lparr>h_ctx := ctx\<rparr>)))
        else Inr (Some 0, D3, k3)))))"

text \<open>The argument \<open>cache\<close>: coerced in place, 1 when it is not there.\<close>

definition js_cache_arg :: "('l, 'd, 'k) duk_api \<Rightarrow> bool \<Rightarrow> int \<Rightarrow> 'l \<Rightarrow> bool \<times> 'l" where
  "js_cache_arg api there i D = (if there then duk_to_boolean api i D else (True, D))"

definition varnish_regmatch_javascript_command ::
  "('l, 'd, 'w, 'h, 're) duk \<Rightarrow> ('w, 'h, 're) host_ops \<Rightarrow> 'l \<Rightarrow> ('w, 'h, 're) host \<Rightarrow> ('l, 'w, 'h, 're) js_result" where
  "varnish_regmatch_javascript_command api ho D k =
     (let argc = duk_get_top api D in
      if argc < 2 then js_raise api ''varnish.regmatch() requires two arguments.'' D k
      else
        js_bind (duk_to_string api (-1 * argc) D k) (\<lambda>s D1 k1.
        js_bind (duk_to_string api (-1 * argc + 1) D1 k1) (\<lambda>regexp D2 k2.
        case js_cache_arg api (argc \<ge> 3) (-1 * argc + 2) D2 of (cache, D3) \<Rightarrow>
          js_bind (get_varnish_pointer api ''_ctx'' Ptr_Ctx D3 k2) (\<lambda>_ D4 k4.
          js_bind (get_varnish_pointer api ''_script'' Ptr_Script D4 k4) (\<lambda>_ D5 k5.
          res_bind (varnish_regmatch_command (ho_vre ho) (ho_ws ho) (h_ctx k5) (h_regexps k5) (h_regexps k5) s regexp cache)
            (\<lambda>(result, error, ctx, regexps). case error of
               Some e \<Rightarrow> js_raise api e D5 (k5\<lparr>h_ctx := ctx, h_regexps := regexps\<rparr>)
             | None \<Rightarrow> Inr (Some 1, duk_push_boolean api result D5, k5\<lparr>h_ctx := ctx, h_regexps := regexps\<rparr>)))))))"

definition varnish_regsub_javascript_command ::
  "('l, 'd, 'w, 'h, 're) duk \<Rightarrow> ('w, 'h, 're) host_ops \<Rightarrow> bool \<Rightarrow> 'l \<Rightarrow> ('w, 'h, 're) host \<Rightarrow> ('l, 'w, 'h, 're) js_result" where
  "varnish_regsub_javascript_command api ho all D k =
     (let argc = duk_get_top api D in
      if argc < 3 then js_raise api ''varnish.regsub() & varnish.regsuball() require three arguments.'' D k
      else
        js_bind (duk_to_string api (-1 * argc) D k) (\<lambda>s D1 k1.
        js_bind (duk_to_string api (-1 * argc + 1) D1 k1) (\<lambda>regexp D2 k2.
        js_bind (duk_to_string api (-1 * argc + 2) D2 k2) (\<lambda>sub D3 k3.
        case js_cache_arg api (argc \<ge> 4) (-1 * argc + 3) D3 of (cache, D4) \<Rightarrow>
          js_bind (get_varnish_pointer api ''_ctx'' Ptr_Ctx D4 k3) (\<lambda>_ D5 k5.
          js_bind (get_varnish_pointer api ''_script'' Ptr_Script D5 k5) (\<lambda>_ D6 k6.
          res_bind (varnish_regsub_command (ho_vre ho) (ho_ws ho) (h_ctx k6) (h_regexps k6) (h_regexps k6) s regexp sub cache all)
            (\<lambda>(result, error, ctx, regexps). case error of
               Some e \<Rightarrow> js_raise api e D6 (k6\<lparr>h_ctx := ctx, h_regexps := regexps\<rparr>)
             | None \<Rightarrow> Inr (Some 1, duk_push_string api result D6, k6\<lparr>h_ctx := ctx, h_regexps := regexps\<rparr>))))))))"

section \<open>The shared commands\<close>

text \<open>\<open>_is_locked\<close>, \<open>_ctx\<close>, \<open>_script\<close> and \<open>_state\<close>, in the order the shared commands read them.\<close>

definition js_get_shared_fields :: "('l, 'd, 'k) duk_api \<Rightarrow> 'l \<Rightarrow> 'k \<Rightarrow> (unit, 'l, 'k) js" where
  "js_get_shared_fields api D k =
     js_bind (js_get_is_locked api D k) (\<lambda>is_locked D1 k1.
     js_bind (get_varnish_pointer api ''_ctx'' Ptr_Ctx D1 k1) (\<lambda>_ D2 k2.
     js_bind (get_varnish_pointer api ''_script'' Ptr_Script D2 k2) (\<lambda>_ D3 k3.
     get_varnish_pointer api ''_state'' Ptr_State D3 k3)))"

definition varnish_shared_get_javascript_command ::
  "('l, 'd, 'w, 'h, 're) duk \<Rightarrow> ('w, 'h, 're) host_ops \<Rightarrow> 'l \<Rightarrow> ('w, 'h, 're) host \<Rightarrow> ('l, 'w, 'h, 're) js_result" where
  "varnish_shared_get_javascript_command api ho D k =
     (let argc = duk_get_top api D in
      if argc < 1 then js_raise api ''varnish.shared.get() requires one argument.'' D k
      else
        js_bind (duk_to_string api (-1 * argc) D k) (\<lambda>key D1 k1.
        js_bind (js_optional_arg api (argc \<ge> 2) (-1 * argc + 1) D1 k1) (\<lambda>scope D2 k2.
        let scope = (case scope of None \<Rightarrow> ''all'' | Some s \<Rightarrow> s) in
        if length key > 0
        then
          js_bind (js_get_shared_fields api D2 k2) (\<lambda>_ D3 k3.
            case varnish_shared_get_command (ho_ws ho) (h_ctx k3) (h_shared k3) key scope of (result, ctx) \<Rightarrow>
              Inr (Some 1, duk_push_string api result D3, k3\<lparr>h_ctx := ctx\<rparr>))
        else Inr (Some 1, duk_push_string api None D2, k2))))"

definition varnish_shared_set_javascript_command ::
  "('l, 'd, 'w, 'h, 're) duk \<Rightarrow> ('w, 'h, 're) host_ops \<Rightarrow> 'l \<Rightarrow> ('w, 'h, 're) host \<Rightarrow> ('l, 'w, 'h, 're) js_result" where
  "varnish_shared_set_javascript_command api ho D k =
     (let argc = duk_get_top api D in
      if argc < 2 then js_raise api ''varnish.shared.set() requires two arguments.'' D k
      else
        js_bind (duk_to_string api (-1 * argc) D k) (\<lambda>key D1 k1.
        js_bind (duk_to_string api (-1 * argc + 1) D1 k1) (\<lambda>val D2 k2.
        js_bind (js_optional_arg api (argc \<ge> 3) (-1 * argc + 2) D2 k2) (\<lambda>scope D3 k3.
        let scope = (case scope of None \<Rightarrow> ''task'' | Some s \<Rightarrow> s) in
        if length key > 0
        then
          js_bind (js_get_shared_fields api D3 k3) (\<lambda>_ D4 k4.
          res_bind (varnish_shared_set_command (ho_ws ho) (h_ctx k4) (h_shared k4) key val scope) (\<lambda>(ctx, sh).
            Inr (Some 0, D4, k4\<lparr>h_ctx := ctx, h_shared := sh\<rparr>)))
        else Inr (Some 0, D3, k3)))))"

definition varnish_shared_unset_javascript_command ::
  "('l, 'd, 'w, 'h, 're) duk \<Rightarrow> 'l \<Rightarrow> ('w, 'h, 're) host \<Rightarrow> ('l, 'w, 'h, 're) js_result" where
  "varnish_shared_unset_javascript_command api D k =
     (let argc = duk_get_top api D in
      if argc < 1 then js_raise api ''varnish.shared.unset() requires one argument.'' D k
      else
        js_bind (duk_to_string api (-1 * argc) D k) (\<lambda>key D1 k1.
        js_bind (js_optional_arg api (argc \<ge> 2) (-1 * argc + 1) D1 k1) (\<lambda>scope D2 k2.
        let scope = (case scope of None \<Rightarrow> ''all'' | Some s \<Rightarrow> s) in
        if length key > 0
        then
          js_bind (js_get_shared_fields api D2 k2) (\<lambda>_ D3 k3.
          res_bind (varnish_shared_unset_command (h_shared k3) key scope) (\<lambda>sh.
            Inr (Some 0, D3, k3\<lparr>h_shared := sh\<rparr>)))
        else Inr (Some 0, D2, k2))))"

text \<open>
  The read-write lock itself is not modelled, only the flag that says who holds it. \<open>duk_throw\<close> throws
  the error that the protected call left on top of the stack.
\<close>

definition varnish_shared_eval_javascript_command ::
  "('l, 'd, 'w, 'h, 're) duk \<Rightarrow> 'l \<Rightarrow> ('w, 'h, 're) host \<Rightarrow> ('l, 'w, 'h, 're) js_result" where
  "varnish_shared_eval_javascript_command api D k =
     (let argc = duk_get_top api D in
      if argc \<noteq> 1 then js_raise api ''varnish.shared.eval() requires one argument.'' D k
      else if \<not> duk_is_function api (-1) D
      then js_raise api ''varnish.shared.eval() requires a function argument.'' D k
      else
        js_bind (js_get_is_locked api D k) (\<lambda>is_locked D1 k1.
        js_bind (get_varnish_pointer api ''_script'' Ptr_Script D1 k1) (\<lambda>_ D2 k2.
        js_bind (if \<not> is_locked then js_set_is_locked api True D2 k2 else Inr (Some (), D2, k2)) (\<lambda>_ D3 k3.
        res_bind (duk_pcall api 0 D3 k3) (\<lambda>(success, D4, k4).
        js_bind (if \<not> is_locked then js_set_is_locked api False D4 k4 else Inr (Some (), D4, k4)) (\<lambda>_ D5 k5.
          Inr (if success then Some 1 else None, D5, k5)))))))"

fun run_javascript_command ::
  "('l, 'd, 'w, 'h, 're) duk \<Rightarrow> ('w, 'h, 're) host_ops \<Rightarrow> javascript_command \<Rightarrow> 'l \<Rightarrow> ('w, 'h, 're) host
    \<Rightarrow> ('l, 'w, 'h, 're) js_result" where
  "run_javascript_command api ho Js_Log D k = varnish_log_javascript_command api D k"
| "run_javascript_command api ho Js_Get_Header D k = varnish_get_header_javascript_command api ho D k"
| "run_javascript_command api ho Js_Set_Header D k = varnish_set_header_javascript_command api ho D k"
| "run_javascript_command api ho Js_Regmatch D k = varnish_regmatch_javascript_command api ho D k"
| "run_javascript_command api ho (Js_Regsub all) D k = varnish_regsub_javascript_command api ho all D k"
| "run_javascript_command api ho Js_Shared_Get D k = varnish_shared_get_javascript_command api ho D k"
| "run_javascript_command api ho Js_Shared_Set D k = varnish_shared_set_javascript_command api ho D k"
| "run_javascript_command api ho Js_Shared_Unset D k = varnish_shared_unset_javascript_command api D k"
| "run_javascript_command api ho Js_Shared_Eval D k = varnish_shared_eval_javascript_command api D k"

section \<open>The documented behaviour of the API\<close>

text \<open>
  What C code can see of a value, and the view \<open>stk\<close> of the value stack of the current frame, top first. A
  function that may throw does what is said here when it does not.
\<close>

datatype js_object = Plain_Object | Array_Object | Function_Object

datatype 'd js_value = Js_Undefined | Js_Null | Js_Boolean bool | Js_Number 'd | Js_String string | Js_Object js_object
  | Js_Buffer | Js_Pointer "host_ptr option" | Js_Lightfunc

fun js_type :: "'d js_value \<Rightarrow> duk_type" where
  "js_type Js_Undefined = DUK_TYPE_UNDEFINED"
| "js_type Js_Null = DUK_TYPE_NULL"
| "js_type (Js_Boolean b) = DUK_TYPE_BOOLEAN"
| "js_type (Js_Number d) = DUK_TYPE_NUMBER"
| "js_type (Js_String s) = DUK_TYPE_STRING"
| "js_type (Js_Object c) = DUK_TYPE_OBJECT"
| "js_type Js_Buffer = DUK_TYPE_BUFFER"
| "js_type (Js_Pointer p) = DUK_TYPE_POINTER"
| "js_type Js_Lightfunc = DUK_TYPE_LIGHTFUNC"

definition js_opt_string :: "string option \<Rightarrow> 'd js_value" where
  "js_opt_string s = (case s of None \<Rightarrow> Js_Null | Some t \<Rightarrow> Js_String t)"

definition js_reads :: "('l, 'd, 'k) duk_api \<Rightarrow> ('l \<Rightarrow> 'd js_value list) \<Rightarrow> bool" where
  "js_reads api stk \<longleftrightarrow>
     (\<forall>D. duk_get_top api D = int (length (stk D)))
     \<and> (\<forall>D i. i < length (stk D) \<longrightarrow>
         duk_get_type api (-1 - int i) D = js_type (stk D ! i)
         \<and> (duk_is_undefined api (-1 - int i) D \<longleftrightarrow> stk D ! i = Js_Undefined)
         \<and> (duk_is_object api (-1 - int i) D \<longleftrightarrow> js_type (stk D ! i) = DUK_TYPE_OBJECT)
         \<and> (duk_is_array api (-1 - int i) D \<longleftrightarrow> stk D ! i = Js_Object Array_Object)
         \<and> (duk_is_function api (-1 - int i) D \<longleftrightarrow> stk D ! i \<in> {Js_Object Function_Object, Js_Lightfunc})
         \<and> (\<forall>d. stk D ! i = Js_Number d \<longrightarrow> duk_to_number api (-1 - int i) D = d)
         \<and> (\<forall>b. stk D ! i = Js_Boolean b \<longrightarrow> fst (duk_to_boolean api (-1 - int i) D) = b)
         \<and> (\<exists>b. stk (snd (duk_to_boolean api (-1 - int i) D)) = (stk D)[i := Js_Boolean b]))"

definition js_pushes :: "('l, 'd, 'k) duk_api \<Rightarrow> ('l \<Rightarrow> 'd js_value list) \<Rightarrow> bool" where
  "js_pushes api stk \<longleftrightarrow>
     stk (duk_create_heap api) = []
     \<and> (\<forall>D n. n \<le> length (stk D) \<longrightarrow> stk (duk_pop api n D) = drop n (stk D))
     \<and> (\<forall>D. stk (duk_push_null api D) = Js_Null # stk D)
     \<and> (\<forall>D b. stk (duk_push_boolean api b D) = Js_Boolean b # stk D)
     \<and> (\<forall>D s. stk (duk_push_string api s D) = js_opt_string s # stk D)
     \<and> (\<forall>D p. stk (duk_push_pointer api p D) = Js_Pointer (Some p) # stk D)
     \<and> (\<forall>D. stk (duk_push_object api D) = Js_Object Plain_Object # stk D)
     \<and> (\<forall>D. stk (duk_push_array api D) = Js_Object Array_Object # stk D)
     \<and> (\<forall>D c. stk (duk_push_c_function api c D) = Js_Object Function_Object # stk D)
     \<and> (\<forall>D. stk (duk_gc api D) = stk D)"

text \<open>
  Code of a script reaches the host through the commands only: \<open>host_step\<close>. A coercion to a string
  replaces the value; coercing a string does nothing.
\<close>

definition js_coerces :: "('w, 'h, 're) host_ops \<Rightarrow> ('l, 'd, 'w, 'h, 're) duk \<Rightarrow> ('l \<Rightarrow> 'd js_value list) \<Rightarrow> bool" where
  "js_coerces ho api stk \<longleftrightarrow>
     (\<forall>i D k r D' k'. duk_to_string api i D k = Inr (r, D', k') \<longrightarrow> (host_step ho)\<^sup>*\<^sup>* k k')
     \<and> (\<forall>i D k s D' k'. i < length (stk D) \<longrightarrow> duk_to_string api (-1 - int i) D k = Inr (Some s, D', k') \<longrightarrow>
         stk D' = (stk D)[i := Js_String s])
     \<and> (\<forall>i D k s. i < length (stk D) \<longrightarrow> stk D ! i = Js_String s \<longrightarrow>
         (\<exists>D'. duk_to_string api (-1 - int i) D k = Inr (Some s, D', k) \<and> stk D' = stk D))
     \<and> (\<forall>i D k s D' k'. i < length (stk D) \<longrightarrow> duk_safe_to_string api (-1 - int i) D k = Inr (s, D', k') \<longrightarrow>
         (host_step ho)\<^sup>*\<^sup>* k k' \<and> stk D' = (stk D)[i := Js_String s])
     \<and> (\<forall>i D k s. i < length (stk D) \<longrightarrow> stk D ! i = Js_String s \<longrightarrow>
         (\<exists>D'. duk_safe_to_string api (-1 - int i) D k = Inr (s, D', k) \<and> stk D' = stk D))"

definition js_properties :: "('w, 'h, 're) host_ops \<Rightarrow> ('l, 'd, 'w, 'h, 're) duk \<Rightarrow> ('l \<Rightarrow> 'd js_value list) \<Rightarrow> bool" where
  "js_properties ho api stk \<longleftrightarrow>
     (\<forall>n D k r D' k'. duk_get_global_string api n D k = Inr (r, D', k') \<longrightarrow>
         (host_step ho)\<^sup>*\<^sup>* k k' \<and> (r \<noteq> None \<longrightarrow> (\<exists>v. stk D' = v # stk D)))
     \<and> (\<forall>n D k r D' k'. duk_put_global_string api n D k = Inr (r, D', k') \<longrightarrow>
         (host_step ho)\<^sup>*\<^sup>* k k' \<and> (r \<noteq> None \<longrightarrow> stk D' = tl (stk D)))
     \<and> (\<forall>i n D k r D' k'. duk_get_prop_string api i n D k = Inr (r, D', k') \<longrightarrow>
         (host_step ho)\<^sup>*\<^sup>* k k' \<and> (r \<noteq> None \<longrightarrow> (\<exists>v. stk D' = v # stk D)))
     \<and> (\<forall>i n D k r D' k'. duk_put_prop_string api i n D k = Inr (r, D', k') \<longrightarrow>
         (host_step ho)\<^sup>*\<^sup>* k k' \<and> (r \<noteq> None \<longrightarrow> stk D' = tl (stk D)))
     \<and> (\<forall>i j D k r D' k'. duk_get_prop_index api i j D k = Inr (r, D', k') \<longrightarrow>
         (host_step ho)\<^sup>*\<^sup>* k k' \<and> (r \<noteq> None \<longrightarrow> (\<exists>v. stk D' = v # stk D)))
     \<and> (\<forall>i j D k r D' k'. duk_put_prop_index api i j D k = Inr (r, D', k') \<longrightarrow>
         (host_step ho)\<^sup>*\<^sup>* k k' \<and> (r \<noteq> None \<longrightarrow> stk D' = tl (stk D)))
     \<and> (\<forall>i D k r D' k'. duk_get_length api i D k = Inr (r, D', k') \<longrightarrow>
         (host_step ho)\<^sup>*\<^sup>* k k' \<and> (r \<noteq> None \<longrightarrow> stk D' = stk D))"

text \<open>
  A protected call without arguments replaces the function by the result or the error; an evaluation
  pushes one of them.
\<close>

definition js_runs :: "('w, 'h, 're) host_ops \<Rightarrow> ('l, 'd, 'w, 'h, 're) duk \<Rightarrow> ('l \<Rightarrow> 'd js_value list) \<Rightarrow> bool" where
  "js_runs ho api stk \<longleftrightarrow>
     (\<forall>src D k ok D' k'. duk_peval_lstring api src D k = Inr (ok, D', k') \<longrightarrow>
         (host_step ho)\<^sup>*\<^sup>* k k' \<and> (\<exists>v. stk D' = v # stk D))
     \<and> (\<forall>D k ok D' k'. duk_pcall api 0 D k = Inr (ok, D', k') \<longrightarrow>
         (host_step ho)\<^sup>*\<^sup>* k k' \<and> (\<exists>v. stk D' = v # tl (stk D)))"

definition js_laws :: "('w, 'h, 're) host_ops \<Rightarrow> ('l, 'd, 'w, 'h, 're) duk \<Rightarrow> ('l \<Rightarrow> 'd js_value list) \<Rightarrow> bool" where
  "js_laws ho api stk \<longleftrightarrow> js_reads api stk \<and> js_pushes api stk \<and> js_coerces ho api stk
     \<and> js_properties ho api stk \<and> js_runs ho api stk"

section \<open>What follows of the stack\<close>

text \<open>
  What an action does to the host in any case, and to the stack when it does not throw.
\<close>

definition js_does :: "('w, 'h, 're) host_ops \<Rightarrow> ('a, 'l, ('w, 'h, 're) host) js \<Rightarrow> ('w, 'h, 're) host \<Rightarrow> ('a \<Rightarrow> 'l \<Rightarrow> bool) \<Rightarrow> bool" where
  "js_does ho m k Q \<longleftrightarrow>
     (\<forall>r D' k'. m = Inr (r, D', k') \<longrightarrow> (host_step ho)\<^sup>*\<^sup>* k k' \<and> (\<forall>x. r = Some x \<longrightarrow> Q x D'))"

named_theorems js_rules \<open>rules for actions\<close>

lemma js_doesD:
  "js_does ho m k Q \<Longrightarrow> m = Inr (r, D', k') \<Longrightarrow> (host_step ho)\<^sup>*\<^sup>* k k'"
  "js_does ho m k Q \<Longrightarrow> m = Inr (Some x, D', k') \<Longrightarrow> Q x D'"
  by (auto simp: js_does_def)

lemma js_does_bind [js_rules]:
  assumes "js_does ho m k Q" "\<And>x D k1. Q x D \<Longrightarrow> js_does ho (f x D k1) k1 R"
  shows "js_does ho (js_bind m f) k R"
  unfolding js_does_def
proof (intro allI impI)
  fix r D' k'
  assume "js_bind m f = Inr (r, D', k')"
  then obtain r1 D1 k1 where m: "m = Inr (r1, D1, k1)"
      and f: "(case r1 of None \<Rightarrow> Inr (None, D1, k1) | Some x \<Rightarrow> f x D1 k1) = Inr (r, D', k')"
    by (auto simp: js_bind_def res_bind_eq_Inr_iff)
  have k1: "(host_step ho)\<^sup>*\<^sup>* k k1" by (rule js_doesD(1)[OF assms(1) m])
  show "(host_step ho)\<^sup>*\<^sup>* k k' \<and> (\<forall>x. r = Some x \<longrightarrow> R x D')"
  proof (cases r1)
    case None
    then show ?thesis using f k1 by auto
  next
    case (Some x)
    then have "Q x D1" using js_doesD(2)[OF assms(1)] m by simp
    from assms(2)[OF this] have "js_does ho (f x D1 k1) k1 R" .
    moreover have "f x D1 k1 = Inr (r, D', k')" using f Some by simp
    ultimately show ?thesis using k1 by (auto simp: js_does_def intro: rtranclp_trans)
  qed
qed

lemma js_does_must [js_rules]: "(b \<Longrightarrow> js_does ho m k Q) \<Longrightarrow> js_does ho (must b m) k Q"
  by (auto simp: js_does_def must_eq_Inr_iff)

lemma js_does_return [js_rules]: "Q x D \<Longrightarrow> js_does ho (Inr (Some x, D, k)) k Q"
  by (simp add: js_does_def)

lemma js_does_throw [js_rules]: "js_does ho (Inr (None, D, k)) k Q"
  by (simp add: js_does_def)

lemma js_does_if [js_rules]:
  "(b \<Longrightarrow> js_does ho m k Q) \<Longrightarrow> (\<not> b \<Longrightarrow> js_does ho m' k Q) \<Longrightarrow> js_does ho (if b then m else m') k Q"
  by simp

lemma js_does_mono: "js_does ho m k Q \<Longrightarrow> (\<And>x D. Q x D \<Longrightarrow> R x D) \<Longrightarrow> js_does ho m k R"
  by (auto simp: js_does_def)

lemma js_laws_parts:
  assumes "js_laws ho api stk"
  shows "js_reads api stk" "js_pushes api stk" "js_coerces ho api stk" "js_properties ho api stk" "js_runs ho api stk"
  using assms by (simp_all add: js_laws_def)

lemma js_stack_top: "js_laws ho api stk \<Longrightarrow> duk_get_top api D = int (length (stk D))"
  using js_laws_parts(1) unfolding js_reads_def by blast

lemma js_stack_reads:
  assumes "js_laws ho api stk" "stk D = v # vs"
  shows "duk_get_type api (-1) D = js_type v"
    and "duk_is_object api (-1) D \<longleftrightarrow> js_type v = DUK_TYPE_OBJECT"
    and "duk_is_array api (-1) D \<longleftrightarrow> v = Js_Object Array_Object"
    and "duk_is_function api (-1) D \<longleftrightarrow> v \<in> {Js_Object Function_Object, Js_Lightfunc}"
    and "v = Js_Number d \<Longrightarrow> duk_to_number api (-1) D = d"
    and "v = Js_Boolean b \<Longrightarrow> fst (duk_to_boolean api (-1) D) = b"
    and "\<exists>u. stk (snd (duk_to_boolean api (-1) D)) = u # vs"
proof -
  have "0 < length (stk D) \<longrightarrow>
         duk_get_type api (-1 - int 0) D = js_type (stk D ! 0)
         \<and> (duk_is_undefined api (-1 - int 0) D \<longleftrightarrow> stk D ! 0 = Js_Undefined)
         \<and> (duk_is_object api (-1 - int 0) D \<longleftrightarrow> js_type (stk D ! 0) = DUK_TYPE_OBJECT)
         \<and> (duk_is_array api (-1 - int 0) D \<longleftrightarrow> stk D ! 0 = Js_Object Array_Object)
         \<and> (duk_is_function api (-1 - int 0) D \<longleftrightarrow> stk D ! 0 \<in> {Js_Object Function_Object, Js_Lightfunc})
         \<and> (\<forall>d. stk D ! 0 = Js_Number d \<longrightarrow> duk_to_number api (-1 - int 0) D = d)
         \<and> (\<forall>b. stk D ! 0 = Js_Boolean b \<longrightarrow> fst (duk_to_boolean api (-1 - int 0) D) = b)
         \<and> (\<exists>b. stk (snd (duk_to_boolean api (-1 - int 0) D)) = (stk D)[0 := Js_Boolean b])"
    using js_laws_parts(1)[OF assms(1)] unfolding js_reads_def by blast
  then show "duk_get_type api (-1) D = js_type v" "duk_is_object api (-1) D \<longleftrightarrow> js_type v = DUK_TYPE_OBJECT"
      "duk_is_array api (-1) D \<longleftrightarrow> v = Js_Object Array_Object"
      "duk_is_function api (-1) D \<longleftrightarrow> v \<in> {Js_Object Function_Object, Js_Lightfunc}"
      "v = Js_Number d \<Longrightarrow> duk_to_number api (-1) D = d" "v = Js_Boolean b \<Longrightarrow> fst (duk_to_boolean api (-1) D) = b"
      "\<exists>u. stk (snd (duk_to_boolean api (-1) D)) = u # vs"
    using assms(2) by auto
qed

lemma js_stack_pushes:
  assumes "js_laws ho api stk"
  shows "stk (duk_create_heap api) = []"
    and "n \<le> length (stk D) \<Longrightarrow> stk (duk_pop api n D) = drop n (stk D)"
    and "stk (duk_push_null api D) = Js_Null # stk D"
    and "stk (duk_push_boolean api b D) = Js_Boolean b # stk D"
    and "stk (duk_push_string api s D) = js_opt_string s # stk D"
    and "stk (duk_push_pointer api p D) = Js_Pointer (Some p) # stk D"
    and "stk (duk_push_object api D) = Js_Object Plain_Object # stk D"
    and "stk (duk_push_array api D) = Js_Object Array_Object # stk D"
    and "stk (duk_push_c_function api c D) = Js_Object Function_Object # stk D"
    and "stk (duk_gc api D) = stk D"
  using js_laws_parts(2)[OF assms] by (simp_all add: js_pushes_def)

lemma js_to_string:
  assumes "js_laws ho api stk"
  shows "0 < length (stk D) \<Longrightarrow> duk_safe_to_string api (-1) D k = Inr (s, D', k') \<Longrightarrow>
      (host_step ho)\<^sup>*\<^sup>* k k' \<and> stk D' = Js_String s # tl (stk D)"
    and "stk D = Js_String s # vs \<Longrightarrow>
      \<exists>D'. duk_safe_to_string api (-1) D k = Inr (s, D', k) \<and> stk D' = stk D"
proof -
  note laws = js_laws_parts(3)[OF assms]
  show "(host_step ho)\<^sup>*\<^sup>* k k' \<and> stk D' = Js_String s # tl (stk D)"
    if "0 < length (stk D)" "duk_safe_to_string api (-1) D k = Inr (s, D', k')"
  proof -
    have "0 < length (stk D) \<longrightarrow> duk_safe_to_string api (-1 - int 0) D k = Inr (s, D', k') \<longrightarrow>
         (host_step ho)\<^sup>*\<^sup>* k k' \<and> stk D' = (stk D)[0 := Js_String s]"
      using laws unfolding js_coerces_def by blast
    then show ?thesis using that by (cases "stk D") auto
  qed
  show "\<exists>D'. duk_safe_to_string api (-1) D k = Inr (s, D', k) \<and> stk D' = stk D" if "stk D = Js_String s # vs"
  proof -
    have "0 < length (stk D) \<longrightarrow> stk D ! 0 = Js_String s \<longrightarrow>
         (\<exists>D'. duk_safe_to_string api (-1 - int 0) D k = Inr (s, D', k) \<and> stk D' = stk D)"
      using laws unfolding js_coerces_def by blast
    then show ?thesis using that by simp
  qed
qed

lemma js_does_props:
  assumes "js_laws ho api stk"
  shows "js_does ho (duk_get_global_string api n D k) k (\<lambda>_ D'. \<exists>v. stk D' = v # stk D)"
    and "js_does ho (duk_put_global_string api n D k) k (\<lambda>_ D'. stk D' = tl (stk D))"
    and "js_does ho (duk_get_prop_string api i n D k) k (\<lambda>_ D'. \<exists>v. stk D' = v # stk D)"
    and "js_does ho (duk_put_prop_string api i n D k) k (\<lambda>_ D'. stk D' = tl (stk D))"
    and "js_does ho (duk_get_prop_index api i j D k) k (\<lambda>_ D'. \<exists>v. stk D' = v # stk D)"
    and "js_does ho (duk_put_prop_index api i j D k) k (\<lambda>_ D'. stk D' = tl (stk D))"
    and "js_does ho (duk_get_length api i D k) k (\<lambda>_ D'. stk D' = stk D)"
  using js_laws_parts(4)[OF assms] unfolding js_does_def js_properties_def by (metis option.distinct(1))+

lemma js_stack_code:
  assumes "js_laws ho api stk"
  shows "duk_peval_lstring api src D k = Inr (ok, D', k') \<Longrightarrow> (host_step ho)\<^sup>*\<^sup>* k k' \<and> (\<exists>v. stk D' = v # stk D)"
    and "duk_pcall api 0 D k = Inr (ok, D', k') \<Longrightarrow> (host_step ho)\<^sup>*\<^sup>* k k' \<and> (\<exists>v. stk D' = v # tl (stk D))"
  using js_laws_parts(5)[OF assms] unfolding js_runs_def by blast+

lemma unprotected_Inr_iff: "unprotected m = Inr (x, D, k) \<longleftrightarrow> m = Inr (Some x, D, k)"
  by (auto simp: unprotected_def res_bind_eq_Inr_iff split: option.splits)

lemma unprotected_does:
  assumes "js_does ho m k Q" "unprotected m = Inr (x, D', k')"
  shows "(host_step ho)\<^sup>*\<^sup>* k k'" "Q x D'"
  using js_doesD[OF assms(1)] assms(2) unfolding unprotected_Inr_iff by simp_all

section \<open>The commands only use the host\<close>

lemma js_does_to_string:
  assumes "js_laws ho api stk"
  shows "js_does ho (duk_to_string api i D k) k (\<lambda>_ _. True)"
proof -
  have "\<forall>i D k r D' k'. duk_to_string api i D k = Inr (r, D', k') \<longrightarrow> (host_step ho)\<^sup>*\<^sup>* k k'"
    using js_laws_parts(3)[OF assms] unfolding js_coerces_def by (elim conjE) assumption
  then show ?thesis unfolding js_does_def by blast
qed

lemma js_does_optional_arg:
  assumes "js_laws ho api stk"
  shows "js_does ho (js_optional_arg api there i D k) k (\<lambda>_ _. True)"
  unfolding js_optional_arg_def by (intro js_rules js_does_bind[OF js_does_to_string[OF assms]]) simp_all

lemma js_does_pointer:
  assumes "js_laws ho api stk"
  shows "js_does ho (get_varnish_pointer api field ptr D k) k (\<lambda>_ D'. stk D' = stk D)"
  unfolding get_varnish_pointer_def
  by (intro js_rules js_does_bind[OF js_does_props(1)[OF assms]] js_does_bind[OF js_does_props(3)[OF assms]])
     (auto simp: js_stack_pushes(2)[OF assms])

lemma js_does_get_is_locked:
  assumes "js_laws ho api stk"
  shows "js_does ho (js_get_is_locked api D k) k (\<lambda>_ D'. stk D' = stk D)"
  unfolding js_get_is_locked_def
  by (intro js_rules js_does_bind[OF js_does_props(1)[OF assms]] js_does_bind[OF js_does_props(3)[OF assms]])
     (auto simp: js_stack_pushes(2)[OF assms])

lemma js_does_set_is_locked:
  assumes "js_laws ho api stk"
  shows "js_does ho (js_set_is_locked api b D k) k (\<lambda>_ D'. stk D' = stk D)"
  unfolding js_set_is_locked_def
  by (intro js_rules js_does_bind[OF js_does_props(1)[OF assms]] js_does_bind[OF js_does_props(3)[OF assms]]
      js_does_bind[OF js_does_props(4)[OF assms]])
     (auto simp: js_stack_pushes(2,4)[OF assms])

lemma js_does_shared_fields:
  assumes "js_laws ho api stk"
  shows "js_does ho (js_get_shared_fields api D k) k (\<lambda>_ D'. stk D' = stk D)"
  unfolding js_get_shared_fields_def
  by (intro js_does_bind[OF js_does_get_is_locked[OF assms]] js_does_bind[OF js_does_pointer[OF assms]]
      js_does_mono[OF js_does_pointer[OF assms]]) simp

lemma js_does_raise: "js_does ho (js_raise api message D k) k Q"
  by (simp add: js_raise_def js_does_throw)

text \<open>A command ends with one command of the host.\<close>

lemma js_does_call:
  assumes "\<And>y. c = Inr y \<Longrightarrow> \<exists>r D' k'. g y = Inr (r, D', k') \<and> host_step ho k k'"
  shows "js_does ho (res_bind c g) k (\<lambda>_ _. True)"
  unfolding js_does_def
proof (intro allI impI)
  fix r D' k'
  assume "res_bind c g = Inr (r, D', k')"
  then obtain y where y: "c = Inr y" "g y = Inr (r, D', k')"
    by (auto simp: res_bind_eq_Inr_iff)
  then have "host_step ho k k'" using assms by fastforce
  then show "(host_step ho)\<^sup>*\<^sup>* k k' \<and> (\<forall>x. r = Some x \<longrightarrow> True)"
    using host_step_star by blast
qed

lemma js_does_header_calls:
  "js_does ho (res_bind (varnish_get_header_command (ho_hdr ho) (ho_ws ho) (h_ctx k) n w) (\<lambda>(result, error, ctx).
     case error of Some e \<Rightarrow> js_raise api e D (k\<lparr>h_ctx := ctx\<rparr>)
     | None \<Rightarrow> Inr (Some 1, duk_push_string api result D, k\<lparr>h_ctx := ctx\<rparr>))) k (\<lambda>_ _. True)"
  "js_does ho (res_bind (varnish_set_header_command (ho_hdr ho) (ho_ws ho) (h_ctx k) n v w) (\<lambda>(error, ctx).
     case error of Some e \<Rightarrow> js_raise api e D (k\<lparr>h_ctx := ctx\<rparr>)
     | None \<Rightarrow> Inr (Some 0, D, k\<lparr>h_ctx := ctx\<rparr>))) k (\<lambda>_ _. True)"
  by (rule js_does_call; auto simp: js_raise_def split: option.split intro: host_step.get_header host_step.set_header)+

lemma js_does_regexp_calls:
  "js_does ho (res_bind (varnish_regmatch_command (ho_vre ho) (ho_ws ho) (h_ctx k) (h_regexps k) (h_regexps k) s t c)
     (\<lambda>(result, error, ctx, regexps). case error of
        Some e \<Rightarrow> js_raise api e D (k\<lparr>h_ctx := ctx, h_regexps := regexps\<rparr>)
      | None \<Rightarrow> Inr (Some 1, duk_push_boolean api result D, k\<lparr>h_ctx := ctx, h_regexps := regexps\<rparr>))) k (\<lambda>_ _. True)"
  "js_does ho (res_bind (varnish_regsub_command (ho_vre ho) (ho_ws ho) (h_ctx k) (h_regexps k) (h_regexps k) s t u c all)
     (\<lambda>(result, error, ctx, regexps). case error of
        Some e \<Rightarrow> js_raise api e D (k\<lparr>h_ctx := ctx, h_regexps := regexps\<rparr>)
      | None \<Rightarrow> Inr (Some 1, duk_push_string api result D, k\<lparr>h_ctx := ctx, h_regexps := regexps\<rparr>))) k (\<lambda>_ _. True)"
  by (rule js_does_call; auto simp: js_raise_def split: option.split intro: host_step.regmatch host_step.regsub)+

lemma js_does_shared_calls:
  "js_does ho (case varnish_shared_get_command (ho_ws ho) (h_ctx k) (h_shared k) x scope of (result, ctx) \<Rightarrow>
     Inr (Some 1, duk_push_string api result D, k\<lparr>h_ctx := ctx\<rparr>)) k (\<lambda>_ _. True)"
  "js_does ho (res_bind (varnish_shared_set_command (ho_ws ho) (h_ctx k) (h_shared k) x v scope) (\<lambda>(ctx, sh).
     Inr (Some 0, D, k\<lparr>h_ctx := ctx, h_shared := sh\<rparr>))) k (\<lambda>_ _. True)"
  "js_does ho (res_bind (varnish_shared_unset_command (h_shared k) x scope) (\<lambda>sh.
     Inr (Some 0, D, k\<lparr>h_shared := sh\<rparr>))) k (\<lambda>_ _. True)"
proof -
  show "js_does ho (case varnish_shared_get_command (ho_ws ho) (h_ctx k) (h_shared k) x scope of (result, ctx) \<Rightarrow>
     Inr (Some 1, duk_push_string api result D, k\<lparr>h_ctx := ctx\<rparr>)) k (\<lambda>_ _. True)"
    by (auto simp: js_does_def intro: host_step_star host_step.shared_get split: prod.split)
qed (rule js_does_call; auto intro: host_step.shared_set host_step.shared_unset)+

text \<open>So what is said of protected calls holds again for code that calls a command.\<close>

lemma js_does_header_commands:
  assumes "js_laws ho api stk"
  shows "js_does ho (varnish_log_javascript_command api D k) k (\<lambda>_ _. True)"
    and "js_does ho (varnish_get_header_javascript_command api ho D k) k (\<lambda>_ _. True)"
    and "js_does ho (varnish_set_header_javascript_command api ho D k) k (\<lambda>_ _. True)"
  unfolding varnish_log_javascript_command_def varnish_get_header_javascript_command_def
    varnish_set_header_javascript_command_def Let_def
  by (intro js_does_if js_does_return js_does_raise js_does_header_calls js_does_bind[OF js_does_to_string[OF assms]]
      js_does_bind[OF js_does_optional_arg[OF assms]] js_does_bind[OF js_does_pointer[OF assms]] TrueI)+

lemma js_does_regexp_commands:
  assumes "js_laws ho api stk"
  shows "js_does ho (varnish_regmatch_javascript_command api ho D k) k (\<lambda>_ _. True)"
    and "js_does ho (varnish_regsub_javascript_command api ho all D k) k (\<lambda>_ _. True)"
  unfolding varnish_regmatch_javascript_command_def varnish_regsub_javascript_command_def Let_def prod.case_eq_if[of _ "js_cache_arg api _ _ _"]
  by (intro js_does_if js_does_return js_does_raise js_does_regexp_calls js_does_bind[OF js_does_to_string[OF assms]]
      js_does_bind[OF js_does_pointer[OF assms]] TrueI)+

lemma js_does_shared_commands:
  assumes "js_laws ho api stk"
  shows "js_does ho (varnish_shared_get_javascript_command api ho D k) k (\<lambda>_ _. True)"
    and "js_does ho (varnish_shared_set_javascript_command api ho D k) k (\<lambda>_ _. True)"
    and "js_does ho (varnish_shared_unset_javascript_command api D k) k (\<lambda>_ _. True)"
  unfolding varnish_shared_get_javascript_command_def varnish_shared_set_javascript_command_def
    varnish_shared_unset_javascript_command_def Let_def
  by (intro js_does_if js_does_return js_does_raise js_does_shared_calls js_does_bind[OF js_does_to_string[OF assms]]
      js_does_bind[OF js_does_optional_arg[OF assms]] js_does_bind[OF js_does_shared_fields[OF assms]] TrueI)+

lemma js_does_lock:
  assumes "js_laws ho api stk"
  shows "js_does ho (if \<not> is_locked then js_set_is_locked api b D k else Inr (Some (), D, k)) k (\<lambda>_ _. True)"
  by (intro js_does_if js_does_return js_does_mono[OF js_does_set_is_locked[OF assms]] TrueI)

lemma js_does_pcall:
  assumes "js_laws ho api stk" "\<And>ok D k. js_does ho (g (ok, D, k)) k Q"
  shows "js_does ho (res_bind (duk_pcall api 0 D k) g) k Q"
  unfolding js_does_def
proof (intro allI impI)
  fix r D' k'
  assume "res_bind (duk_pcall api 0 D k) g = Inr (r, D', k')"
  then obtain ok D4 k4 where run: "duk_pcall api 0 D k = Inr (ok, D4, k4)" "g (ok, D4, k4) = Inr (r, D', k')"
    by (auto simp: res_bind_eq_Inr_iff)
  then have "(host_step ho)\<^sup>*\<^sup>* k k4" using js_stack_code(2)[OF assms(1)] by blast
  then show "(host_step ho)\<^sup>*\<^sup>* k k' \<and> (\<forall>x. r = Some x \<longrightarrow> Q x D')"
    using assms(2)[of ok D4 k4] run(2) unfolding js_does_def by (blast intro: rtranclp_trans)
qed

lemma js_does_eval_command:
  assumes "js_laws ho api stk"
  shows "js_does ho (varnish_shared_eval_javascript_command api D k) k (\<lambda>_ _. True)"
proof -
  have finish: "js_does ho (Inr (if success then Some (1::nat) else None, D, k)) k (\<lambda>_ _. True)" for success D k
    by (simp add: js_does_def)
  show ?thesis
    unfolding varnish_shared_eval_javascript_command_def Let_def
    apply (rule js_does_if js_does_raise)+
    apply (rule js_does_bind[OF js_does_get_is_locked[OF assms]])
    apply (rule js_does_bind[OF js_does_pointer[OF assms]])
    apply (rule js_does_bind[OF js_does_lock[OF assms]])
    apply (rule js_does_pcall[OF assms])
    apply (unfold prod.case)
    apply (rule js_does_bind[OF js_does_lock[OF assms]])
    apply (rule finish)
    done
qed

lemma run_javascript_command_steps:
  assumes "js_laws ho api stk" "run_javascript_command api ho c D k = Inr (r, D', k')"
  shows "(host_step ho)\<^sup>*\<^sup>* k k'"
proof -
  have "js_does ho (run_javascript_command api ho c D k) k (\<lambda>_ _. True)"
    by (cases c; simp only: run_javascript_command.simps)
       (rule js_does_header_commands[OF assms(1)] js_does_regexp_commands[OF assms(1)]
        js_does_shared_commands[OF assms(1)] js_does_eval_command[OF assms(1)])+
  then show ?thesis by (rule js_doesD(1)) (rule assms(2))
qed

end
