(* ===== verification/Javascript.thy ===== *)
theory Javascript
  imports Javascript_Commands
begin

text \<open>
  \<open>script_javascript.c\<close>: the JavaScript engines of \<open>cfg.script\<close>, how one is set up and how \<open>execute_javascript\<close> runs
  code on it and takes the result off its stack. The text of \<open>script_javascript_helpers.js\<close>, a header
  generated by the build, is the argument \<open>helpers\<close>.
\<close>

section \<open>A new engine\<close>

text \<open>A value is pushed and becomes a property of the object at \<open>i\<close>.\<close>

definition js_put_new :: "('l, 'd, 'k) duk_api \<Rightarrow> int \<Rightarrow> string \<times> ('l \<Rightarrow> 'l) \<Rightarrow> 'l \<times> 'k \<Rightarrow> ('l \<times> 'k) res" where
  "js_put_new api i property s =
     (case (property, s) of ((name, push), (D, k)) \<Rightarrow>
        res_bind (unprotected (duk_put_prop_string api i name (push D) k)) (\<lambda>(_, D', k'). Inr (D', k')))"

definition js_varnish_properties :: "('l, 'd, 'k) duk_api \<Rightarrow> (string \<times> ('l \<Rightarrow> 'l)) list" where
  "js_varnish_properties api =
     [(''engine'', duk_push_object api), (''shared'', duk_push_object api)]
     @ map (\<lambda>(name, c). (name, duk_push_c_function api c))
         [(''log'', Js_Log), (''get_header'', Js_Get_Header), (''set_header'', Js_Set_Header),
          (''regmatch'', Js_Regmatch), (''regsub'', Js_Regsub False), (''regsuball'', Js_Regsub True)]"

definition js_shared_properties :: "('l, 'd, 'k) duk_api \<Rightarrow> (string \<times> ('l \<Rightarrow> 'l)) list" where
  "js_shared_properties api =
     (hidden ''_is_locked'', duk_push_boolean api False)
     # map (\<lambda>(name, c). (name, duk_push_c_function api c))
         [(''get'', Js_Shared_Get), (''set'', Js_Shared_Set), (''unset'', Js_Shared_Unset), (''eval'', Js_Shared_Eval)]"

definition js_new_context :: "('l, 'd, 'k) duk_api \<Rightarrow> string \<Rightarrow> 'k \<Rightarrow> 'l res" where
  "js_new_context api helpers k =
     (let D0 = duk_create_heap api; idx = duk_get_top api D0 in
      res_bind (res_fold (js_put_new api idx) (js_varnish_properties api) (duk_push_object api D0, k)) (\<lambda>(D1, k1).
      res_bind (unprotected (duk_put_global_string api ''varnish'' D1 k1)) (\<lambda>(_, D2, k2).
      res_bind (unprotected (duk_get_global_string api ''varnish'' D2 k2)) (\<lambda>(_, D3, k3). must (duk_is_object api (-1) D3)
     (res_bind (unprotected (duk_get_prop_string api (-1) ''shared'' D3 k3)) (\<lambda>(_, D4, k4). must (duk_is_object api (-1) D4)
     (res_bind (res_fold (js_put_new api (-2)) (js_shared_properties api) (D4, k4)) (\<lambda>(D5, k5).
      res_bind (duk_peval_lstring api helpers (duk_pop api 2 D5) k5) (\<lambda>(ok, D6, k6).
        must ok (Inr (duk_pop api 1 D6)))))))))))"

definition get_javascript_engine_used_memory :: "'l \<Rightarrow> 32 word" where
  "get_javascript_engine_used_memory D = 0"

definition get_javascript_engine_stack_size :: "('l, 'd, 'k) duk_api \<Rightarrow> 'l engine \<Rightarrow> int" where
  "get_javascript_engine_stack_size api e = duk_get_top api (eng_ctx e)"

definition new_javascript_engine :: "('l, 'd, 'k) duk_api \<Rightarrow> string \<Rightarrow> ('re, 'e) cfg_script \<Rightarrow> 'k \<Rightarrow> 'l engine res" where
  "new_javascript_engine api helpers script k =
     must (sc_type script = ENGINE_TYPE_JAVASCRIPT)
       (res_bind (js_new_context api helpers k) (\<lambda>D.
          Inr ((new_engine D)\<lparr>eng_memory := get_javascript_engine_used_memory D\<rparr>)))"

section \<open>The function to run\<close>

text \<open>\<open>function %s() {\n'use strict';\n%s\n}\<close>, or without \<open>'use strict'\<close>.\<close>

definition js_function_source :: "bool \<Rightarrow> string \<Rightarrow> string \<Rightarrow> string" where
  "js_function_source sandboxing name code =
     ''function '' @ name @ ''() {'' @ [CHR 0x0A]
     @ (if sandboxing then [CHR 0x27] @ ''use strict'' @ [CHR 0x27] @ '';'' @ [CHR 0x0A] else [])
     @ code @ [CHR 0x0A] @ ''}''"

definition js_pre_execute ::
  "('l, 'd, 'k) duk_api \<Rightarrow> bool \<Rightarrow> string \<Rightarrow> string \<Rightarrow> 'l \<Rightarrow> 'k \<Rightarrow> (bool \<times> 'l \<times> 'k) res" where
  "js_pre_execute api sandboxing code name D k =
     res_bind (duk_peval_lstring api (js_function_source sandboxing name code) D k) (\<lambda>(ok, D1, k1).
       if ok then Inr (True, duk_pop api 1 D1, k1)
       else res_bind (duk_safe_to_string api (-1) D1 k1) (\<lambda>(_, D2, k2). Inr (False, duk_pop api 1 D2, k2)))"

text \<open>
  The start of \<open>execute_javascript\<close> on an engine: \<open>varnish\<close> and the function are pushed, after \<open>js_pre_execute\<close>
  when the engine does not know the function. The first flag is false at \<open>goto done\<close>, the second one counts
  in \<open>executions.unknown\<close>.
\<close>

definition js_push_function ::
  "('l, 'd, 'k) duk_api \<Rightarrow> bool \<Rightarrow> string \<Rightarrow> string \<Rightarrow> 'l \<Rightarrow> 'k \<Rightarrow> (bool \<times> bool \<times> 'l \<times> 'k) res" where
  "js_push_function api sandboxing code name D k =
     res_bind (unprotected (duk_get_global_string api ''varnish'' D k)) (\<lambda>(_, D1, k1). must (duk_is_object api (-1) D1)
    (res_bind (unprotected (duk_get_global_string api name D1 k1)) (\<lambda>(_, D2, k2).
       if duk_is_function api (-1) D2 then Inr (True, False, D2, k2)
       else
         res_bind (js_pre_execute api sandboxing code name (duk_pop api 1 D2) k2) (\<lambda>(ok, D3, k3).
           if ok
           then res_bind (unprotected (duk_get_global_string api name D3 k3)) (\<lambda>(_, D4, k4).
             must (duk_is_function api (-1) D4) (Inr (True, True, D4, k4)))
           else Inr (False, True, D3, k3)))))"

section \<open>The result\<close>

text \<open>
  \<open>STORE_BOOLEAN\<close>, \<open>STORE_NUMBER\<close> and \<open>STORE_STRING\<close> of the value on top of the stack. The flag is false when the
  copy of a string failed the task.
\<close>

definition js_store_string ::
  "('l, 'd, 'w, 'h, 're) duk \<Rightarrow> 'w ws_ops \<Rightarrow> 'l \<Rightarrow> ('w, 'h, 're) host
    \<Rightarrow> (bool \<times> 'd result_value \<times> 'l \<times> ('w, 'h, 're) host) res" where
  "js_store_string api ops D k =
     res_bind (duk_safe_to_string api (-1) D k) (\<lambda>(s, D1, k1).
       case copy_or_fail ops (h_ctx k1) s of (ctx, copied) \<Rightarrow>
         Inr (copied \<noteq> None, RESULT_STRING copied, D1, k1\<lparr>h_ctx := ctx\<rparr>))"

definition js_store_element ::
  "('l, 'd, 'w, 'h, 're) duk \<Rightarrow> 'w ws_ops \<Rightarrow> 'l \<Rightarrow> ('w, 'h, 're) host
    \<Rightarrow> (bool \<times> 'd result_value \<times> 'l \<times> ('w, 'h, 're) host) res" where
  "js_store_element api ops D k =
     (case duk_get_type api (-1) D of
        DUK_TYPE_UNDEFINED \<Rightarrow> Inr (True, RESULT_NIL, D, k)
      | DUK_TYPE_NULL \<Rightarrow> Inr (True, RESULT_NIL, D, k)
      | DUK_TYPE_BOOLEAN \<Rightarrow> (case duk_to_boolean api (-1) D of (b, D1) \<Rightarrow> Inr (True, RESULT_BOOLEAN b, D1, k))
      | DUK_TYPE_NUMBER \<Rightarrow> Inr (True, RESULT_NUMBER (duk_to_number api (-1) D), D, k)
      | DUK_TYPE_STRING \<Rightarrow> js_store_string api ops D k
      | DUK_TYPE_OBJECT \<Rightarrow> Inr (True, RESULT_TABLE, D, k)
      | _ \<Rightarrow> Inr (True, RESULT_ERROR, D, k))"

text \<open>The loop over the elements of an array. A string that cannot be copied returns from the loop.\<close>

function js_store_elements ::
  "('l, 'd, 'w, 'h, 're) duk \<Rightarrow> 'w ws_ops \<Rightarrow> int \<Rightarrow> 'l \<Rightarrow> ('w, 'h, 're) host \<Rightarrow> 'd result
    \<Rightarrow> (bool \<times> 'd result \<times> 'l \<times> ('w, 'h, 're) host) res" where
  "js_store_elements api ops len D k r =
     (if nvalues r < len \<and> nvalues r \<noteq> int MAX_RESULT_VALUES
      then
        res_bind (unprotected (duk_get_prop_index api (-1) (nvalues r) D k)) (\<lambda>(_, D1, k1).
        res_bind (js_store_element api ops D1 k1) (\<lambda>(stored, v, D2, k2).
        res_bind (put_value (nvalues r) v r) (\<lambda>r1.
          if \<not> stored then Inr (False, r1, D2, k2)
          else js_store_elements api ops len (duk_pop api 1 D2) k2 (r1\<lparr>nvalues := nvalues r1 + 1\<rparr>))))
      else Inr (True, r, D, k))"
  by pat_completeness auto
termination
  by (relation "measure (\<lambda>(api, ops, len, D, k, r). nat (int (length (result_values r)) - nvalues r))")
     (auto simp: put_value_def split: if_splits)

declare js_store_elements.simps [simp del]

text \<open>\<open>int length = duk_get_length(...)\<close>: the low 32 bits, signed.\<close>

definition to_int :: "nat \<Rightarrow> int" where
  "to_int n = sint (of_nat n :: 32 word)"

definition js_post_execute ::
  "('l, 'd, 'w, 'h, 're) duk \<Rightarrow> 'w ws_ops \<Rightarrow> 'l \<Rightarrow> ('w, 'h, 're) host \<Rightarrow> 'd result
    \<Rightarrow> (bool \<times> 'd result \<times> 'l \<times> ('w, 'h, 're) host) res" where
  "js_post_execute api ops D k r =
     (case duk_get_type api (-1) D of
        DUK_TYPE_UNDEFINED \<Rightarrow> res_bind (put_value 0 RESULT_NIL r) (\<lambda>r'. Inr (True, r', D, k))
      | DUK_TYPE_NULL \<Rightarrow> res_bind (put_value 0 RESULT_NIL r) (\<lambda>r'. Inr (True, r', D, k))
      | DUK_TYPE_BOOLEAN \<Rightarrow> (case duk_to_boolean api (-1) D of (b, D1) \<Rightarrow>
          res_bind (put_value 0 (RESULT_BOOLEAN b) r) (\<lambda>r'. Inr (True, r', D1, k)))
      | DUK_TYPE_NUMBER \<Rightarrow> res_bind (put_value 0 (RESULT_NUMBER (duk_to_number api (-1) D)) r) (\<lambda>r'. Inr (True, r', D, k))
      | DUK_TYPE_STRING \<Rightarrow>
          res_bind (js_store_string api ops D k) (\<lambda>(stored, v, D1, k1).
          res_bind (put_value 0 v r) (\<lambda>r'. Inr (stored, r', D1, k1)))
      | DUK_TYPE_OBJECT \<Rightarrow>
          (if duk_is_array api (-1) D
           then res_bind (unprotected (duk_get_length api (-1) D k)) (\<lambda>(n, D1, k1).
             js_store_elements api ops (to_int n) D1 k1 (r\<lparr>nvalues := 0\<rparr>))
           else res_bind (put_value (nvalues r) RESULT_ERROR r) (\<lambda>r'. Inr (True, r', D, k)))
      | _ \<Rightarrow> res_bind (put_value 0 RESULT_ERROR r) (\<lambda>r'. Inr (False, r', D, k)))"

section \<open>Executing\<close>

text \<open>The three hidden fields before the call, and after it.\<close>

definition js_host_fields :: "(string \<times> host_ptr) list" where
  "js_host_fields = [(hidden ''_ctx'', Ptr_Ctx), (hidden ''_script'', Ptr_Script), (hidden ''_state'', Ptr_State)]"

definition js_set_host_fields :: "('l, 'd, 'k) duk_api \<Rightarrow> 'l \<times> 'k \<Rightarrow> ('l \<times> 'k) res" where
  "js_set_host_fields api =
     res_fold (\<lambda>(field, ptr). js_put_new api (-3) (field, duk_push_pointer api ptr)) js_host_fields"

definition js_clear_host_fields :: "('l, 'd, 'k) duk_api \<Rightarrow> 'l \<times> 'k \<Rightarrow> ('l \<times> 'k) res" where
  "js_clear_host_fields api =
     res_fold (\<lambda>(field, ptr). js_put_new api (-2) (field, duk_push_null api)) js_host_fields"

definition js_set_argv :: "('l, 'd, 'k) duk_api \<Rightarrow> int \<Rightarrow> string option list \<Rightarrow> 'l \<Rightarrow> 'k \<Rightarrow> ('l \<times> 'k) res" where
  "js_set_argv api argc argv D k =
     (let idx = duk_get_top api D in
      res_bind (res_fold (\<lambda>i (D, k).
          if i < length argv
          then res_bind (unprotected (duk_put_prop_index api idx (int i) (duk_push_string api (argv ! i) D) k))
            (\<lambda>(_, D', k'). Inr (D', k'))
          else Inl Out_Of_Bounds)
        [0..<nat argc] (duk_push_array api D, k)) (\<lambda>(D1, k1).
      res_bind (unprotected (duk_put_global_string api ''ARGV'' D1 k1)) (\<lambda>(_, D2, k2). Inr (D2, k2))))"

text \<open>
  After the call: the result is stored, or \<open>values[0]\<close> becomes an error; then the result is popped and the
  host fields are cleared.
\<close>

definition js_finish_call ::
  "('l, 'd, 'w, 'h, 're) duk \<Rightarrow> 'w ws_ops \<Rightarrow> bool \<Rightarrow> 'l \<Rightarrow> ('w, 'h, 're) host \<Rightarrow> 'd result
    \<Rightarrow> (bool \<times> 'd result \<times> 'l \<times> ('w, 'h, 're) host) res" where
  "js_finish_call api ops called D k r =
     res_bind
       (if called
        then res_bind (js_post_execute api ops D k r) (\<lambda>(success, r1, D1, k1).
          if success then Inr (True, r1, D1, k1)
          else res_bind (put_value 0 RESULT_ERROR r1) (\<lambda>r2. Inr (False, r2, D1, k1)))
        else res_bind (put_value 0 RESULT_ERROR r) (\<lambda>r1.
          res_bind (duk_safe_to_string api (-1) D k) (\<lambda>(_, D1, k1). Inr (False, r1, D1, k1))))
       (\<lambda>(success, r', D', k').
          res_bind (js_clear_host_fields api (duk_pop api 1 D', k')) (\<lambda>(D'', k''). Inr (success, r', D'', k'')))"

definition js_call_function ::
  "('l, 'd, 'w, 'h, 're) duk \<Rightarrow> 'w ws_ops \<Rightarrow> 'd task_state \<Rightarrow> 'l \<Rightarrow> ('w, 'h, 're) host
    \<Rightarrow> (bool \<times> 'd result \<times> 'l \<times> ('w, 'h, 're) host) res" where
  "js_call_function api ops state D k =
     res_bind (js_set_host_fields api (D, k)) (\<lambda>(D1, k1).
     res_bind (js_set_argv api (ts_argc state) (ts_argv state) D1 k1) (\<lambda>(D2, k2).
     res_bind (duk_pcall api 0 D2 k2) (\<lambda>(called, D3, k3).
       js_finish_call api ops called D3 k3 (ts_result state))))"

definition js_run_on_engine :: "('l, 'd, 'w, 'h, 're) duk \<Rightarrow> 'w ws_ops \<Rightarrow> ('l, 'd, 'w, 'h, 're) engine_run" where
  "js_run_on_engine api ops script code name state D k =
     res_bind (js_push_function api (sc_sandboxing script) code name D k) (\<lambda>(ready, unknown, D1, k1).
     res_bind
       (if ready
        then (case state of
            Some s \<Rightarrow> res_bind (js_call_function api ops s D1 k1) (\<lambda>(success, r, D2, k2). Inr (success, Some r, D2, k2))
          | None \<Rightarrow> Inr (True, None, duk_pop api 1 D1, k1))
        else Inr (False, map_option ts_result state, D1, k1))
       (\<lambda>(success, r, D2, k2). Inr (success, unknown, r, duk_pop api 1 D2, k2)))"

text \<open>The calls of the garbage collector, two every time, and the whole of \<open>execute_javascript\<close>.\<close>

definition js_collect_garbage ::
  "('l, 'd, 'k) duk_api \<Rightarrow> ('re, 'e) cfg_script \<Rightarrow> bool \<Rightarrow> uint32 \<Rightarrow> 'l \<Rightarrow> (bool \<times> 'l) res" where
  "js_collect_garbage api =
     collect_garbage (\<lambda>D. duk_gc api (duk_gc api D)) (\<lambda>script D. duk_gc api (duk_gc api D))"

definition execute_javascript ::
  "('l, 'd, 'w, 'h, 're) duk \<Rightarrow> 'w ws_ops \<Rightarrow> string \<Rightarrow> (string \<Rightarrow> string) \<Rightarrow> ('l pool \<Rightarrow> nat)
    \<Rightarrow> ('w, 'h http_ctx, 're, 'l, 'd) execute" where
  "execute_javascript api ops helpers =
     execute_script (js_run_on_engine api ops) (js_collect_garbage api) get_javascript_engine_used_memory
       (new_javascript_engine api helpers)"

section \<open>The stack of a new engine\<close>

lemma js_put_new_outcome:
  assumes "js_laws ho api stk" "tl (stk (push D)) = stk D" "js_put_new api i (name, push) (D, k) = Inr (D', k')"
  shows "(host_step ho)\<^sup>*\<^sup>* k k' \<and> stk D' = stk D"
proof -
  have put: "unprotected (duk_put_prop_string api i name (push D) k) = Inr ((), D', k')"
    using assms(3) by (auto simp: js_put_new_def res_bind_eq_Inr_iff)
  show ?thesis
    using unprotected_does[OF js_does_props(4)[OF assms(1)] put] assms(2) by simp
qed

lemma js_put_all_outcome:
  assumes "js_laws ho api stk" "\<And>x D. x \<in> set xs \<Longrightarrow> tl (stk (push x D)) = stk D"
    and "res_fold (\<lambda>x. js_put_new api i (name x, push x)) xs (D, k) = Inr (D', k')"
  shows "(host_step ho)\<^sup>*\<^sup>* k k' \<and> stk D' = stk D"
proof -
  define I where "I = (\<lambda>(D1, k1). (host_step ho)\<^sup>*\<^sup>* k k1 \<and> stk D1 = stk D)"
  have "I (D', k')"
    by (rule res_fold_inv[of I, OF _ _ assms(3)])
       (auto simp: I_def assms(2) intro: rtranclp_trans dest!: js_put_new_outcome[OF assms(1), rotated])
  then show ?thesis by (simp add: I_def)
qed

lemma js_put_list_outcome:
  assumes "js_laws ho api stk" "\<forall>x \<in> set xs. \<forall>D. tl (stk (snd x D)) = stk D"
    and "res_fold (js_put_new api i) xs (D, k) = Inr (D', k')"
  shows "(host_step ho)\<^sup>*\<^sup>* k k' \<and> stk D' = stk D"
  using js_put_all_outcome[OF assms(1), of xs snd i fst] assms(2,3) by simp

lemma js_new_context_stack:
  assumes "js_laws ho api stk" "js_new_context api helpers k = Inr D"
  shows "stk D = []"
proof -
  note pushes = js_stack_pushes[OF assms(1)] and props = unprotected_does(2)[OF js_does_props(1)[OF assms(1)]]
    unprotected_does(2)[OF js_does_props(2)[OF assms(1)]] unprotected_does(2)[OF js_does_props(3)[OF assms(1)]]
  obtain i D1 k1 D2 k2 D3 k3 D4 k4 D5 k5 D6 k6 where steps:
      "res_fold (js_put_new api i) (js_varnish_properties api) (duk_push_object api (duk_create_heap api), k) = Inr (D1, k1)"
      "unprotected (duk_put_global_string api ''varnish'' D1 k1) = Inr ((), D2, k2)"
      "unprotected (duk_get_global_string api ''varnish'' D2 k2) = Inr ((), D3, k3)"
      "unprotected (duk_get_prop_string api (-1) ''shared'' D3 k3) = Inr ((), D4, k4)"
      "res_fold (js_put_new api (-2)) (js_shared_properties api) (D4, k4) = Inr (D5, k5)"
      "duk_peval_lstring api helpers (duk_pop api 2 D5) k5 = Inr (True, D6, k6)" "D = duk_pop api 1 D6"
    using assms(2) by (auto simp: js_new_context_def res_bind_eq_Inr_iff must_eq_Inr_iff Let_def)
  have "\<forall>x \<in> set (js_varnish_properties api). \<forall>D. tl (stk (snd x D)) = stk D"
      "\<forall>x \<in> set (js_shared_properties api). \<forall>D. tl (stk (snd x D)) = stk D"
    by (auto simp: js_varnish_properties_def js_shared_properties_def pushes(4,7,9))
  note puts = js_put_list_outcome[OF assms(1) this(1) steps(1)] js_put_list_outcome[OF assms(1) this(2) steps(5)]
  have "stk D2 = []" using props(2)[OF steps(2)] puts(1) pushes(1,7) by simp
  then obtain v w where "stk D4 = [w, v]"
    using props(1)[OF steps(3)] props(3)[OF steps(4)] by auto
  then have "stk (duk_pop api 2 D5) = []" using puts(2) pushes(2)[of 2 D5] by simp
  then show ?thesis
    using js_stack_code(1)[OF assms(1) steps(6)] steps(7) pushes(2)[of 1 D6] by auto
qed

section \<open>The stack of an execution\<close>

lemma js_pre_execute_outcome:
  assumes "js_laws ho api stk" "js_pre_execute api sandboxing code name D k = Inr (ok, D', k')"
  shows "(host_step ho)\<^sup>*\<^sup>* k k' \<and> stk D' = stk D"
proof -
  obtain ok1 D1 k1 where eval: "duk_peval_lstring api (js_function_source sandboxing name code) D k = Inr (ok1, D1, k1)"
    and rest: "(if ok1 then Inr (True, duk_pop api 1 D1, k1)
       else res_bind (duk_safe_to_string api (-1) D1 k1) (\<lambda>(_, D2, k2). Inr (False, duk_pop api 1 D2, k2))) = Inr (ok, D', k')"
    using assms(2) by (auto simp: js_pre_execute_def res_bind_eq_Inr_iff)
  obtain v where D1: "(host_step ho)\<^sup>*\<^sup>* k k1" "stk D1 = v # stk D"
    using js_stack_code(1)[OF assms(1) eval] by blast
  show ?thesis
  proof (cases ok1)
    case True
    then show ?thesis using rest D1 js_stack_pushes(2)[OF assms(1), of 1 D1] by simp
  next
    case False
    then obtain s D2 where str: "duk_safe_to_string api (-1) D1 k1 = Inr (s, D2, k')" and D': "D' = duk_pop api 1 D2"
      using rest by (auto simp: res_bind_eq_Inr_iff)
    have "(host_step ho)\<^sup>*\<^sup>* k1 k'" "stk D2 = Js_String s # stk D"
      using js_to_string(1)[OF assms(1) _ str] D1(2) by simp_all
    then show ?thesis
      using D1(1) D' js_stack_pushes(2)[OF assms(1), of 1 D2] by (auto intro: rtranclp_trans)
  qed
qed

lemma js_push_function_outcome:
  assumes "js_laws ho api stk" "js_push_function api sandboxing code name D k = Inr (ready, unknown, D', k')"
  shows "(host_step ho)\<^sup>*\<^sup>* k k' \<and> (\<exists>f v. stk D' = (if ready then [f, v] else [v]) @ stk D)"
proof -
  note pop = js_stack_pushes(2)[OF assms(1)] and global = unprotected_does[OF js_does_props(1)[OF assms(1)]]
  obtain D1 k1 D2 k2 where steps: "unprotected (duk_get_global_string api ''varnish'' D k) = Inr ((), D1, k1)"
      "unprotected (duk_get_global_string api name D1 k1) = Inr ((), D2, k2)"
    and rest: "(if duk_is_function api (-1) D2 then Inr (True, False, D2, k2)
       else res_bind (js_pre_execute api sandboxing code name (duk_pop api 1 D2) k2) (\<lambda>(ok, D3, k3).
           if ok then res_bind (unprotected (duk_get_global_string api name D3 k3)) (\<lambda>(_, D4, k4).
             must (duk_is_function api (-1) D4) (Inr (True, True, D4, k4)))
           else Inr (False, True, D3, k3))) = Inr (ready, unknown, D', k')"
    using assms(2) by (auto simp: js_push_function_def res_bind_eq_Inr_iff must_eq_Inr_iff)
  obtain v where D1: "stk D1 = v # stk D" using global(2)[OF steps(1)] by blast
  obtain f where D2: "stk D2 = f # v # stk D" using global(2)[OF steps(2)] D1 by auto
  have k2: "(host_step ho)\<^sup>*\<^sup>* k k2"
    using global(1)[OF steps(1)] global(1)[OF steps(2)] by (rule rtranclp_trans)
  show ?thesis
  proof (cases "duk_is_function api (-1) D2")
    case True
    then show ?thesis using rest D2 k2 by auto
  next
    case False
    then obtain ok D3 k3 where pre: "js_pre_execute api sandboxing code name (duk_pop api 1 D2) k2 = Inr (ok, D3, k3)"
      and fin: "(if ok then res_bind (unprotected (duk_get_global_string api name D3 k3)) (\<lambda>(_, D4, k4).
             must (duk_is_function api (-1) D4) (Inr (True, True, D4, k4)))
           else Inr (False, True, D3, k3)) = Inr (ready, unknown, D', k')"
      using rest by (auto simp: res_bind_eq_Inr_iff)
    have D3: "stk D3 = v # stk D" and k3: "(host_step ho)\<^sup>*\<^sup>* k k3"
      using js_pre_execute_outcome[OF assms(1) pre] D2 pop[of 1 D2] k2 by (auto intro: rtranclp_trans)
    show ?thesis
    proof (cases ok)
      case False
      then show ?thesis using fin D3 k3 by auto
    next
      case True
      then have get: "unprotected (duk_get_global_string api name D3 k3) = Inr ((), D', k')" "ready"
        using fin by (auto simp: res_bind_eq_Inr_iff must_eq_Inr_iff)
      show ?thesis
        using global(1)[OF get(1)] global(2)[OF get(1)] get(2) D3 k3 by (auto intro: rtranclp_trans)
    qed
  qed
qed

lemma js_host_fields_outcome:
  assumes "js_laws ho api stk"
  shows "js_set_host_fields api (D, k) = Inr (D', k') \<Longrightarrow> (host_step ho)\<^sup>*\<^sup>* k k' \<and> stk D' = stk D"
    and "js_clear_host_fields api (D, k) = Inr (D', k') \<Longrightarrow> (host_step ho)\<^sup>*\<^sup>* k k' \<and> stk D' = stk D"
proof -
  note pushes = js_stack_pushes(3,6)[OF assms]
  show "(host_step ho)\<^sup>*\<^sup>* k k' \<and> stk D' = stk D" if "js_set_host_fields api (D, k) = Inr (D', k')"
    using js_put_all_outcome[OF assms, of js_host_fields "\<lambda>x. duk_push_pointer api (snd x)" "-3" fst D k D' k'] that
    by (simp add: js_set_host_fields_def case_prod_unfold pushes)
  show "(host_step ho)\<^sup>*\<^sup>* k k' \<and> stk D' = stk D" if "js_clear_host_fields api (D, k) = Inr (D', k')"
    using js_put_all_outcome[OF assms, of js_host_fields "\<lambda>x. duk_push_null api" "-2" fst D k D' k'] that
    by (simp add: js_clear_host_fields_def case_prod_unfold pushes)
qed

lemma js_set_argv_outcome:
  assumes "js_laws ho api stk" "js_set_argv api argc argv D k = Inr (D', k')"
  shows "(host_step ho)\<^sup>*\<^sup>* k k' \<and> stk D' = stk D"
proof -
  define step where "step = (\<lambda>i (D1, k1). if i < length argv
      then res_bind (unprotected (duk_put_prop_index api (duk_get_top api D) (int i) (duk_push_string api (argv ! i) D1) k1))
        (\<lambda>(_, D', k'). Inr (D', k'))
      else Inl Out_Of_Bounds)"
  obtain D1 k1 where fold: "res_fold step [0..<nat argc] (duk_push_array api D, k) = Inr (D1, k1)"
    and put: "unprotected (duk_put_global_string api ''ARGV'' D1 k1) = Inr ((), D', k')"
    using assms(2) by (auto simp: js_set_argv_def res_bind_eq_Inr_iff Let_def step_def)
  define I where "I = (\<lambda>(D2, k2). (host_step ho)\<^sup>*\<^sup>* k k2 \<and> stk D2 = stk (duk_push_array api D))"
  have "I (D1, k1)"
  proof (rule res_fold_inv[of I, OF _ _ fold])
    fix i s s' assume "I s" "step i s = Inr s'"
    moreover obtain D2 k2 D3 k3 where "s = (D2, k2)" "s' = (D3, k3)" by (cases s; cases s')
    ultimately have D2: "(host_step ho)\<^sup>*\<^sup>* k k2" "stk D2 = stk (duk_push_array api D)"
      and put: "unprotected (duk_put_prop_index api (duk_get_top api D) (int i) (duk_push_string api (argv ! i) D2) k2) = Inr ((), D3, k3)"
      by (auto simp: I_def step_def res_bind_eq_Inr_iff split: if_splits)
    have "(host_step ho)\<^sup>*\<^sup>* k2 k3" "stk D3 = stk D2"
      using unprotected_does[OF js_does_props(6)[OF assms(1)] put] js_stack_pushes(5)[OF assms(1)] by simp_all
    then show "I s'" using D2 \<open>s' = (D3, k3)\<close> by (auto simp: I_def intro: rtranclp_trans)
  qed (simp add: I_def)
  then show ?thesis
    using unprotected_does[OF js_does_props(2)[OF assms(1)] put] js_stack_pushes(8)[OF assms(1)]
    by (auto simp: I_def intro: rtranclp_trans)
qed

section \<open>What is stored\<close>

text \<open>The task failed in between.\<close>

definition failed_since :: "('w, 'h, 're) host \<Rightarrow> ('w, 'h, 're) host \<Rightarrow> bool" where
  "failed_since k k' \<longleftrightarrow> length (ctx_fails (h_ctx k)) < length (ctx_fails (h_ctx k'))"

lemma failed_since_trans:
  "host_keeps ho k k1 \<Longrightarrow> failed_since k1 k2 \<Longrightarrow> failed_since k k2"
  "failed_since k k1 \<Longrightarrow> host_keeps ho k1 k2 \<Longrightarrow> failed_since k k2"
  by (auto simp: failed_since_def host_keeps_def fails_grow_def)

lemma js_store_string_outcome:
  assumes "js_laws ho api stk" "stk D = v # vs" "js_store_string api ops D k = Inr (stored, w, D', k')"
  shows "host_keeps ho k k' \<and> (\<exists>u. stk D' = u # vs) \<and> (stored \<or> failed_since k k')"
proof -
  obtain s D1 k1 ctx copied where str: "duk_safe_to_string api (-1) D k = Inr (s, D1, k1)"
      and copy: "copy_or_fail ops (h_ctx k1) s = (ctx, copied)"
      and res: "stored = (copied \<noteq> None)" "D' = D1" "k' = k1\<lparr>h_ctx := ctx\<rparr>"
    using assms(3) by (auto simp: js_store_string_def res_bind_eq_Inr_iff case_prod_unfold
        intro: that[OF _ prod.collapse[symmetric]])
  have D1: "host_keeps ho k k1" "stk D1 = Js_String s # vs"
    using js_to_string(1)[OF assms(1) _ str] host_steps_keep assms(2) by auto
  have "host_keeps ho k1 k'" using copy_or_fail_grow[OF copy] host_keeps_ctx res(3) by blast
  moreover have "stored \<or> failed_since k1 k'"
    using copy_or_fail_fails[OF copy] res by (simp add: failed_since_def)
  ultimately show ?thesis
    using D1 res(2) host_keeps_trans failed_since_trans(1) by blast
qed

lemma js_store_element_outcome:
  assumes "js_laws ho api stk" "stk D = v # vs" "js_store_element api ops D k = Inr (stored, w, D', k')"
  shows "host_keeps ho k k' \<and> (\<exists>u. stk D' = u # vs) \<and> (stored \<or> failed_since k k')"
proof (cases "\<exists>s. v = Js_String s")
  case True
  then have "js_store_string api ops D k = Inr (stored, w, D', k')"
    using assms(3) js_stack_reads(1)[OF assms(1,2)] by (auto simp: js_store_element_def)
  then show ?thesis by (rule js_store_string_outcome[OF assms(1,2)])
next
  case False
  then show ?thesis
    using assms(2,3) js_stack_reads(1,7)[OF assms(1,2)]
    by (cases v) (auto simp: js_store_element_def case_prod_unfold)
qed

lemma js_store_elements_outcome:
  assumes "js_laws ho api stk" "result_ok r" "0 \<le> nvalues r"
    and "js_store_elements api ops len D k r = Inr (ok, r', D', k')"
  shows "result_ok r' \<and> host_keeps ho k k'
    \<and> (if ok then stk D' = stk D \<and> nvalues r' = max (nvalues r) (min len (int MAX_RESULT_VALUES))
       else (\<exists>x. stk D' = x # stk D) \<and> failed_since k k')"
  using assms(2-4)
proof (induction "nat (int MAX_RESULT_VALUES - nvalues r)" arbitrary: D k r rule: less_induct)
  case less
  show ?case
  proof (cases "nvalues r < len \<and> nvalues r \<noteq> int MAX_RESULT_VALUES")
    case False
    then have "ok" "r' = r" "D' = D" "k' = k"
      using less.prems(3) unfolding js_store_elements.simps[of api ops len D k r] if_not_P[OF False] by simp_all
    then show ?thesis using less.prems(1) False by (auto simp: result_ok_def)
  next
    case True
    then obtain D1 k1 stored v D2 k2 r1 where
        get: "unprotected (duk_get_prop_index api (-1) (nvalues r) D k) = Inr ((), D1, k1)"
      and element: "js_store_element api ops D1 k1 = Inr (stored, v, D2, k2)"
      and put: "put_value (nvalues r) v r = Inr r1"
      and rest: "(if \<not> stored then Inr (False, r1, D2, k2)
          else js_store_elements api ops len (duk_pop api 1 D2) k2 (r1\<lparr>nvalues := nvalues r1 + 1\<rparr>)) = Inr (ok, r', D', k')"
      using less.prems(3) by (subst (asm) js_store_elements.simps) (auto simp: res_bind_eq_Inr_iff)
    obtain x where D1: "stk D1 = x # stk D" "host_keeps ho k k1"
      using unprotected_does[OF js_does_props(5)[OF assms(1)] get] host_steps_keep by blast
    note outcome = js_store_element_outcome[OF assms(1) D1(1) element]
    then obtain u where D2: "stk D2 = u # stk D" and k2: "host_keeps ho k k2"
      using host_keeps_trans[OF D1(2)] by blast
    have r1: "result_ok r1" "nvalues r1 = nvalues r" "nvalues r < int MAX_RESULT_VALUES"
      using put_value_keeps[OF put less.prems(1)] put less.prems(1) by (auto simp: put_value_iff result_ok_def)
    show ?thesis
    proof (cases stored)
      case False
      then have "ok = False" "r' = r1" "D' = D2" "k' = k2" using rest by simp_all
      then show ?thesis using False outcome r1(1) D2 k2 failed_since_trans(1)[OF D1(2)] by simp
    next
      case stored: True
      let ?r = "r1\<lparr>nvalues := nvalues r1 + 1\<rparr>"
      have run: "js_store_elements api ops len (duk_pop api 1 D2) k2 ?r = Inr (ok, r', D', k')"
        using rest stored by simp
      have next_ok: "nat (int MAX_RESULT_VALUES - nvalues ?r) < nat (int MAX_RESULT_VALUES - nvalues r)"
          "result_ok ?r" "0 \<le> nvalues ?r"
        using r1 less.prems(2) by (auto simp: result_ok_def)
      have popped: "stk (duk_pop api 1 D2) = stk D"
        using js_stack_pushes(2)[OF assms(1), of 1 D2] D2 by simp
      note ih = less.hyps[OF next_ok run, unfolded popped]
      have "max (nvalues ?r) (min len (int MAX_RESULT_VALUES)) = max (nvalues r) (min len (int MAX_RESULT_VALUES))"
        using True r1(2,3) by simp
      with ih show ?thesis
        using host_keeps_trans[OF k2] failed_since_trans(1)[OF k2] by auto
    qed
  qed
qed

lemma js_post_execute_outcome:
  assumes "js_laws ho api stk" "stk D = v # vs" "result_ok r" "js_post_execute api ops D k r = Inr (ok, r', D', k')"
  shows "result_ok r' \<and> host_keeps ho k k'
    \<and> (if v = Js_Object Array_Object \<and> \<not> ok then (\<exists>x. stk D' = x # v # vs) \<and> failed_since k k' else \<exists>u. stk D' = u # vs)"
proof -
  note reads = js_stack_reads[OF assms(1,2)]
  consider (string) s where "v = Js_String s" | (array) "v = Js_Object Array_Object"
    | (other) "\<nexists>s. v = Js_String s" "v \<noteq> Js_Object Array_Object" by blast
  then show ?thesis
  proof cases
    case string
    then obtain w where s: "js_store_string api ops D k = Inr (ok, w, D', k')" "put_value 0 w r = Inr r'"
      using assms(4) reads(1) by (auto simp: js_post_execute_def res_bind_eq_Inr_iff)
    then show ?thesis
      using string js_store_string_outcome[OF assms(1,2) s(1)] put_value_keeps[OF s(2) assms(3)] by simp
  next
    case array
    then obtain n D1 k1 where len: "unprotected (duk_get_length api (-1) D k) = Inr (n, D1, k1)"
        and run: "js_store_elements api ops (to_int n) D1 k1 (r\<lparr>nvalues := 0\<rparr>) = Inr (ok, r', D', k')"
      using assms(4) reads(1,3) by (auto simp: js_post_execute_def res_bind_eq_Inr_iff)
    have D1: "host_keeps ho k k1" "stk D1 = stk D"
      using unprotected_does[OF js_does_props(7)[OF assms(1)] len] host_steps_keep by auto
    have "result_ok (r\<lparr>nvalues := 0\<rparr>)" using assms(3) by (simp add: result_ok_def)
    from js_store_elements_outcome[OF assms(1) this _ run] show ?thesis
      using array D1 assms(2) host_keeps_trans[OF D1(1)] failed_since_trans(1)[OF D1(1)] by (auto split: if_splits)
  next
    case other
    then show ?thesis
      using assms(2-4) reads(1,3,7)
      by (cases v) (auto simp: js_post_execute_def res_bind_eq_Inr_iff case_prod_unfold split: if_splits dest: put_value_keeps)
  qed
qed

text \<open>
  When no accessor of an array throws or stops the process, an array is always stored. \<open>good\<close> are the
  states that are looked at, \<open>\<lambda>_. True\<close> for all of them.
\<close>

definition reads_return :: "('l, 'd, 'k) duk_api \<Rightarrow> ('l \<Rightarrow> 'd js_value list) \<Rightarrow> ('l \<Rightarrow> bool) \<Rightarrow> bool" where
  "reads_return api stk good \<longleftrightarrow>
     (\<forall>D k vs. good D \<longrightarrow> stk D = Js_Object Array_Object # vs \<longrightarrow>
         (\<exists>n D' k'. duk_get_length api (-1) D k = Inr (Some n, D', k') \<and> good D'))
     \<and> (\<forall>i D k vs. good D \<longrightarrow> stk D = Js_Object Array_Object # vs \<longrightarrow>
         (\<exists>D' k'. duk_get_prop_index api (-1) i D k = Inr (Some (), D', k') \<and> good D'))
     \<and> (\<forall>D k. good D \<longrightarrow> stk D \<noteq> [] \<longrightarrow>
         (\<exists>s D' k'. duk_safe_to_string api (-1) D k = Inr (s, D', k') \<and> good D'))
     \<and> (\<forall>n D. good D \<longrightarrow> good (duk_pop api n D))
     \<and> (\<forall>i D. good D \<longrightarrow> good (snd (duk_to_boolean api i D)))"

lemma reads_returnD:
  assumes "reads_return api stk good" "good D"
  shows "stk D = Js_Object Array_Object # vs \<Longrightarrow> \<exists>n D' k'. duk_get_length api (-1) D k = Inr (Some n, D', k') \<and> good D'"
    and "stk D = Js_Object Array_Object # vs \<Longrightarrow> \<exists>D' k'. duk_get_prop_index api (-1) i D k = Inr (Some (), D', k') \<and> good D'"
    and "stk D \<noteq> [] \<Longrightarrow> \<exists>s D' k'. duk_safe_to_string api (-1) D k = Inr (s, D', k') \<and> good D'"
    and "good (duk_pop api n D)" "good (snd (duk_to_boolean api i D))"
  using assms unfolding reads_return_def by blast+

lemma js_store_string_ends:
  assumes "reads_return api stk good" "good D" "stk D \<noteq> []"
  shows "ends (js_store_string api ops D k) (\<lambda>(stored, v, D', k'). good D')"
proof -
  obtain s D1 k1 where "duk_safe_to_string api (-1) D k = Inr (s, D1, k1)" "good D1"
    using reads_returnD(3)[OF assms] by blast
  then show ?thesis by (simp add: js_store_string_def case_prod_unfold)
qed

lemma js_store_element_ends:
  assumes "reads_return api stk good" "good D" "stk D \<noteq> []"
  shows "ends (js_store_element api ops D k) (\<lambda>(stored, v, D', k'). good D')"
  using js_store_string_ends[OF assms] reads_returnD(5)[OF assms(1,2)] assms(2)
  by (cases "duk_get_type api (-1) D") (simp_all add: js_store_element_def case_prod_unfold)

lemma js_store_elements_end:
  assumes "js_laws ho api stk" "reads_return api stk good"
    and "good D" "stk D = Js_Object Array_Object # vs" "result_ok r" "0 \<le> nvalues r"
  shows "ends (js_store_elements api ops len D k r) (\<lambda>(ok, r', D', k'). good D')"
  using assms(3-)
proof (induction "nat (int MAX_RESULT_VALUES - nvalues r)" arbitrary: D k r rule: less_induct)
  case less
  show ?case
  proof (cases "nvalues r < len \<and> nvalues r \<noteq> int MAX_RESULT_VALUES")
    case False
    then show ?thesis unfolding js_store_elements.simps[of api ops len D k r] if_not_P[OF False] using less.prems(1) by simp
  next
    case True
    obtain D1 k1 where get: "duk_get_prop_index api (-1) (nvalues r) D k = Inr (Some (), D1, k1)" and g1: "good D1"
      using reads_returnD(2)[OF assms(2) less.prems(1,2)] by blast
    obtain x where s1: "stk D1 = x # stk D"
      using js_doesD(2)[OF js_does_props(5)[OF assms(1)] get] by blast
    obtain stored v D2 k2 where element: "js_store_element api ops D1 k1 = Inr (stored, v, D2, k2)" and g2: "good D2"
      using js_store_element_ends[OF assms(2) g1, of ops k1] s1 by (auto simp: ends_def)
    obtain u where s2: "stk D2 = u # stk D"
      using js_store_element_outcome[OF assms(1) s1 element] by blast
    then have popped: "stk (duk_pop api 1 D2) = Js_Object Array_Object # vs"
      using js_stack_pushes(2)[OF assms(1), of 1 D2] less.prems(2) by simp
    define r1 where "r1 = r\<lparr>result_values := (result_values r)[nat (nvalues r) := v]\<rparr>"
    have put: "put_value (nvalues r) v r = Inr r1" "nvalues r < int MAX_RESULT_VALUES"
      using less.prems True by (auto simp: put_value_def result_ok_def r1_def)
    let ?r = "r1\<lparr>nvalues := nvalues r1 + 1\<rparr>"
    have "nat (int MAX_RESULT_VALUES - nvalues ?r) < nat (int MAX_RESULT_VALUES - nvalues r)" "result_ok ?r" "0 \<le> nvalues ?r"
      using less.prems put(2) by (auto simp: result_ok_def r1_def)
    note rest = less.hyps[OF this(1) reads_returnD(4)[OF assms(2) g2] popped this(2,3), of k2]
    have "js_store_elements api ops len D k r = (if \<not> stored then Inr (False, r1, D2, k2)
          else js_store_elements api ops len (duk_pop api 1 D2) k2 ?r)"
      unfolding js_store_elements.simps[of api ops len D k r] if_P[OF True]
      by (simp add: unprotected_def get element put(1))
    then show ?thesis using rest g2 by simp
  qed
qed

lemma js_post_execute_ends:
  assumes "js_laws ho api stk" "reads_return api stk good" "good D" "stk D = v # vs" "result_ok r"
    and "\<And>c. v = Js_Object c \<Longrightarrow> c = Array_Object"
  shows "ends (js_post_execute api ops D k r) (\<lambda>(ok, r', D', k'). good D')"
proof -
  note reads = js_stack_reads[OF assms(1,4)] and first = put_value_first[OF assms(5)]
  consider (string) s where "v = Js_String s" | (array) "v = Js_Object Array_Object"
    | (other) "\<nexists>s. v = Js_String s" "\<nexists>c. v = Js_Object c" using assms(6) by blast
  then show ?thesis
  proof cases
    case string
    obtain stored w D1 k1 where "js_store_string api ops D k = Inr (stored, w, D1, k1)" "good D1"
      using js_store_string_ends[OF assms(2,3), of ops k] assms(4) by (auto simp: ends_def)
    then show ?thesis using string reads(1) first by (simp add: js_post_execute_def)
  next
    case array
    obtain n D1 k1 where len: "duk_get_length api (-1) D k = Inr (Some n, D1, k1)" and g1: "good D1"
      using reads_returnD(1)[OF assms(2,3) assms(4)[unfolded array]] by blast
    have s1: "stk D1 = Js_Object Array_Object # vs"
      using js_doesD(2)[OF js_does_props(7)[OF assms(1)] len] assms(4) array by simp
    have "result_ok (r\<lparr>nvalues := 0\<rparr>)" using assms(5) by (simp add: result_ok_def)
    from js_store_elements_end[OF assms(1,2) g1 s1 this, of ops "to_int n" k1] show ?thesis
      using array reads(1,3) by (simp add: js_post_execute_def unprotected_def len)
  next
    case other
    then show ?thesis
      using reads(1) first reads_returnD(5)[OF assms(2,3)] assms(3)
      by (cases v) (simp_all add: js_post_execute_def case_prod_unfold)
  qed
qed

lemma js_finish_call_outcome:
  assumes "js_laws ho api stk" "stk D = v # vs" "result_ok r"
    and "js_finish_call api ops called D k r = Inr (success, r', D', k')"
  shows "result_ok r' \<and> host_keeps ho k k' \<and> (stk D' = vs \<or> \<not> success \<and> stk D' = v # vs \<and> failed_since k k')"
proof -
  note pop = js_stack_pushes(2)[OF assms(1)]
  have finish: "host_keeps ho k1 k' \<and> stk D' = tl (stk D1)"
    if "js_clear_host_fields api (duk_pop api 1 D1, k1) = Inr (D', k')" "stk D1 = u # us" for D1 k1 u us
    using js_host_fields_outcome(2)[OF assms(1) that(1)] host_steps_keep pop[of 1 D1] that(2) by auto
  show ?thesis
  proof (cases called)
    case False
    then obtain s D1 k1 where steps: "put_value 0 RESULT_ERROR r = Inr r'"
        "duk_safe_to_string api (-1) D k = Inr (s, D1, k1)" "js_clear_host_fields api (duk_pop api 1 D1, k1) = Inr (D', k')"
      using assms(4) by (auto simp: js_finish_call_def res_bind_eq_Inr_iff)
    have D1: "host_keeps ho k k1" "stk D1 = Js_String s # vs"
      using js_to_string(1)[OF assms(1) _ steps(2)] host_steps_keep assms(2) by auto
    show ?thesis
      using finish[OF steps(3) D1(2)] D1 put_value_keeps[OF steps(1) assms(3)] host_keeps_trans by auto
  next
    case True
    then obtain ok r1 D1 k1 where post: "js_post_execute api ops D k r = Inr (ok, r1, D1, k1)"
        and store: "if ok then r' = r1 else put_value 0 RESULT_ERROR r1 = Inr r'" and "success = ok"
        and clear: "js_clear_host_fields api (duk_pop api 1 D1, k1) = Inr (D', k')"
      using assms(4) by (auto simp: js_finish_call_def res_bind_eq_Inr_iff split: if_splits)
    note outcome = js_post_execute_outcome[OF assms(1-3) post]
    have r': "result_ok r'"
      using outcome store put_value_keeps[of 0 RESULT_ERROR r1 r'] by (auto split: if_splits)
    obtain u us where D1: "stk D1 = u # us" using outcome by (auto split: if_splits)
    note cleared = finish[OF clear D1]
    then have "host_keeps ho k k'" using outcome host_keeps_trans by blast
    then show ?thesis
      using r' cleared D1 outcome \<open>success = ok\<close> failed_since_trans(2) by (auto split: if_splits)
  qed
qed

lemma js_call_function_outcome:
  assumes "js_laws ho api stk" "stk D = f # vs" "result_ok (ts_result s)"
    and "js_call_function api ops s D k = Inr (success, r, D', k')"
  shows "result_ok r \<and> host_keeps ho k k' \<and> (stk D' = vs \<or> \<not> success \<and> (\<exists>x. stk D' = x # vs) \<and> failed_since k k')"
proof -
  obtain D1 k1 D2 k2 called D3 k3 where steps: "js_set_host_fields api (D, k) = Inr (D1, k1)"
      "js_set_argv api (ts_argc s) (ts_argv s) D1 k1 = Inr (D2, k2)" "duk_pcall api 0 D2 k2 = Inr (called, D3, k3)"
      "js_finish_call api ops called D3 k3 (ts_result s) = Inr (success, r, D', k')"
    using assms(4) by (auto simp: js_call_function_def res_bind_eq_Inr_iff)
  have "(host_step ho)\<^sup>*\<^sup>* k k1" "(host_step ho)\<^sup>*\<^sup>* k1 k2" "stk D2 = f # vs"
    using js_host_fields_outcome(1)[OF assms(1) steps(1)] js_set_argv_outcome[OF assms(1) steps(2)] assms(2) by simp_all
  moreover obtain x where D3: "stk D3 = x # vs" and "(host_step ho)\<^sup>*\<^sup>* k2 k3"
    using js_stack_code(2)[OF assms(1) steps(3)] calculation(3) by auto
  ultimately have "(host_step ho)\<^sup>*\<^sup>* k k3" by (meson rtranclp_trans)
  then have k3: "host_keeps ho k k3" by (rule host_steps_keep)
  show ?thesis
    using js_finish_call_outcome[OF assms(1) D3 assms(3) steps(4)] host_keeps_trans[OF k3] failed_since_trans(1)[OF k3]
    by blast
qed

lemma js_run_on_engine_outcome:
  assumes "js_laws ho api stk" "\<And>s. state = Some s \<Longrightarrow> result_ok (ts_result s)"
    and "js_run_on_engine api ops script code name state D k = Inr (success, unknown, result, D', k')"
  shows "(case (state, result) of (Some s, Some r) \<Rightarrow> result_ok r | (None, None) \<Rightarrow> True | _ \<Rightarrow> False)
    \<and> host_keeps ho k k' \<and> (stk D' = stk D \<or> \<not> success \<and> (\<exists>x. stk D' = x # stk D) \<and> failed_since k k')"
proof -
  note pop = js_stack_pushes(2)[OF assms(1)]
  obtain ready D1 k1 D2 where push: "js_push_function api (sc_sandboxing script) code name D k = Inr (ready, unknown, D1, k1)"
    and run: "(if ready
        then (case state of
            Some s \<Rightarrow> res_bind (js_call_function api ops s D1 k1) (\<lambda>(success, r, D2, k2). Inr (success, Some r, D2, k2))
          | None \<Rightarrow> Inr (True, None, duk_pop api 1 D1, k1))
        else Inr (False, map_option ts_result state, D1, k1)) = Inr (success, result, D2, k')"
    and D': "D' = duk_pop api 1 D2"
    using assms(3) by (auto simp: js_run_on_engine_def res_bind_eq_Inr_iff)
  obtain f v where D1: "stk D1 = (if ready then [f, v] else [v]) @ stk D" and k1: "host_keeps ho k k1"
    using js_push_function_outcome[OF assms(1) push] host_steps_keep by blast
  consider (early) "\<not> ready" | (check) "ready" "state = None" | (call) s where "ready" "state = Some s"
    by (cases state) auto
  then have "(case (state, result) of (Some s, Some r) \<Rightarrow> result_ok r | (None, None) \<Rightarrow> True | _ \<Rightarrow> False)
    \<and> host_keeps ho k k'
    \<and> (stk D2 = v # stk D \<or> \<not> success \<and> (\<exists>x. stk D2 = x # v # stk D) \<and> failed_since k k')"
  proof cases
    case early
    then have "k' = k1" "D2 = D1" "result = map_option ts_result state" using run by simp_all
    then show ?thesis using D1 k1 assms(2) early by (cases state) simp_all
  next
    case check
    then have "k' = k1" "D2 = duk_pop api 1 D1" "result = None" using run by simp_all
    then show ?thesis using D1 k1 check pop[of 1 D1] by simp
  next
    case (call s)
    then obtain r where c: "js_call_function api ops s D1 k1 = Inr (success, r, D2, k')" "result = Some r"
      using run by (auto simp: res_bind_eq_Inr_iff)
    have "stk D1 = f # v # stk D" using D1 call by simp
    from js_call_function_outcome[OF assms(1) this assms(2)[OF call(2)] c(1)]
    show ?thesis using c(2) call host_keeps_trans[OF k1] failed_since_trans(1)[OF k1] by auto
  qed
  then show ?thesis using D' pop[of 1 D2] by auto
qed

section \<open>The promises of an engine\<close>

lemma new_javascript_engine_stack:
  "js_laws ho api stk \<Longrightarrow> new_javascript_engine api helpers script k = Inr e \<Longrightarrow> stk (eng_ctx e) = []"
  using js_new_context_stack
  by (auto simp: new_javascript_engine_def new_engine_def res_bind_eq_Inr_iff must_eq_Inr_iff)

lemma js_collect_garbage_stack:
  "js_laws ho api stk \<Longrightarrow> js_collect_garbage api script gcc n D = Inr (collected, D') \<Longrightarrow> stk D' = stk D"
  using js_stack_pushes(10) by (fastforce simp: js_collect_garbage_def collect_garbage_def split: if_splits)

text \<open>The stack is only sure to come back to its size when the task did not fail.\<close>

interpretation javascript_engine: script_engine "js_laws ho api stk" ho "js_run_on_engine api ops" "js_collect_garbage api"
    "new_javascript_engine api helpers" "duk_get_top api" "\<lambda>k k'. \<not> failed_since k k'"
  for ho :: "('w, 'h, 're) host_ops" and api :: "('l, 'd, 'w, 'h, 're) duk" and stk ops helpers
proof
  assume laws: "js_laws ho api stk"
  note top = js_stack_top[OF laws]
  fix script :: "('re, 'l) cfg_script"
  show "(case (state, result) of (Some s, Some r) \<Rightarrow> result_ok r | (None, None) \<Rightarrow> True | _ \<Rightarrow> False)
      \<and> host_keeps ho k k' \<and> (\<not> failed_since k k' \<longrightarrow> duk_get_top api D' = duk_get_top api D)"
    if "priv_ok state" and run: "js_run_on_engine api ops script code name state D k = Inr (success, unknown, result, D', k')"
    for code name and state :: "'d task_state option" and D k success unknown result D' k'
  proof -
    have "\<And>s. state = Some s \<Longrightarrow> result_ok (ts_result s)"
      using that(1) by (auto simp: priv_ok_def task_ok_def)
    from js_run_on_engine_outcome[OF laws this run] show ?thesis using top by auto
  qed
  show "duk_get_top api D' = duk_get_top api D" if "js_collect_garbage api script gcc n D = Inr (collected, D')"
    for gcc n D collected D'
    using js_collect_garbage_stack[OF laws that] top by simp
  show "duk_get_top api (eng_ctx e) = 0" if "new_javascript_engine api helpers script k = Inr e" for k e
    using new_javascript_engine_stack[OF laws that] top by simp
qed

section \<open>Properties\<close>

text \<open>
  C38: JavaScript engines come back as they were taken, unless the task fails: whatever a script does, the
  pool is as well formed after an execution that returns as before, with as many engines to be had;
  and when no new failure of the task was recorded and every engine had an empty stack, so it is
  again, new engines included.
\<close>

theorem javascript_engines_stay_clean:
  assumes "js_laws ho api stk" "priv_ok state" "pool_ok (sc_max_engines script) (sc_pool script)"
    and "unused_address (sc_max_cycles script) (sc_pool script) (malloc (sc_pool script))"
    and "engines_clean (get_javascript_engine_stack_size api) (sc_pool script)"
    and "execute_javascript api ops helpers sha256 malloc ctx script state code name gc tc
      = Inr (success, name', ctx', script', state')"
  shows "pool_ok (sc_max_engines script') (sc_pool script')
    \<and> pool_busy (sc_pool script') = pool_busy (sc_pool script)
    \<and> available (sc_max_engines script') (sc_pool script') = available (sc_max_engines script) (sc_pool script)
    \<and> (ctx_fails ctx' = ctx_fails ctx \<longrightarrow> engines_clean (get_javascript_engine_stack_size api) (sc_pool script'))"
  using javascript_engine.execute_pool[OF assms(1-4) assms(6)[unfolded execute_javascript_def]] assms(5)
  by (simp add: get_javascript_engine_stack_size_def[abs_def] failed_since_def)

text \<open>
  C5: What \<open>cfg.script\<close> relies on when it calls \<open>execute_javascript\<close>: the code, its function and the remote
  stay as they are, a task keeps its code and arguments and its result stays within the array; the
  cache of regexps and both trees of shared variables stay well formed, with exact counters; no
  failure of the task is forgotten; and every execution is counted, and counted as failed exactly
  when it failed.
\<close>

theorem execute_javascript_contract:
  assumes "js_laws ho api stk" "ws_faithful (ho_ws ho)" "priv_ok state" "host_ok ho (host_of ctx script state)"
    and "execute_javascript api ops helpers sha256 malloc ctx script state code name gc tc
      = Inr (success, name', ctx', script', state')"
  shows "execute_keeps (execute_javascript api ops helpers sha256 malloc)
    \<and> priv_ok state' \<and> host_ok ho (host_of ctx' script' state') \<and> fails_grow ctx ctx'
    \<and> sc_code script' = sc_code script \<and> sc_function script' = sc_function script \<and> sc_remote script' = sc_remote script
    \<and> ex_total (sc_stats script') = ex_total (sc_stats script) + 1
    \<and> ex_failed (sc_stats script') = ex_failed (sc_stats script) + (if success then 0 else 1)"
proof -
  have keeps: "execute_keeps (execute_javascript api ops helpers sha256 malloc)"
    unfolding execute_javascript_def by (rule javascript_engine.execute_keeps[OF assms(1)])
  then show ?thesis
    using execute_keeps_script[OF keeps assms(5)]
      javascript_engine.execute_host[OF assms(1-4) assms(5)[unfolded execute_javascript_def]]
    by simp
qed

text \<open>
  C39: What each type of value a script returns becomes, in a fresh result. \<open>undefined\<close> and \<open>null\<close>, booleans,
  numbers and strings become the one value, a string possibly failing the task; an array gives
  as many values as it has elements, at most 128, the length being taken as a signed 32-bit number,
  and \<open>post_execute\<close> always returns when no accessor throws; a buffer, a pointer or a light function is an error. But any other object, a
  function included, is stored before the first value: \<open>nvalues\<close> is still -1.
\<close>

theorem javascript_result_outcome:
  assumes "js_laws ho api stk" "stk D = v # vs" "result_ok r" "nvalues r = -1"
  shows "case v of
      Js_Object Array_Object \<Rightarrow>
        (\<forall>ok r' D' k'. js_post_execute api ops D k r = Inr (ok, r', D', k') \<longrightarrow> result_ok r'
          \<and> (ok \<longrightarrow> (\<exists>n D1 k1. duk_get_length api (-1) D k = Inr (Some n, D1, k1)
               \<and> nvalues r' = max 0 (min (to_int n) (int MAX_RESULT_VALUES)))))
        \<and> (reads_return api stk (\<lambda>_. True) \<longrightarrow> returns (js_post_execute api ops D k r))
    | Js_Object c \<Rightarrow> js_post_execute api ops D k r = Inl Out_Of_Bounds
    | Js_String s \<Rightarrow> \<exists>D'. js_post_execute api ops D k r = (case copy_or_fail ops (h_ctx k) s of (ctx, copied) \<Rightarrow>
        Inr (copied \<noteq> None, r\<lparr>result_values := (result_values r)[0 := RESULT_STRING copied]\<rparr>, D', k\<lparr>h_ctx := ctx\<rparr>))
    | _ \<Rightarrow> \<exists>D'. js_post_execute api ops D k r
        = Inr (v = Js_Undefined \<or> v = Js_Null \<or> (\<exists>b. v = Js_Boolean b) \<or> (\<exists>d. v = Js_Number d),
            r\<lparr>result_values := (result_values r)[0 := (case v of
                Js_Undefined \<Rightarrow> RESULT_NIL | Js_Null \<Rightarrow> RESULT_NIL | Js_Boolean b \<Rightarrow> RESULT_BOOLEAN b
              | Js_Number d \<Rightarrow> RESULT_NUMBER d | _ \<Rightarrow> RESULT_ERROR)]\<rparr>, D', k)"
proof -
  note reads = js_stack_reads[OF assms(1,2)] and first = put_value_first[OF assms(3)]
  consider (array) "v = Js_Object Array_Object" | (object) c where "v = Js_Object c" "c \<noteq> Array_Object"
    | (string) s where "v = Js_String s" | (other) "\<nexists>c. v = Js_Object c" "\<nexists>s. v = Js_String s" by blast
  then show ?thesis
  proof cases
    case array
    have "result_ok r' \<and> (ok \<longrightarrow> (\<exists>n D1 k1. duk_get_length api (-1) D k = Inr (Some n, D1, k1)
        \<and> nvalues r' = max 0 (min (to_int n) (int MAX_RESULT_VALUES))))"
      if post: "js_post_execute api ops D k r = Inr (ok, r', D', k')" for ok r' D' k'
    proof -
      obtain n D1 k1 where len: "unprotected (duk_get_length api (-1) D k) = Inr (n, D1, k1)"
          and run: "js_store_elements api ops (to_int n) D1 k1 (r\<lparr>nvalues := 0\<rparr>) = Inr (ok, r', D', k')"
        using post array reads(1,3) by (auto simp: js_post_execute_def res_bind_eq_Inr_iff)
      have "result_ok (r\<lparr>nvalues := 0\<rparr>)" using assms(3) by (simp add: result_ok_def)
      from js_store_elements_outcome[OF assms(1) this _ run] show ?thesis
        using len[unfolded unprotected_Inr_iff] by simp
    qed
    moreover have "returns (js_post_execute api ops D k r)" if "reads_return api stk (\<lambda>_. True)"
      using js_post_execute_ends[OF assms(1) that TrueI assms(2,3), of ops k] array by (auto dest: ends_returnsD(1))
    ultimately show ?thesis using array by simp
  next
    case object
    then show ?thesis
      using reads(1,3) assms(4) by (cases c) (simp_all add: js_post_execute_def put_value_def)
  next
    case string
    then obtain D' where "duk_safe_to_string api (-1) D k = Inr (s, D', k)"
      using js_to_string(2)[OF assms(1)] assms(2) by blast
    then show ?thesis
      using string reads(1) first by (auto simp: js_post_execute_def js_store_string_def split: prod.split)
  next
    case other
    then show ?thesis
      using reads(1,5,6) first by (cases v) (auto simp: js_post_execute_def case_prod_unfold)
  qed
qed


section \<open>An instance\<close>

text \<open>
  A heap that is a stack and a flag, for the witnesses: every call returns \<open>answer\<close>, every array has \<open>n\<close>
  elements \<open>element\<close>, and functions are known after something was evaluated.
\<close>

record js_list =
  jl_stack :: "int js_value list"
  jl_known :: bool

definition jl_push :: "int js_value \<Rightarrow> js_list \<Rightarrow> js_list" where
  "jl_push v D = D\<lparr>jl_stack := v # jl_stack D\<rparr>"

definition jl_drop :: "nat \<Rightarrow> js_list \<Rightarrow> js_list" where
  "jl_drop n D = D\<lparr>jl_stack := drop n (jl_stack D)\<rparr>"

definition jl_at :: "int \<Rightarrow> js_list \<Rightarrow> int js_value" where
  "jl_at i D = jl_stack D ! nat (-1 - i)"

definition jl_set :: "int \<Rightarrow> int js_value \<Rightarrow> js_list \<Rightarrow> js_list" where
  "jl_set i v D = D\<lparr>jl_stack := (jl_stack D)[nat (-1 - i) := v]\<rparr>"

definition jl_text :: "int js_value \<Rightarrow> string" where
  "jl_text v = (case v of Js_String s \<Rightarrow> s | _ \<Rightarrow> [])"

definition list_js :: "int js_value \<Rightarrow> nat \<Rightarrow> int js_value \<Rightarrow> (js_list, int, 'k) duk_api" where
  "list_js answer n element = \<lparr>
     duk_create_heap = \<lparr>jl_stack = [], jl_known = False\<rparr>,
     duk_get_top = (\<lambda>D. int (length (jl_stack D))),
     duk_get_type = (\<lambda>i D. js_type (jl_at i D)),
     duk_is_undefined = (\<lambda>i D. jl_at i D = Js_Undefined),
     duk_is_boolean = (\<lambda>i D. js_type (jl_at i D) = DUK_TYPE_BOOLEAN),
     duk_is_object = (\<lambda>i D. js_type (jl_at i D) = DUK_TYPE_OBJECT),
     duk_is_array = (\<lambda>i D. jl_at i D = Js_Object Array_Object),
     duk_is_function = (\<lambda>i D. jl_at i D \<in> {Js_Object Function_Object, Js_Lightfunc}),
     duk_is_pointer = (\<lambda>i D. js_type (jl_at i D) = DUK_TYPE_POINTER),
     duk_get_boolean = (\<lambda>i D. jl_at i D = Js_Boolean True),
     duk_get_pointer = (\<lambda>i D. case jl_at i D of Js_Pointer p \<Rightarrow> p | _ \<Rightarrow> None),
     duk_to_boolean = (\<lambda>i D. (jl_at i D = Js_Boolean True, jl_set i (Js_Boolean (jl_at i D = Js_Boolean True)) D)),
     duk_to_number = (\<lambda>i D. case jl_at i D of Js_Number d \<Rightarrow> d | _ \<Rightarrow> 0),
     duk_to_string = (\<lambda>i D k. Inr (Some (jl_text (jl_at i D)), jl_set i (Js_String (jl_text (jl_at i D))) D, k)),
     duk_safe_to_string = (\<lambda>i D k. Inr (jl_text (jl_at i D), jl_set i (Js_String (jl_text (jl_at i D))) D, k)),
     duk_pop = jl_drop,
     duk_push_null = jl_push Js_Null,
     duk_push_boolean = (\<lambda>b. jl_push (Js_Boolean b)),
     duk_push_string = (\<lambda>s. jl_push (js_opt_string s)),
     duk_push_pointer = (\<lambda>p. jl_push (Js_Pointer (Some p))),
     duk_push_object = jl_push (Js_Object Plain_Object),
     duk_push_array = jl_push (Js_Object Array_Object),
     duk_push_c_function = (\<lambda>c. jl_push (Js_Object Function_Object)),
     duk_error = (\<lambda>s. jl_push (Js_Object Plain_Object)),
     duk_get_global_string = (\<lambda>name D k. Inr (Some (), jl_push
       (if name = ''varnish'' then Js_Object Plain_Object
        else if jl_known D then Js_Object Function_Object else Js_Undefined) D, k)),
     duk_put_global_string = (\<lambda>name D k. Inr (Some (), jl_drop 1 D, k)),
     duk_get_prop_string = (\<lambda>i name D k. Inr (Some (), jl_push (Js_Object Plain_Object) D, k)),
     duk_put_prop_string = (\<lambda>i name D k. Inr (Some (), jl_drop 1 D, k)),
     duk_get_prop_index = (\<lambda>i j D k. Inr (Some (), jl_push element D, k)),
     duk_put_prop_index = (\<lambda>i j D k. Inr (Some (), jl_drop 1 D, k)),
     duk_get_length = (\<lambda>i D k. Inr (Some n, D, k)),
     duk_peval_lstring = (\<lambda>src D k. Inr (True, (jl_push Js_Undefined D)\<lparr>jl_known := True\<rparr>, k)),
     duk_pcall = (\<lambda>a D k. Inr (True, jl_push answer (jl_drop 1 D), k)),
     duk_gc = id\<rparr>"

lemmas list_js_eval = list_js_def jl_push_def jl_drop_def jl_at_def jl_set_def jl_text_def

lemma list_js_laws: "js_laws ho (list_js answer n element) jl_stack"
proof -
  let ?api = "list_js answer n element :: (js_list, int, _, _, _) duk"
  have "js_reads ?api jl_stack"
    unfolding js_reads_def list_js_def by (auto simp: jl_at_def jl_set_def)
  moreover have "js_pushes ?api jl_stack"
    by (simp add: js_pushes_def list_js_def jl_push_def jl_drop_def)
  moreover have "js_coerces ho ?api jl_stack"
    by (auto simp: js_coerces_def list_js_def jl_at_def jl_set_def jl_text_def list_update_same_conv)
  moreover have "js_properties ho ?api jl_stack"
    by (auto simp: js_properties_def list_js_def jl_push_def jl_drop_def drop_Suc)
  moreover have "js_runs ho ?api jl_stack"
    by (auto simp: js_runs_def list_js_def jl_push_def jl_drop_def drop_Suc)
  ultimately show ?thesis by (simp add: js_laws_def)
qed

definition sample_js_script :: "(string, js_list) cfg_script" where
  "sample_js_script = new_script ''s'' sample_args
     \<lparr>sa_type = Some ENGINE_TYPE_JAVASCRIPT, sa_max_engines = 1, sa_max_cycles = 0, sa_min_gc_cycles = 1,
      sa_enable_sandboxing = True, sa_lua_gc_step_size = 1, sa_lua_remove_loadfile_function = True,
      sa_lua_remove_dotfile_function = True, sa_lua_load_package_lib = True, sa_lua_load_io_lib = False,
      sa_lua_load_os_lib = False\<rparr> ENGINE_TYPE_JAVASCRIPT"

definition sample_js_task :: "int task_state" where
  "sample_js_task = vmod_script_init None (Some ''return true'')"

definition sample_js_host :: "(nat, string, string) host" where
  "sample_js_host = \<lparr>h_ctx = \<lparr>ctx_ws = 99, ctx_method = MET_OTHER, ctx_vsb = [], ctx_fails = [],
       ctx_http = \<lparr>http_req = None, http_req_top = None, http_bereq = None, http_resp = None,
         http_beresp = None, http_obj = None\<rparr>\<rparr>,
     h_regexps = \<lparr>rxs_list = Leaf, rxs_n = 0\<rparr>,
     h_shared = \<lparr>sh_task = Leaf, sh_global = Leaf, sh_n = 0\<rparr>\<rparr>"

definition sample_js_ops :: "(nat, string, string) host_ops" where
  "sample_js_ops = \<lparr>ho_ws = counting_ws, ho_hdr = \<lparr>hdr_get = (\<lambda>h n. Some h), hdr_set = (\<lambda>h n v. v)\<rparr>,
     ho_vre = literal_vre\<rparr>"

lemma list_js_context: "js_new_context (list_js answer n element) helpers k = Inr \<lparr>jl_stack = [], jl_known = True\<rparr>"
  by (simp add: js_new_context_def js_varnish_properties_def js_shared_properties_def js_put_new_def unprotected_def
      list_js_eval Let_def)

lemma list_js_push:
  "name \<noteq> ''varnish'' \<Longrightarrow> js_push_function (list_js answer n element) b code name \<lparr>jl_stack = [], jl_known = True\<rparr> k
    = Inr (True, False, \<lparr>jl_stack = [Js_Object Function_Object, Js_Object Plain_Object], jl_known = True\<rparr>, k)"
  by (simp add: js_push_function_def unprotected_def list_js_eval)

lemma sample_js_call:
  "js_call_function (list_js (Js_Boolean True) n element) ops sample_js_task
      \<lparr>jl_stack = [Js_Object Function_Object, Js_Object Plain_Object], jl_known = True\<rparr> k
    = Inr (True, empty_result\<lparr>result_values := (result_values empty_result)[0 := RESULT_BOOLEAN True]\<rparr>,
        \<lparr>jl_stack = [Js_Object Plain_Object], jl_known = True\<rparr>, k)"
  by (simp add: js_call_function_def js_set_host_fields_def js_clear_host_fields_def js_host_fields_def js_put_new_def
      js_set_argv_def js_finish_call_def js_post_execute_def put_value_def sample_js_task_def vmod_script_init_def
      get_task_state_def new_task_state_def reset_task_state_def empty_result_def MAX_RESULT_VALUES_def unprotected_def
      list_js_eval Let_def)

lemma sample_js_run:
  "\<exists>name' ctx' script' s'. execute_javascript (list_js (Js_Boolean True) 0 Js_Null) counting_ws ''h'' id (\<lambda>p. 7)
      (h_ctx sample_js_host) sample_js_script (Some sample_js_task) ''return true'' None False False
    = Inr (True, name', ctx', script', Some s') \<and> result_values (ts_result s') ! 0 = RESULT_BOOLEAN True
    \<and> ctx_fails ctx' = ctx_fails (h_ctx sample_js_host)"
proof -
  let ?api = "list_js (Js_Boolean True) 0 Js_Null :: (js_list, int, nat, string, string) duk"
  let ?e = "(new_engine \<lparr>jl_stack = [], jl_known = True\<rparr>)\<lparr>eng_memory := 0\<rparr>"
  have made: "new_javascript_engine ?api ''h'' sample_js_script k = Inr ?e" for k
    by (simp add: new_javascript_engine_def list_js_context get_javascript_engine_used_memory_def sample_js_script_def
        new_script_def)
  have lock: "lock_turn (sc_max_engines sample_js_script) (sc_max_cycles sample_js_script) (Inr ?e) 7 (sc_pool sample_js_script)
      = Inr (Some 7, empty_pool\<lparr>pool_heap := [7 \<mapsto> ?e], pool_total := 1, pool_busy := [7], pool_n := 1\<rparr>)"
    by (simp add: lock_turn_def lock_scan.simps sample_js_script_def new_script_def empty_pool_def to_unsigned_def)
  have run: "js_run_on_engine ?api counting_ws script code name (Some sample_js_task) \<lparr>jl_stack = [], jl_known = True\<rparr> k
      = Inr (True, False, Some (empty_result\<lparr>result_values := (result_values empty_result)[0 := RESULT_BOOLEAN True]\<rparr>),
          \<lparr>jl_stack = [], jl_known = True\<rparr>, k)" if "name \<noteq> ''varnish''" for script code name k
    by (simp add: js_run_on_engine_def list_js_push[OF that] sample_js_call) (simp add: list_js_eval)
  have name: "new_function_name id ''return true'' \<noteq> ''varnish''"
    by (simp add: new_function_name_def)
  show ?thesis
    unfolding execute_javascript_def execute_script_def Let_def made lock
    by (simp add: execute_on_def new_engine_def run[OF name] js_collect_garbage_def collect_garbage_def sample_js_script_def
        new_script_def to_unsigned_def unlock_engine_def put_state_def empty_result_def MAX_RESULT_VALUES_def host_of_def)
qed

lemma sample_js_ready:
  "priv_ok (Some sample_js_task)" "pool_ok (sc_max_engines sample_js_script) (sc_pool sample_js_script)"
  "unused_address (sc_max_cycles sample_js_script) (sc_pool sample_js_script) 7"
  "engines_clean size_of (sc_pool sample_js_script)"
  "host_ok sample_js_ops (host_of (h_ctx sample_js_host) sample_js_script (Some sample_js_task))"
  "ws_faithful (ho_ws sample_js_ops)"
proof -
  show "priv_ok (Some sample_js_task)"
    using task_ok_init[of None] by (simp add: priv_ok_def sample_js_task_def)
  have pool: "sc_pool sample_js_script = empty_pool" by (simp add: sample_js_script_def new_script_def)
  then show "pool_ok (sc_max_engines sample_js_script) (sc_pool sample_js_script)"
    by (simp add: pool_ok_empty)
  show "unused_address (sc_max_cycles sample_js_script) (sc_pool sample_js_script) 7"
      "engines_clean size_of (sc_pool sample_js_script)"
    unfolding pool by (simp_all add: unused_address_def lock_scan.simps empty_pool_def engines_clean_def)
  show "host_ok sample_js_ops (host_of (h_ctx sample_js_host) sample_js_script (Some sample_js_task))"
    by (simp add: host_ok_def host_of_def sample_js_script_def new_script_def sample_js_ops_def regexps_ok_def
        shared_ok_def vrbt_ok_def rb_tree_def sample_js_task_def vmod_script_init_def get_task_state_def
        new_task_state_def reset_task_state_def Let_def)
qed (simp add: sample_js_ops_def)

section \<open>Witnesses\<close>

theorem javascript_engines_stay_clean_witness:
  "\<exists>name' ctx' script' state'. execute_javascript (list_js (Js_Boolean True) 0 Js_Null) counting_ws ''h'' id (\<lambda>p. 7)
      (h_ctx sample_js_host) sample_js_script (Some sample_js_task) ''return true'' None False False
      = Inr (True, name', ctx', script', state')
    \<and> pool_busy (sc_pool script') = []
    \<and> engines_clean (get_javascript_engine_stack_size
        (list_js (Js_Boolean True) 0 Js_Null :: (js_list, int, nat, string, string) duk)) (sc_pool script')"
proof -
  obtain name' ctx' script' s' where run: "execute_javascript (list_js (Js_Boolean True) 0 Js_Null) counting_ws ''h'' id
      (\<lambda>p. 7) (h_ctx sample_js_host) sample_js_script (Some sample_js_task) ''return true'' None False False
      = Inr (True, name', ctx', script', Some s')" and fails: "ctx_fails ctx' = ctx_fails (h_ctx sample_js_host)"
    using sample_js_run by blast
  have "pool_busy (sc_pool sample_js_script) = []"
    by (simp add: sample_js_script_def new_script_def empty_pool_def)
  then show ?thesis
    using run fails javascript_engines_stay_clean[where malloc = "\<lambda>p. 7", OF list_js_laws sample_js_ready(1-4) run] by auto
qed

theorem execute_javascript_contract_witness:
  "\<exists>name' ctx' script' state'. execute_javascript (list_js (Js_Boolean True) 0 Js_Null) counting_ws ''h'' id (\<lambda>p. 7)
      (h_ctx sample_js_host) sample_js_script (Some sample_js_task) ''return true'' None False False
      = Inr (True, name', ctx', script', state')
    \<and> ex_total (sc_stats script') = 1 \<and> ex_failed (sc_stats script') = 0"
proof -
  obtain name' ctx' script' s' where run: "execute_javascript (list_js (Js_Boolean True) 0 Js_Null) counting_ws ''h'' id
      (\<lambda>p. 7) (h_ctx sample_js_host) sample_js_script (Some sample_js_task) ''return true'' None False False
      = Inr (True, name', ctx', script', Some s')"
    using sample_js_run by blast
  have "ex_total (sc_stats sample_js_script) = 0" "ex_failed (sc_stats sample_js_script) = 0"
    by (simp_all add: sample_js_script_def new_script_def)
  then show ?thesis
    using run execute_javascript_contract[OF list_js_laws sample_js_ready(6,1,5) run] by auto
qed

theorem javascript_result_outcome_witness:
  "js_post_execute (list_js Js_Null 0 Js_Null) counting_ws
      \<lparr>jl_stack = [Js_Object Function_Object], jl_known = True\<rparr> sample_js_host empty_result = Inl Out_Of_Bounds"
proof -
  have "result_ok (empty_result :: int result)" "nvalues (empty_result :: int result) = -1"
    by (simp_all add: result_ok_def empty_result_def)
  then show ?thesis
    using javascript_result_outcome[OF list_js_laws, of "\<lparr>jl_stack = [Js_Object Function_Object], jl_known = True\<rparr>"
        "Js_Object Function_Object" "[]"] by simp
qed


end
