(* ===== verification/Javascript_Live.thy ===== *)
theory Javascript_Live
  imports Javascript Script_Live
begin

text \<open>
  When an execution on a JavaScript engine returns: as long as scripts end, leave the \<open>varnish\<close> object as
  they found it, return no object but arrays, and no accessor of an array throws.
  \<open>js_undisturbed\<close> says what that means for the virtual machine, one call of its API at a time; \<open>good\<close> are
  the states of a set-up, undisturbed engine. A full workspace makes the task fail and leaves a value too many on the engine,
  but the process goes on.
\<close>

section \<open>Scripts that leave the host alone\<close>

text \<open>The value at an index: from the top below zero, else from the bottom.\<close>

definition js_slot :: "int \<Rightarrow> 'd js_value list \<Rightarrow> 'd js_value option" where
  "js_slot i vs =
     (if i < 0 then (if nat (-1 - i) < length vs then Some (vs ! nat (-1 - i)) else None)
      else if nat i < length vs then Some (rev vs ! nat i) else None)"

text \<open>A call that does not throw, and ends in a good state.\<close>

definition js_completes :: "('l \<Rightarrow> bool) \<Rightarrow> ('a, 'l, 'k) js \<Rightarrow> bool" where
  "js_completes good m \<longleftrightarrow> (\<exists>x D k. m = Inr (Some x, D, k) \<and> good D)"

text \<open>
  In a good state the calls of the host neither throw nor leave the good states, running scripts
  included; properties are set on objects only.
\<close>

definition js_host_calls :: "('l, 'd, 'k) duk_api \<Rightarrow> ('l \<Rightarrow> 'd js_value list) \<Rightarrow> ('l \<Rightarrow> bool) \<Rightarrow> bool" where
  "js_host_calls api stk good \<longleftrightarrow> (\<forall>D. good D \<longrightarrow>
     good (duk_push_null api D) \<and> (\<forall>s. good (duk_push_string api s D)) \<and> (\<forall>p. good (duk_push_pointer api p D))
     \<and> good (duk_push_array api D) \<and> good (duk_gc api D)
     \<and> (\<forall>n k. js_completes good (duk_get_global_string api n D k))
     \<and> (\<forall>n k. n \<noteq> ''varnish'' \<longrightarrow> stk D \<noteq> [] \<longrightarrow> js_completes good (duk_put_global_string api n D k))
     \<and> (\<forall>i n k c. n \<in> fst ` set js_host_fields \<longrightarrow> js_slot i (stk D) = Some (Js_Object c) \<longrightarrow>
         js_completes good (duk_put_prop_string api i n D k))
     \<and> (\<forall>i j k c. js_slot i (stk D) = Some (Js_Object c) \<longrightarrow> js_completes good (duk_put_prop_index api i j D k))
     \<and> (\<forall>src k. ends (duk_peval_lstring api src D k) (\<lambda>(ok, D', k'). good D')))"

text \<open>
  \<open>varnish\<close> is an object, the definition of a function defines it, and a function called returns no
  object but an array.
\<close>

definition js_globals :: "('l, 'd, 'k) duk_api \<Rightarrow> ('l \<Rightarrow> 'd js_value list) \<Rightarrow> ('l \<Rightarrow> bool) \<Rightarrow> bool" where
  "js_globals api stk good \<longleftrightarrow>
     (\<forall>D k D1 k1. good D \<longrightarrow> duk_get_global_string api ''varnish'' D k = Inr (Some (), D1, k1) \<longrightarrow>
         (\<exists>c. stk D1 = Js_Object c # stk D))
     \<and> (\<forall>sandboxing name code D k D1 k1 D2 k2. good D \<and> name \<noteq> ''varnish'' \<and>
         duk_peval_lstring api (js_function_source sandboxing name code) D k = Inr (True, D1, k1) \<and>
         duk_get_global_string api name (duk_pop api 1 D1) k1 = Inr (Some (), D2, k2) \<longrightarrow>
         hd (stk D2) \<in> {Js_Object Function_Object, Js_Lightfunc})"

definition js_functions_end :: "('l, 'd, 'k) duk_api \<Rightarrow> ('l \<Rightarrow> 'd js_value list) \<Rightarrow> ('l \<Rightarrow> bool) \<Rightarrow> bool" where
  "js_functions_end api stk good \<longleftrightarrow>
     (\<forall>D k f vs. good D \<longrightarrow> stk D = f # vs \<longrightarrow> f \<in> {Js_Object Function_Object, Js_Lightfunc} \<longrightarrow>
         ends (duk_pcall api 0 D k) (\<lambda>(ok, D', k'). good D'
           \<and> (ok \<longrightarrow> (\<forall>c. hd (stk D') = Js_Object c \<longrightarrow> c = Array_Object))))"

text \<open>
  A new engine. The calls that set it up do not throw, and none of them but the ones below touches the
  global \<open>varnish\<close> or a property \<open>shared\<close>.
\<close>

definition js_set_up_calls :: "('l, 'd, 'k) duk_api \<Rightarrow> ('l \<Rightarrow> 'd js_value list) \<Rightarrow> ('l \<Rightarrow> bool) \<Rightarrow> bool" where
  "js_set_up_calls api stk P \<longleftrightarrow> (\<forall>D. P D \<longrightarrow>
     (\<forall>n. P (duk_pop api n D)) \<and> P (duk_push_object api D) \<and> (\<forall>b. P (duk_push_boolean api b D))
     \<and> (\<forall>c. P (duk_push_c_function api c D))
     \<and> (\<forall>n k. js_completes P (duk_get_global_string api n D k))
     \<and> (\<forall>n k c vs. stk D = Js_Object c # vs \<longrightarrow> js_completes P (duk_get_prop_string api (-1) n D k))
     \<and> (\<forall>i n k c. n \<noteq> ''shared'' \<longrightarrow> js_slot i (stk D) = Some (Js_Object c) \<longrightarrow>
         js_completes P (duk_put_prop_string api i n D k)))"

text \<open>
  \<open>fresh\<close>: being set up; \<open>shaped\<close>: the object on top has an object \<open>shared\<close>; \<open>named\<close>: such an object is the
  global \<open>varnish\<close>. The program of the host runs, and leaves a good engine.
\<close>

definition js_engines_made ::
  "('l, 'd, 'k) duk_api \<Rightarrow> ('l \<Rightarrow> 'd js_value list) \<Rightarrow> string \<Rightarrow> ('l \<Rightarrow> bool) \<Rightarrow> ('l \<Rightarrow> bool) \<Rightarrow> ('l \<Rightarrow> bool) \<Rightarrow> ('l \<Rightarrow> bool) \<Rightarrow> bool" where
  "js_engines_made api stk helpers fresh shaped named good \<longleftrightarrow>
     js_set_up_calls api stk fresh \<and> js_set_up_calls api stk named \<and> fresh (duk_create_heap api)
     \<and> (\<forall>D c d k. fresh D \<longrightarrow> stk D = [Js_Object c, Js_Object d] \<longrightarrow>
         js_completes shaped (duk_put_prop_string api 0 ''shared'' D k))
     \<and> (\<forall>D c f n k. shaped D \<longrightarrow> stk D = [Js_Object c] \<longrightarrow> n \<noteq> ''shared'' \<longrightarrow>
         js_completes shaped (duk_put_prop_string api 0 n (duk_push_c_function api f D) k))
     \<and> (\<forall>D c k. shaped D \<longrightarrow> stk D = [Js_Object c] \<longrightarrow> js_completes named (duk_put_global_string api ''varnish'' D k))
     \<and> (\<forall>D k D1 k1 k' D2 k2. named D \<longrightarrow> duk_get_global_string api ''varnish'' D k = Inr (Some (), D1, k1) \<longrightarrow>
         (\<exists>c. stk D1 = Js_Object c # stk D)
         \<and> (duk_get_prop_string api (-1) ''shared'' D1 k' = Inr (Some (), D2, k2) \<longrightarrow> (\<exists>c. stk D2 = Js_Object c # stk D1)))
     \<and> (\<forall>D k. named D \<longrightarrow> ends (duk_peval_lstring api helpers D k) (\<lambda>(ok, D', k'). ok \<and> good D'))"

definition js_undisturbed ::
  "('l, 'd, 'k) duk_api \<Rightarrow> ('l \<Rightarrow> 'd js_value list) \<Rightarrow> ('l \<Rightarrow> bool) \<Rightarrow> string \<Rightarrow> bool" where
  "js_undisturbed api stk good helpers \<longleftrightarrow> js_host_calls api stk good \<and> js_globals api stk good
     \<and> js_functions_end api stk good \<and> reads_return api stk good
     \<and> (\<exists>fresh shaped named. js_engines_made api stk helpers fresh shaped named good)"

lemma js_undisturbed_parts:
  assumes "js_undisturbed api stk good helpers"
  shows "js_host_calls api stk good" "js_globals api stk good" "js_functions_end api stk good" "reads_return api stk good"
    "\<exists>fresh shaped named. js_engines_made api stk helpers fresh shaped named good"
  using assms by (simp_all add: js_undisturbed_def)

lemma js_calls:
  assumes "js_undisturbed api stk good helpers" "good D"
  shows "good (duk_push_null api D)" "good (duk_push_string api s D)" "good (duk_push_pointer api p D)"
    "good (duk_push_array api D)" "good (duk_gc api D)"
    "js_completes good (duk_get_global_string api n D k)"
    "n \<noteq> ''varnish'' \<Longrightarrow> stk D \<noteq> [] \<Longrightarrow> js_completes good (duk_put_global_string api n D k)"
    "n \<in> fst ` set js_host_fields \<Longrightarrow> js_slot i (stk D) = Some (Js_Object c) \<Longrightarrow>
      js_completes good (duk_put_prop_string api i n D k)"
    "js_slot i (stk D) = Some (Js_Object c) \<Longrightarrow> js_completes good (duk_put_prop_index api i j D k)"
    "ends (duk_peval_lstring api src D k) (\<lambda>(ok, D', k'). good D')"
proof -
  note calls = js_undisturbed_parts(1)[OF assms(1), unfolded js_host_calls_def, THEN spec[of _ D], THEN mp, OF assms(2)]
  show "good (duk_push_null api D)" "good (duk_push_string api s D)" "good (duk_push_pointer api p D)"
    "good (duk_push_array api D)" "good (duk_gc api D)"
    "js_completes good (duk_get_global_string api n D k)"
    "ends (duk_peval_lstring api src D k) (\<lambda>(ok, D', k'). good D')"
    using calls by simp_all
  have parts: "\<forall>n k. n \<noteq> ''varnish'' \<longrightarrow> stk D \<noteq> [] \<longrightarrow> js_completes good (duk_put_global_string api n D k)"
    "\<forall>i n k c. n \<in> fst ` set js_host_fields \<longrightarrow> js_slot i (stk D) = Some (Js_Object c) \<longrightarrow>
         js_completes good (duk_put_prop_string api i n D k)"
    "\<forall>i j k c. js_slot i (stk D) = Some (Js_Object c) \<longrightarrow> js_completes good (duk_put_prop_index api i j D k)"
    using calls by - (elim conjE, assumption)+
  show "n \<noteq> ''varnish'' \<Longrightarrow> stk D \<noteq> [] \<Longrightarrow> js_completes good (duk_put_global_string api n D k)"
    using parts(1) by simp
  show "n \<in> fst ` set js_host_fields \<Longrightarrow> js_slot i (stk D) = Some (Js_Object c) \<Longrightarrow>
      js_completes good (duk_put_prop_string api i n D k)"
    using parts(2) by blast
  show "js_slot i (stk D) = Some (Js_Object c) \<Longrightarrow> js_completes good (duk_put_prop_index api i j D k)"
    using parts(3) by blast
qed

text \<open>A call that completes and what the laws say of the stack after it.\<close>

lemma js_completes_does:
  assumes "js_completes good m" "js_does ho m k (\<lambda>_. P)"
  shows "ends (unprotected m) (\<lambda>(x, D, k'). good D \<and> P D)"
proof -
  obtain x D k' where m: "m = Inr (Some x, D, k')" "good D" using assms(1) by (auto simp: js_completes_def)
  then show ?thesis using js_doesD(2)[OF assms(2) m(1)] by (simp add: unprotected_def)
qed

lemma js_put_completes:
  assumes "js_laws ho api stk" "js_completes P (duk_put_prop_string api i n (push D) k)" "tl (stk (push D)) = stk D"
  shows "ends (js_put_new api i (n, push) (D, k)) (\<lambda>(D', k'). P D' \<and> stk D' = stk D)"
  using js_completes_does[OF assms(2) js_does_props(4)[OF assms(1)]] assms(3) by (auto simp: js_put_new_def ends_def)

section \<open>A new engine\<close>

lemma js_set_up_D:
  assumes "js_set_up_calls api stk P" "P D"
  shows "P (duk_pop api n D)" "P (duk_push_object api D)" "P (duk_push_boolean api b D)" "P (duk_push_c_function api f D)"
    "js_completes P (duk_get_global_string api x D k)"
    "stk D = Js_Object c # vs \<Longrightarrow> js_completes P (duk_get_prop_string api (-1) x D k)"
    "x \<noteq> ''shared'' \<Longrightarrow> js_slot i (stk D) = Some (Js_Object c) \<Longrightarrow> js_completes P (duk_put_prop_string api i x D k)"
proof -
  note calls = assms(1)[unfolded js_set_up_calls_def, THEN spec[of _ D], THEN mp, OF assms(2)]
  show "P (duk_pop api n D)" "P (duk_push_object api D)" "P (duk_push_boolean api b D)" "P (duk_push_c_function api f D)"
    "js_completes P (duk_get_global_string api x D k)"
    "stk D = Js_Object c # vs \<Longrightarrow> js_completes P (duk_get_prop_string api (-1) x D k)"
    using calls by simp_all
  have "\<forall>i n k c. n \<noteq> ''shared'' \<longrightarrow> js_slot i (stk D) = Some (Js_Object c) \<longrightarrow> js_completes P (duk_put_prop_string api i n D k)"
    using calls by - (elim conjE, assumption)
  then show "x \<noteq> ''shared'' \<Longrightarrow> js_slot i (stk D) = Some (Js_Object c) \<Longrightarrow> js_completes P (duk_put_prop_string api i x D k)"
    by blast
qed

text \<open>The object under construction: \<open>engine\<close>, \<open>shared\<close> and the commands.\<close>

lemma js_varnish_properties_end:
  fixes api :: "('l, 'd, 'w, 'h, 're) duk"
  assumes "js_laws ho api stk" "js_engines_made api stk helpers fresh shaped named good" "fresh D" "stk D = [Js_Object c]"
  shows "ends (res_fold (js_put_new api 0) (js_varnish_properties api) (D, k)) (\<lambda>(D', k'). shaped D' \<and> stk D' = [Js_Object c])"
proof -
  have parts: "js_set_up_calls api stk fresh"
    "\<forall>D c d k. fresh D \<longrightarrow> stk D = [Js_Object c, Js_Object d] \<longrightarrow>
         js_completes shaped (duk_put_prop_string api 0 ''shared'' D k)"
    "\<forall>D c f n k. shaped D \<longrightarrow> stk D = [Js_Object c] \<longrightarrow> n \<noteq> ''shared'' \<longrightarrow>
         js_completes shaped (duk_put_prop_string api 0 n (duk_push_c_function api f D) k)"
    using assms(2)[unfolded js_engines_made_def] by - (elim conjE, assumption)+
  note pushes = js_stack_pushes[OF assms(1)] and fresh = js_set_up_D[OF parts(1)]
  have "js_completes fresh (duk_put_prop_string api 0 ''engine'' (duk_push_object api D) k)"
    by (rule fresh(7)[OF fresh(2)[OF assms(3)]]) (simp_all add: pushes(7) assms(4) js_slot_def)
  from js_put_completes[where push = "duk_push_object api", OF assms(1) this]
  obtain D1 k1 where engine: "js_put_new api 0 (''engine'', duk_push_object api) (D, k) = Inr (D1, k1)" "fresh D1" "stk D1 = [Js_Object c]"
    using assms(4) by (auto simp: pushes(7) ends_def)
  have "js_completes shaped (duk_put_prop_string api 0 ''shared'' (duk_push_object api D1) k1)"
    using parts(2) fresh(2)[OF engine(2)] engine(3) by (simp add: pushes(7))
  from js_put_completes[where push = "duk_push_object api", OF assms(1) this]
  obtain D2 k2 where shared: "js_put_new api 0 (''shared'', duk_push_object api) (D1, k1) = Inr (D2, k2)" "shaped D2" "stk D2 = [Js_Object c]"
    using engine(3) by (auto simp: pushes(7) ends_def)
  define commands where "commands = drop 2 (js_varnish_properties api)"
  have "ends (res_fold (js_put_new api 0) commands (D2, k2)) (\<lambda>(D', k'). shaped D' \<and> stk D' = [Js_Object c])"
  proof (rule ends_fold)
    fix property and s :: "'l \<times> ('w, 'h, 're) host"
    assume p: "property \<in> set commands" and s: "case s of (D', k') \<Rightarrow> shaped D' \<and> stk D' = [Js_Object c]"
    obtain D' k' where s': "s = (D', k')" by (cases s)
    obtain n f where n: "property = (n, duk_push_c_function api f)" "n \<noteq> ''shared''"
      using p by (auto simp: commands_def js_varnish_properties_def)
    have "js_completes shaped (duk_put_prop_string api 0 n (duk_push_c_function api f D') k')"
      using parts(3) s s' n(2) by blast
    from js_put_completes[where push = "duk_push_c_function api f", OF assms(1) this]
    show "ends (js_put_new api 0 property s) (\<lambda>(D', k'). shaped D' \<and> stk D' = [Js_Object c])"
      using s by (simp add: n(1) s' pushes(9))
  qed (simp add: shared)
  moreover have "js_varnish_properties api = [(''engine'', duk_push_object api), (''shared'', duk_push_object api)] @ commands"
    by (simp add: commands_def js_varnish_properties_def)
  ultimately show ?thesis by (simp add: res_fold_append engine(1) shared(1))
qed

lemma js_shared_properties_end:
  fixes api :: "('l, 'd, 'w, 'h, 're) duk"
  assumes "js_laws ho api stk" "js_set_up_calls api stk named" "named D" "stk D = Js_Object c # vs"
  shows "ends (res_fold (js_put_new api (-2)) (js_shared_properties api) (D, k)) (\<lambda>(D', k'). named D' \<and> stk D' = Js_Object c # vs)"
proof (rule ends_fold)
  note pushes = js_stack_pushes[OF assms(1)] and calls = js_set_up_D[OF assms(2)]
  fix property and s :: "'l \<times> ('w, 'h, 're) host"
  assume p: "property \<in> set (js_shared_properties api)" and s: "case s of (D', k') \<Rightarrow> named D' \<and> stk D' = Js_Object c # vs"
  obtain D' k' where s': "s = (D', k')" by (cases s)
  obtain n push where n: "property = (n, push)" by (cases property)
  have names: "n \<noteq> ''shared''" and push: "push = duk_push_boolean api False \<or> (\<exists>f. push = duk_push_c_function api f)"
    using p n by (auto simp: js_shared_properties_def hidden_def)
  then have P: "named (push D')" "tl (stk (push D')) = stk D'" "js_slot (-2) (stk (push D')) = Some (Js_Object c)"
    using s s' calls(3,4) pushes(4,9) by (auto simp: js_slot_def)
  show "ends (js_put_new api (-2) property s) (\<lambda>(D', k'). named D' \<and> stk D' = Js_Object c # vs)"
    using js_put_completes[where push = push, OF assms(1) calls(7)[OF P(1) names P(3)] P(2), of k'] s by (simp add: n s')
qed (use assms(3,4) in simp)

lemma js_new_context_ends:
  fixes api :: "('l, 'd, 'w, 'h, 're) duk"
  assumes "js_laws ho api stk" "js_undisturbed api stk good helpers"
  shows "ends (js_new_context api helpers k) good"
proof -
  obtain fresh shaped named where made: "js_engines_made api stk helpers fresh shaped named good"
    using js_undisturbed_parts(5)[OF assms(2)] by blast
  have parts: "js_set_up_calls api stk fresh" "js_set_up_calls api stk named" "fresh (duk_create_heap api)"
    "\<forall>D c k. shaped D \<longrightarrow> stk D = [Js_Object c] \<longrightarrow> js_completes named (duk_put_global_string api ''varnish'' D k)"
    "\<forall>D k D1 k1 k' D2 k2. named D \<longrightarrow> duk_get_global_string api ''varnish'' D k = Inr (Some (), D1, k1) \<longrightarrow>
         (\<exists>c. stk D1 = Js_Object c # stk D)
         \<and> (duk_get_prop_string api (-1) ''shared'' D1 k' = Inr (Some (), D2, k2) \<longrightarrow> (\<exists>c. stk D2 = Js_Object c # stk D1))"
    "\<forall>D k. named D \<longrightarrow> ends (duk_peval_lstring api helpers D k) (\<lambda>(ok, D', k'). ok \<and> good D')"
    using made[unfolded js_engines_made_def] by - (elim conjE, assumption)+
  note pushes = js_stack_pushes[OF assms(1)] and named = js_set_up_D[OF parts(2)]
  have top: "duk_get_top api (duk_create_heap api) = 0"
    using js_stack_top[OF assms(1)] pushes(1) by simp
  have "ends (res_fold (js_put_new api 0) (js_varnish_properties api) (duk_push_object api (duk_create_heap api), k))
      (\<lambda>(D', k'). shaped D' \<and> stk D' = [Js_Object Plain_Object])"
    by (rule js_varnish_properties_end[OF assms(1) made js_set_up_D(2)[OF parts(1,3)]]) (simp add: pushes(1,7))
  then obtain D1 k1 where D1: "res_fold (js_put_new api 0) (js_varnish_properties api) (duk_push_object api (duk_create_heap api), k)
      = Inr (D1, k1)" "shaped D1" "stk D1 = [Js_Object Plain_Object]"
    by (auto simp: ends_def)
  obtain D2 k2 where D2: "duk_put_global_string api ''varnish'' D1 k1 = Inr (Some (), D2, k2)" "named D2"
    using parts(4)[rule_format, OF D1(2,3), of k1] by (auto simp: js_completes_def)
  obtain D3 k3 where D3: "duk_get_global_string api ''varnish'' D2 k2 = Inr (Some (), D3, k3)" "named D3"
    using named(5)[OF D2(2), of "''varnish''" k2] by (auto simp: js_completes_def)
  obtain c where s3: "stk D3 = Js_Object c # stk D2" using parts(5) D2(2) D3(1) by blast
  obtain D4 k4 where D4: "duk_get_prop_string api (-1) ''shared'' D3 k3 = Inr (Some (), D4, k4)" "named D4"
    using named(6)[OF D3(2) s3, of "''shared''" k3] by (auto simp: js_completes_def)
  obtain d where s4: "stk D4 = Js_Object d # stk D3" using parts(5) D2(2) D3(1) D4(1) by blast
  obtain D5 k5 where D5: "res_fold (js_put_new api (-2)) (js_shared_properties api) (D4, k4) = Inr (D5, k5)" "named D5"
    using js_shared_properties_end[OF assms(1) parts(2) D4(2) s4, of k4] by (auto simp: ends_def)
  obtain D6 k6 where D6: "duk_peval_lstring api helpers (duk_pop api 2 D5) k5 = Inr (True, D6, k6)" "good D6"
    using parts(6)[rule_format, OF named(1)[OF D5(2)], of 2 k5] by (auto simp: ends_def)
  show ?thesis
    using js_stack_reads(2)[OF assms(1) s3] js_stack_reads(2)[OF assms(1) s4]
      reads_returnD(4)[OF js_undisturbed_parts(4)[OF assms(2)] D6(2)]
    by (simp add: js_new_context_def Let_def top D1 D2 D3 D4 D5 D6 unprotected_def)
qed

section \<open>An execution\<close>

lemma js_pre_execute_ends:
  assumes "js_laws ho api stk" "js_undisturbed api stk good helpers" "good D"
  shows "ends (js_pre_execute api sandboxing code name D k) (\<lambda>(ok, D', k'). good D')"
proof -
  note reads = reads_returnD[OF js_undisturbed_parts(4)[OF assms(2)]]
  obtain ok D1 k1 where eval: "duk_peval_lstring api (js_function_source sandboxing name code) D k = Inr (ok, D1, k1)"
      and g1: "good D1"
    using js_calls(10)[OF assms(2,3), of "js_function_source sandboxing name code" k] by (auto simp: ends_def)
  obtain s D2 k2 where "duk_safe_to_string api (-1) D1 k1 = Inr (s, D2, k2)" "good D2"
    using reads(3)[OF g1] js_stack_code(1)[OF assms(1) eval] by (metis list.distinct(1))
  then show ?thesis
    using reads(4) g1 by (simp add: js_pre_execute_def eval)
qed

lemma js_push_function_ends:
  assumes "js_laws ho api stk" "js_undisturbed api stk good helpers" "good D" "name \<noteq> ''varnish''"
  shows "ends (js_push_function api sandboxing code name D k) (\<lambda>(ready, unknown, D', k'). good D'
    \<and> (\<exists>f c. stk D' = (if ready then [f, Js_Object c] else [Js_Object c]) @ stk D
        \<and> (ready \<longrightarrow> f \<in> {Js_Object Function_Object, Js_Lightfunc})))"
proof -
  note pop = js_stack_pushes(2)[OF assms(1)] and gpop = reads_returnD(4)[OF js_undisturbed_parts(4)[OF assms(2)]]
  note globals = js_undisturbed_parts(2)[OF assms(2), unfolded js_globals_def]
  have get: "\<exists>D' k'. duk_get_global_string api n D k = Inr (Some (), D', k') \<and> good D' \<and> (\<exists>v. stk D' = v # stk D)"
    if "good D" for n D k
    using js_calls(6)[OF assms(2) that, of n k] js_doesD(2)[OF js_does_props(1)[OF assms(1)]]
    by (auto simp: js_completes_def)
  obtain D1 k1 where D1: "duk_get_global_string api ''varnish'' D k = Inr (Some (), D1, k1)" "good D1"
    using get[OF assms(3)] by blast
  obtain c where s1: "stk D1 = Js_Object c # stk D"
    using globals assms(3) D1(1) by blast
  obtain D2 k2 f where D2: "duk_get_global_string api name D1 k1 = Inr (Some (), D2, k2)" "good D2" "stk D2 = f # stk D1"
    using get[OF D1(2)] by blast
  have object: "duk_is_object api (-1) D1" using js_stack_reads(2)[OF assms(1) s1] by simp
  show ?thesis
  proof (cases "duk_is_function api (-1) D2")
    case True
    then have "f \<in> {Js_Object Function_Object, Js_Lightfunc}" using js_stack_reads(4)[OF assms(1) D2(3)] by simp
    then show ?thesis using True D2 s1 object by (auto simp: js_push_function_def unprotected_def D1)
  next
    case False
    obtain ok D3 k3 where pre: "js_pre_execute api sandboxing code name (duk_pop api 1 D2) k2 = Inr (ok, D3, k3)" "good D3"
      using js_pre_execute_ends[OF assms(1,2) gpop[OF D2(2)], of sandboxing code name 1 k2] by (auto simp: ends_def)
    have s3: "stk D3 = stk D1"
      using js_pre_execute_outcome[OF assms(1) pre(1)] pop[of 1 D2] D2(3) by simp
    show ?thesis
    proof (cases ok)
      case False
      then show ?thesis
        using \<open>\<not> duk_is_function api (-1) D2\<close> pre s3 s1 object
        by (simp add: js_push_function_def unprotected_def D1 D2 pre[unfolded One_nat_def])
    next
      case True
      obtain D4 k4 g where D4: "duk_get_global_string api name D3 k3 = Inr (Some (), D4, k4)" "good D4" "stk D4 = g # stk D3"
        using get[OF pre(2)] by blast
      obtain D3' where eval: "duk_peval_lstring api (js_function_source sandboxing name code) (duk_pop api 1 D2) k2 = Inr (True, D3', k3)"
          and D3: "D3 = duk_pop api 1 D3'"
        using pre(1) True by (auto simp: js_pre_execute_def res_bind_eq_Inr_iff split: if_splits)
      have "hd (stk D4) \<in> {Js_Object Function_Object, Js_Lightfunc}"
        using globals gpop[OF D2(2)] assms(4) eval D4(1)[unfolded D3] by blast
      then have g: "g \<in> {Js_Object Function_Object, Js_Lightfunc}" "duk_is_function api (-1) D4"
        using D4(3) js_stack_reads(4)[OF assms(1) D4(3)] by auto
      then show ?thesis
        using True \<open>\<not> duk_is_function api (-1) D2\<close> D4 s3 s1 object
        by (auto simp: js_push_function_def unprotected_def D1 D2 pre[unfolded One_nat_def])
    qed
  qed
qed

lemma js_put_new_ends:
  assumes "js_laws ho api stk" "js_undisturbed api stk good helpers" "good (push D)" "stk (push D) = v # stk D"
    and "n \<in> fst ` set js_host_fields" "js_slot i (stk (push D)) = Some (Js_Object c)"
  shows "ends (js_put_new api i (n, push) (D, k)) (\<lambda>(D', k'). good D' \<and> stk D' = stk D)"
  using js_put_completes[where push = push, OF assms(1) js_calls(8)[OF assms(2,3,5,6)]] assms(4) by simp

lemma js_host_fields_end:
  fixes api :: "('l, 'd, 'w, 'h, 're) duk"
  assumes "js_laws ho api stk" "js_undisturbed api stk good helpers" "good D"
  shows "stk D = u # Js_Object c # vs \<Longrightarrow>
      ends (js_set_host_fields api (D, k)) (\<lambda>(D', k'). good D' \<and> stk D' = stk D)"
    and "stk D = Js_Object c # vs \<Longrightarrow>
      ends (js_clear_host_fields api (D, k)) (\<lambda>(D', k'). good D' \<and> stk D' = stk D)"
proof -
  note pushes = js_stack_pushes[OF assms(1)] and calls = js_calls[OF assms(2)]
  show "ends (js_set_host_fields api (D, k)) (\<lambda>(D', k'). good D' \<and> stk D' = stk D)" if D: "stk D = u # Js_Object c # vs"
    unfolding js_set_host_fields_def
  proof (rule ends_fold)
    fix fp and s :: "'l \<times> ('w, 'h, 're) host"
    assume fp: "fp \<in> set js_host_fields" and s: "case s of (D', k') \<Rightarrow> good D' \<and> stk D' = stk D"
    obtain field ptr where p: "fp = (field, ptr)" by (cases fp)
    obtain D1 k1 where s1: "s = (D1, k1)" by (cases s)
    have "ends (js_put_new api (-3) (field, duk_push_pointer api ptr) (D1, k1)) (\<lambda>(D', k'). good D' \<and> stk D' = stk D1)"
      by (rule js_put_new_ends[OF assms(1,2)])
         (use s s1 fp p D calls(3) pushes(6) in \<open>force simp: js_slot_def eval_nat_numeral\<close>)+
    then show "ends ((case fp of (field, ptr) \<Rightarrow> js_put_new api (-3) (field, duk_push_pointer api ptr)) s)
        (\<lambda>(D', k'). good D' \<and> stk D' = stk D)"
      using s s1 p by simp
  qed (use assms(3) in simp)
  show "ends (js_clear_host_fields api (D, k)) (\<lambda>(D', k'). good D' \<and> stk D' = stk D)" if D: "stk D = Js_Object c # vs"
    unfolding js_clear_host_fields_def
  proof (rule ends_fold)
    fix fp and s :: "'l \<times> ('w, 'h, 're) host"
    assume fp: "fp \<in> set js_host_fields" and s: "case s of (D', k') \<Rightarrow> good D' \<and> stk D' = stk D"
    obtain field ptr where p: "fp = (field, ptr)" by (cases fp)
    obtain D1 k1 where s1: "s = (D1, k1)" by (cases s)
    have "ends (js_put_new api (-2) (field, duk_push_null api) (D1, k1)) (\<lambda>(D', k'). good D' \<and> stk D' = stk D1)"
      by (rule js_put_new_ends[OF assms(1,2)])
         (use s s1 fp p D calls(1) pushes(3) in \<open>force simp: js_slot_def\<close>)+
    then show "ends ((case fp of (field, ptr) \<Rightarrow> js_put_new api (-2) (field, duk_push_null api)) s)
        (\<lambda>(D', k'). good D' \<and> stk D' = stk D)"
      using s s1 p by simp
  qed (use assms(3) in simp)
qed

lemma js_set_argv_ends:
  fixes api :: "('l, 'd, 'w, 'h, 're) duk"
  assumes "js_laws ho api stk" "js_undisturbed api stk good helpers" "good D" "argc \<le> int (length argv)"
  shows "ends (js_set_argv api argc argv D k) (\<lambda>(D', k'). good D' \<and> stk D' = stk D)"
proof -
  note pushes = js_stack_pushes[OF assms(1)] and calls = js_calls[OF assms(2)]
  define I where "I = (\<lambda>(D1, k1 :: ('w, 'h, 're) host). good D1 \<and> stk D1 = Js_Object Array_Object # stk D)"
  have top: "duk_get_top api D = int (length (stk D))" by (rule js_stack_top[OF assms(1)])
  have fold: "ends (res_fold (\<lambda>i (D1, k1).
          if i < length argv
          then res_bind (unprotected (duk_put_prop_index api (duk_get_top api D) (int i) (duk_push_string api (argv ! i) D1) k1))
            (\<lambda>(_, D', k'). Inr (D', k'))
          else Inl Out_Of_Bounds)
        [0..<nat argc] (duk_push_array api D, k)) I"
  proof (rule ends_fold)
    show "I (duk_push_array api D, k)" using calls(4)[OF assms(3)] pushes(8) by (simp add: I_def)
  next
    fix i and s :: "'l \<times> ('w, 'h, 're) host"
    assume i: "i \<in> set [0..<nat argc]" and "I s"
    then obtain D1 k1 where s: "s = (D1, k1)" "good D1" "stk D1 = Js_Object Array_Object # stk D"
      by (auto simp: I_def)
    have g: "good (duk_push_string api (argv ! i) D1)" by (rule calls(2)[OF s(2)])
    have "js_slot (duk_get_top api D) (stk (duk_push_string api (argv ! i) D1)) = Some (Js_Object Array_Object)"
      using s(3) pushes(5) by (simp add: top js_slot_def nth_append)
    then have "ends (unprotected (duk_put_prop_index api (duk_get_top api D) (int i) (duk_push_string api (argv ! i) D1) k1))
        (\<lambda>(x, D', k'). good D' \<and> stk D' = tl (stk (duk_push_string api (argv ! i) D1)))"
      by (rule js_completes_does[OF calls(9)[OF g] js_does_props(6)[OF assms(1)]])
    then show "ends ((case s of (D1, k1) \<Rightarrow>
          if i < length argv
          then res_bind (unprotected (duk_put_prop_index api (duk_get_top api D) (int i) (duk_push_string api (argv ! i) D1) k1))
            (\<lambda>(_, D', k'). Inr (D', k'))
          else Inl Out_Of_Bounds)) I"
      using i assms(4) s pushes(5) by (auto simp: I_def ends_def)
  qed
  have put: "ends (unprotected (duk_put_global_string api ''ARGV'' D1 k1)) (\<lambda>(x, D', k'). good D' \<and> stk D' = stk D)"
    if "I (D1, k1)" for D1 k1
  proof -
    have "js_completes good (duk_put_global_string api ''ARGV'' D1 k1)"
      using calls(7)[of D1 "''ARGV''"] that by (simp add: I_def)
    from js_completes_does[OF this js_does_props(2)[OF assms(1)]] show ?thesis using that by (simp add: I_def)
  qed
  show ?thesis
    unfolding js_set_argv_def Let_def
  proof (rule ends_bind[OF fold])
    fix s
    assume "I s"
    obtain D1 k1 where s: "s = (D1, k1)" by (cases s)
    obtain D2 k2 where "unprotected (duk_put_global_string api ''ARGV'' D1 k1) = Inr ((), D2, k2)" "good D2" "stk D2 = stk D"
      using put[of D1 k1] \<open>I s\<close> s by (auto simp: ends_def)
    then show "ends (case s of (D1, k1) \<Rightarrow> res_bind (unprotected (duk_put_global_string api ''ARGV'' D1 k1)) (\<lambda>(_, D2, k2). Inr (D2, k2)))
        (\<lambda>(D', k'). good D' \<and> stk D' = stk D)"
      by (simp add: s)
  qed
qed

lemma js_finish_call_ends:
  assumes "js_laws ho api stk" "js_undisturbed api stk good helpers"
    and "good D" "stk D = v # Js_Object c # vs" "result_ok r"
    and "called \<Longrightarrow> (\<forall>c. v = Js_Object c \<longrightarrow> c = Array_Object)"
  shows "ends (js_finish_call api ops called D k r) (\<lambda>(success, r', D', k'). good D')"
proof -
  note reads = reads_returnD[OF js_undisturbed_parts(4)[OF assms(2)]] and pop = js_stack_pushes(2)[OF assms(1)]
  have clear: "\<exists>D' k'. js_clear_host_fields api (duk_pop api 1 D1, k1) = Inr (D', k') \<and> good D'"
    if "good D1" "stk D1 = u # Js_Object d # us" for D1 k1 u d us
    using js_host_fields_end(2)[OF assms(1,2) reads(4)[OF that(1)], of 1 d us k1] pop[of 1 D1] that(2)
    by (auto simp: ends_def)
  show ?thesis
  proof (cases called)
    case False
    have "stk D \<noteq> []" using assms(4) by simp
    from reads(3)[OF assms(3) this, of k]
    obtain s D1 k1 where str: "duk_safe_to_string api (-1) D k = Inr (s, D1, k1)" "good D1" by blast
    have "stk D1 = Js_String s # Js_Object c # vs"
      using js_to_string(1)[OF assms(1) _ str(1)] assms(4) by simp
    from clear[OF str(2) this, of k1] show ?thesis
      using False put_value_first[OF assms(5)] str(1) by (auto simp: js_finish_call_def)
  next
    case True
    obtain ok r1 D1 k1 where post: "js_post_execute api ops D k r = Inr (ok, r1, D1, k1)" and g1: "good D1"
      using js_post_execute_ends[OF assms(1) js_undisturbed_parts(4)[OF assms(2)] assms(3-5), of ops k] assms(6)[OF True]
      by (auto simp: ends_def)
    obtain u d us where s1: "stk D1 = u # Js_Object d # us" and r1: "result_ok r1"
      using js_post_execute_outcome[OF assms(1,4,5) post] by (auto split: if_splits)
    from clear[OF g1 s1, of k1] show ?thesis
      using True put_value_first[OF r1] by (auto simp: js_finish_call_def post)
  qed
qed

lemma js_call_function_ends:
  assumes "js_laws ho api stk" "js_undisturbed api stk good helpers"
    and "good D" "stk D = f # Js_Object c # vs" "f \<in> {Js_Object Function_Object, Js_Lightfunc}" "task_ok s"
  shows "ends (js_call_function api ops s D k) (\<lambda>(success, r, D', k'). good D')"
proof -
  obtain D1 k1 where D1: "js_set_host_fields api (D, k) = Inr (D1, k1)" "good D1" "stk D1 = stk D"
    using js_host_fields_end(1)[OF assms(1-4), of k] by (auto simp: ends_def)
  have "ts_argc s \<le> int (length (ts_argv s))" using assms(6) by (simp add: task_ok_def)
  from js_set_argv_ends[OF assms(1,2) D1(2) this, of k1]
  obtain D2 k2 where D2: "js_set_argv api (ts_argc s) (ts_argv s) D1 k1 = Inr (D2, k2)" "good D2" "stk D2 = f # Js_Object c # vs"
    using D1(3) assms(4) by (auto simp: ends_def)
  obtain called D3 k3 where call: "duk_pcall api 0 D2 k2 = Inr (called, D3, k3)" "good D3"
      "called \<longrightarrow> (\<forall>c. hd (stk D3) = Js_Object c \<longrightarrow> c = Array_Object)"
    using js_undisturbed_parts(3)[OF assms(2), unfolded js_functions_end_def, rule_format, OF D2(2,3) assms(5), of k2]
    by (auto simp: ends_def)
  obtain v where s3: "stk D3 = v # Js_Object c # vs"
    using js_stack_code(2)[OF assms(1) call(1)] D2(3) by auto
  have "result_ok (ts_result s)" using assms(6) by (simp add: task_ok_def)
  from js_finish_call_ends[OF assms(1,2) call(2) s3 this, of called ops k3] call(3) s3 show ?thesis
    by (simp add: js_call_function_def D1 D2 call(1))
qed

lemma js_run_on_engine_ends:
  assumes "js_laws ho api stk" "js_undisturbed api stk good helpers" "priv_ok state" "name \<noteq> ''varnish''" "good D"
  shows "ends (js_run_on_engine api ops script code name state D k) (\<lambda>(success, unknown, r, D', k'). good D')"
proof -
  note pop = reads_returnD(4)[OF js_undisturbed_parts(4)[OF assms(2)]]
  obtain ready unknown D1 k1 f c where push: "js_push_function api (sc_sandboxing script) code name D k = Inr (ready, unknown, D1, k1)"
      and D1: "good D1" "stk D1 = (if ready then [f, Js_Object c] else [Js_Object c]) @ stk D"
      "ready \<longrightarrow> f \<in> {Js_Object Function_Object, Js_Lightfunc}"
    using js_push_function_ends[OF assms(1,2,5,4), of "sc_sandboxing script" code k] by (auto simp: ends_def)
  consider (early) "\<not> ready" | (check) "ready" "state = None" | (call) s where "ready" "state = Some s"
    by (cases state) auto
  then show ?thesis
  proof cases
    case (call s)
    have "stk D1 = f # Js_Object c # stk D" "f \<in> {Js_Object Function_Object, Js_Lightfunc}" "task_ok s"
      using D1(2,3) call assms(3) by (simp_all add: priv_ok_def)
    from js_call_function_ends[OF assms(1,2) D1(1) this, of ops k1]
    obtain success r D2 k2 where "js_call_function api ops s D1 k1 = Inr (success, r, D2, k2)" "good D2"
      by (auto simp: ends_def)
    then show ?thesis using call by (simp add: js_run_on_engine_def push pop)
  qed (simp_all add: js_run_on_engine_def push pop D1(1))
qed

interpretation live_javascript: live_engine "js_laws ho api stk" ho "js_run_on_engine api ops" "js_collect_garbage api"
    "new_javascript_engine api helpers" "duk_get_top api" "\<lambda>k k'. \<not> failed_since k k'"
    "js_undisturbed api stk good helpers" ENGINE_TYPE_JAVASCRIPT good
  for ho :: "('w, 'h, 're) host_ops" and api :: "('l, 'd, 'w, 'h, 're) duk" and stk ops good helpers
proof
  assume laws: "js_laws ho api stk" and live: "js_undisturbed api stk good helpers"
  fix script :: "('re, 'l) cfg_script"
  show "ends (js_run_on_engine api ops script code name state D k) (\<lambda>(success, unknown, result, D', k'). good D')"
    if "priv_ok state" "name \<noteq> ''varnish''" "good D" for code name and state :: "'d task_state option" and D k
    using js_run_on_engine_ends[OF laws live that] .
  show "ends (js_collect_garbage api script gcc n D) (\<lambda>(collected, D'). good D')"
    if "sc_min_gc_cycles script \<noteq> 0" "good D" for gcc n D
    using that js_calls(5)[OF live] by (simp add: js_collect_garbage_def collect_garbage_def)
  show "ends (new_javascript_engine api helpers script k) (\<lambda>e. good (eng_ctx e))" if "sc_type script = ENGINE_TYPE_JAVASCRIPT" for k
    using js_new_context_ends[OF laws live, of k] that
    by (auto simp: new_javascript_engine_def new_engine_def intro: ends_bind)
qed

end
