(* ===== verification/Spec2Isabelle.thy ===== *)
theory Spec2Isabelle
  imports Cfg_Prelude Vtree Varnish Variables Env Vmod Remote Ownership Contents Ini Cjson Json_Dump File Rules Swapping Engines Script_Commands Shared
    Script Script_Host Script_Live Lua_Commands Lua Lua_Live Javascript_Commands Javascript Javascript_Live
begin

text \<open>
  Verification of libvmod-cfg, a Varnish module that keeps configuration outside of the VCL. This root
  theory imports the whole development, states the properties that span components and ends with
  their witnesses.

  The program. Five kinds of code work together. \<open>remote.c\<close> reads a text from a path or a URL, decides
  when to read it again and keeps a backup; what to do with the text is a callback of its client. The
  clients are the objects of the VCL: \<open>cfg.file\<close> (variables out of INI or JSON), \<open>cfg.rules\<close> (an ordered list
  of regular expressions) and \<open>cfg.script\<close> (code for Lua or JavaScript); \<open>cfg.env\<close> is filled from the
  environment and has no remote. Variables live in the red-black trees of \<open>vtree.h\<close>. A script runs on an
  engine taken from a pool that all worker threads share, and calls back into the module through the
  commands of the global \<open>varnish\<close>: logging, headers, regular expressions, shared variables. \<open>vmod_cfg.c\<close>
  answers the events of the VCL.

  Theories and sources, in the order of the code (all under \<open>src/\<close>):
    \<^item> \<open>Cfg_Prelude\<close>: how a call can end. A result is \<open>Inr\<close> of a value, or \<open>Inl\<close> of the way the process
      stops: a failed \<open>assert\<close>, \<open>AN\<close> or \<open>AZ\<close>, a NULL dereference, an access outside an array, a division by
      zero, a script error outside any protected call, a thread that waits for itself, a use of freed memory. \<open>returns\<close> and \<open>ends\<close> are
      the rules of total correctness; the C string functions are here too.
    \<^item> \<open>Vtree\<close> (\<open>vtree.h\<close>) and \<open>Keyed\<close>: insertion, search, removal and traversal with their rebalancing, on a
      zipper instead of parent pointers; the locale \<open>comparator\<close> has the theory for any comparison
      function, \<open>keyed\<close> for comparison by name. \<open>variablecmp\<close>, \<open>regexpcmp\<close> and \<open>tvcmp\<close> interpret it.
    \<^item> \<open>Varnish\<close>: contexts, workspaces and \<open>VRT_fail\<close>, as far as they are used.
    \<^item> \<open>Variables\<close> (\<open>variables.c\<close>), with the locale \<open>dictionary\<close>; \<open>Env\<close> (\<open>vmod_cfg_env.c\<close>); \<open>Vmod\<close> (\<open>vmod_cfg.c\<close>,
      \<open>helpers.c\<close>).
    \<^item> \<open>Remote\<close> (\<open>remote.c\<close>): one call of \<open>check_remote\<close>, and the interleavings of its critical sections as a
      step relation. The locales \<open>remote_loader\<close>, \<open>remote_client\<close> and \<open>total_loader\<close> are the contract with a callback.
    \<^item> \<open>Ini\<close> (\<open>ini.c\<close>, \<open>file_ini_stream_reader\<close>), \<open>Cjson\<close> (\<open>cJSON.c\<close>), \<open>File\<close> (\<open>vmod_cfg_file.c\<close>), \<open>Json_Dump\<close> (the dump
      read back by the parser), \<open>Rules\<close> (\<open>vmod_cfg_rules.c\<close>).
    \<^item> \<open>Swapping\<close> (the swap of a new tree or list of rules, with \<open>vmod_file_get\<close> and \<open>vmod_rules_get\<close>) and \<open>Contents\<close>
      (the buffer kept by \<open>remote.c\<close>): the same code again as several threads see it, one step per stretch
      between two points where they can interleave, on a heap whose blocks can be freed. \<open>Ownership\<close> has the
      invariant both use: every block has one owner. The locale \<open>swap_client\<close> is interpreted for both objects.
    \<^item> \<open>Engines\<close> (\<open>lock_engine\<close>, \<open>unlock_engine\<close>): threads as a step relation over turns of the mutex.
      \<open>Script_Commands\<close> and \<open>Shared\<close>: the rest of \<open>script_helpers.c\<close>.
    \<^item> \<open>Script\<close> (\<open>vmod_cfg_script.c\<close>), for any \<open>api.execute\<close>. \<open>Script_Host\<close>: what a script can do to the module, as a
      transition relation, and the frame of an execution; its locale \<open>script_engine\<close> is the contract of an engine.
    \<^item> \<open>Lua_Commands\<close>, \<open>Lua\<close> (\<open>script_lua.c\<close>), \<open>Javascript_Commands\<close>, \<open>Javascript\<close> (\<open>script_javascript.c\<close>): the
      commands, the set-up of engines, the calls and the results. Both interpret \<open>script_engine\<close>.
    \<^item> \<open>Script_Live\<close>, \<open>Lua_Live\<close>, \<open>Javascript_Live\<close>: total correctness. The locale \<open>live_engine\<close> extends the
      contract of an engine; both engines interpret it again.

  State. A C struct is a record with the fields of the struct, less \<open>magic\<close> numbers, locks and list links.
  Pointers into a buffer are indices or the rest of the text; engines are addresses in a heap, as two
  queues and several threads hold them; elsewhere a pointer is the value it points to. Strings are C
  strings. Integers that can wrap are words (\<open>unsigned\<close> settings, counters, sizes); where the code stores a
  \<open>VCL_INT\<close> into an \<open>unsigned\<close> the truncation is written out.

  Parameters. Code that is not in this repository is an argument of the definitions: the workspace,
  headers and regular expressions of Varnish, the file system, \<open>libcurl\<close> and the clock, \<open>strtod\<close> and \<open>printf\<close> of
  doubles, SHA-256, \<open>malloc\<close> (only the address it gives), the C API of Lua and, since \<open>duktape.c\<close> is a vendored
  interpreter of a hundred thousand lines, the API of Duktape. Its documented behaviour is stated by named
  predicates: \<open>ws_faithful\<close>, \<open>lua_laws\<close>, \<open>js_laws\<close>, \<open>malloc_fresh\<close>; and, for total correctness only, \<open>ws_roomy\<close>,
  \<open>lua_undisturbed\<close> and \<open>js_undisturbed\<close>: scripts end, leave the global \<open>varnish\<close> alone and raise no error in a
  place where the host reads. The witnesses instantiate them with concrete machines.

  What is shown. Trees: every tree the operations build is sorted, free of duplicates and balanced.
  Parsers: they end on every text; streaming and in-place parsing equal reading line by line; what is
  rendered parses back. Remotes and their clients: a reload that fails leaves the object as it was, a
  backup restores the same object, at most one thread reloads periodically; a reader of a file finds a
  live tree whatever other threads do. Engines: counter, queues and
  holders agree under every interleaving, no wake-up is lost, the pool refines a counting semaphore.
  Scripts: engines come back with an empty stack, shared variables refine two maps, results and
  arguments keep within their arrays, and no sequence of calls stops the process on an undisturbed engine.
  Where the code fails to do so the outcome is a theorem too: the error paths that abort
  (\<open>env_init_outcome\<close>, \<open>file_json_outcome\<close>, \<open>lua_table_overflow_aborts\<close>), the stores outside a buffer
  (\<open>dump_variables_outcome\<close>, \<open>javascript_result_outcome\<close>, \<open>result_accessors_outcome\<close>), the uses of freed memory
  (\<open>rules_get_uses_freed_rule\<close>, \<open>concurrent_reloads_race\<close>).

  Loops. All are recursive functions with a measure, and total. Only the loops over the elements of a
  JSON array and the members of an object, which recur through the parser of a nested value, count
  down a number: they are given the length of the text plus one, and \<open>json_parser_total\<close> shows that this is
  enough. The depth of nesting counts down from \<open>CJSON_NESTING_LIMIT\<close>, as in the code.

  Not modelled: messages to the log; allocation failures; \<open>magic\<close> checks; the locks that only
  order what is one step here (the read-write lock of the shared variables, the mutex around statistics);
  the inside of Lua and Duktape and the limits of their stacks; the Lua and JavaScript helper sources, which
  the build turns into headers (they are the argument \<open>helpers\<close>); the functions of \<open>ini.c\<close>, \<open>cJSON.c\<close> and \<open>vtree.h\<close>
  that the module never calls (printing and editing of JSON, parsing INI files by name, the splay
  trees, reverse traversal); the declarations of \<open>vmod_cfg.vcc\<close>; build files and tests.
\<close>

section \<open>Script objects on the real engines\<close>

text \<open>
  What \<open>vmod_script__init\<close> makes \<open>script->api.execute\<close> for each type, on a virtual machine that obeys its
  laws; and on one that scripts leave undisturbed, with an allocator and a workspace that do their job.
\<close>

definition script_api ::
  "('w, 'h, 're) host_ops \<Rightarrow> engine_type \<Rightarrow> ('w, 'h http_ctx, 're, 'l, 'd) execute \<Rightarrow> bool" where
  "script_api ho kind execute \<longleftrightarrow>
     (case kind of
        ENGINE_TYPE_LUA \<Rightarrow> \<exists>api stk helpers sha256 malloc.
          lua_laws ho api stk \<and> execute = execute_lua api (ho_ws ho) helpers sha256 malloc
      | ENGINE_TYPE_JAVASCRIPT \<Rightarrow> \<exists>api stk helpers sha256 malloc.
          js_laws ho api stk \<and> execute = execute_javascript api (ho_ws ho) helpers sha256 malloc)"

definition undisturbed_api ::
  "('w, 'h, 're) host_ops \<Rightarrow> engine_type \<Rightarrow> ('w, 'h http_ctx, 're, 'l, 'd) execute \<Rightarrow> bool" where
  "undisturbed_api ho kind execute \<longleftrightarrow> ws_faithful (ho_ws ho) \<and> ws_roomy (ho_ws ho) \<and>
     (case kind of
        ENGINE_TYPE_LUA \<Rightarrow> \<exists>api stk good helpers sha256 malloc. malloc_fresh malloc
          \<and> lua_laws ho api stk \<and> lua_undisturbed api stk good helpers
          \<and> execute = execute_lua api (ho_ws ho) helpers sha256 malloc
      | ENGINE_TYPE_JAVASCRIPT \<Rightarrow> \<exists>api stk good helpers sha256 malloc. malloc_fresh malloc
          \<and> js_laws ho api stk \<and> js_undisturbed api stk good helpers
          \<and> execute = execute_javascript api (ho_ws ho) helpers sha256 malloc)"

lemma script_api_keeps:
  assumes "script_api ho kind execute"
  shows "execute_keeps execute"
proof (cases kind)
  case ENGINE_TYPE_LUA
  then obtain api stk helpers sha256 malloc where
    "lua_laws ho api stk" "execute = execute_lua api (ho_ws ho) helpers sha256 malloc"
    using assms by (auto simp: script_api_def)
  then show ?thesis using lua_engine.execute_keeps by (simp add: execute_lua_def)
next
  case ENGINE_TYPE_JAVASCRIPT
  then obtain api stk helpers sha256 malloc where
    "js_laws ho api stk" "execute = execute_javascript api (ho_ws ho) helpers sha256 malloc"
    using assms by (auto simp: script_api_def)
  then show ?thesis using javascript_engine.execute_keeps by (simp add: execute_javascript_def)
qed

text \<open>The facts of \<open>live_engine\<close> for both types.\<close>

lemma undisturbed_service:
  assumes "undisturbed_api ho kind execute" "script_service execute (ho_ws ho) kind script tasks"
  shows "returns (vmod_script_execute execute (ho_ws ho) ctx script (tasks i) gc tc)"
    and "os_curl_init os \<Longrightarrow> returns (vmod_script_reload execute os now later ctx script force_backup)"
    and "os_curl_init os \<Longrightarrow> returns (vmod_script_inspect execute os now later ctx script (tasks i))"
    and "vmod_script__fini (Some script) = Inr None"
proof -
  have ws: "ws_faithful (ho_ws ho)" "ws_roomy (ho_ws ho)" using assms(1) by (simp_all add: undisturbed_api_def)
  have "returns (vmod_script_execute execute (ho_ws ho) ctx script (tasks i) gc tc)
    \<and> (os_curl_init os \<longrightarrow> returns (vmod_script_reload execute os now later ctx script force_backup)
        \<and> returns (vmod_script_inspect execute os now later ctx script (tasks i)))
    \<and> vmod_script__fini (Some script) = Inr None"
  proof (cases kind)
    case ENGINE_TYPE_LUA
    then obtain api stk good helpers sha256 malloc where m: "malloc_fresh malloc" and laws: "lua_laws ho api stk"
        and live: "lua_undisturbed api stk good helpers"
        and x: "execute = execute_lua api (ho_ws ho) helpers sha256 malloc"
      using assms(1) by (auto simp: undisturbed_api_def)
    note service = live_lua.service_returns[OF laws conjI[OF live ws(2)] m ws(1)
        assms(2)[unfolded x execute_lua_def ENGINE_TYPE_LUA]]
    show ?thesis using service by (auto simp: x execute_lua_def)
  next
    case ENGINE_TYPE_JAVASCRIPT
    then obtain api stk good helpers sha256 malloc where m: "malloc_fresh malloc" and laws: "js_laws ho api stk"
        and live: "js_undisturbed api stk good helpers"
        and x: "execute = execute_javascript api (ho_ws ho) helpers sha256 malloc"
      using assms(1) by (auto simp: undisturbed_api_def)
    note service = live_javascript.service_returns[OF laws live m ws(1)
        assms(2)[unfolded x execute_javascript_def ENGINE_TYPE_JAVASCRIPT]]
    show ?thesis using service by (auto simp: x execute_javascript_def)
  qed
  then show "returns (vmod_script_execute execute (ho_ws ho) ctx script (tasks i) gc tc)"
    and "os_curl_init os \<Longrightarrow> returns (vmod_script_reload execute os now later ctx script force_backup)"
    and "os_curl_init os \<Longrightarrow> returns (vmod_script_inspect execute os now later ctx script (tasks i))"
    and "vmod_script__fini (Some script) = Inr None"
    by simp_all
qed

lemma undisturbed_init:
  assumes "undisturbed_api ho kind execute" "os_curl_init os"
    and "sa_type sa = Some kind" "to_unsigned (sa_max_engines sa) \<noteq> (0 :: uint32)"
    and "to_unsigned (sa_min_gc_cycles sa) \<noteq> (0 :: uint32)"
  shows "returns (vmod_script__init execute os now later ctx None vcl_name ra sa)"
proof -
  have ws: "ws_faithful (ho_ws ho)" "ws_roomy (ho_ws ho)" using assms(1) by (simp_all add: undisturbed_api_def)
  show ?thesis
  proof (cases kind)
    case ENGINE_TYPE_LUA
    then obtain api stk good helpers sha256 malloc where m: "malloc_fresh malloc" and laws: "lua_laws ho api stk"
        and live: "lua_undisturbed api stk good helpers"
        and x: "execute = execute_lua api (ho_ws ho) helpers sha256 malloc"
      using assms(1) by (auto simp: undisturbed_api_def)
    show ?thesis
      using live_lua.script_init_serves[OF laws conjI[OF live ws(2)] m ws(1) assms(2) assms(3)[unfolded ENGINE_TYPE_LUA] assms(4,5)]
      unfolding x execute_lua_def returns_def by blast
  next
    case ENGINE_TYPE_JAVASCRIPT
    then obtain api stk good helpers sha256 malloc where m: "malloc_fresh malloc" and laws: "js_laws ho api stk"
        and live: "js_undisturbed api stk good helpers"
        and x: "execute = execute_javascript api (ho_ws ho) helpers sha256 malloc"
      using assms(1) by (auto simp: undisturbed_api_def)
    show ?thesis
      using live_javascript.script_init_serves[OF laws live m ws(1) assms(2) assms(3)[unfolded ENGINE_TYPE_JAVASCRIPT] assms(4,5)]
      unfolding x execute_javascript_def returns_def by blast
  qed
qed

section \<open>Properties\<close>


text \<open>
  C21: Last known good, on both engines. A reload that fails leaves the code, its function and the remote
  as they were. One that succeeds leaves the text that was read from the location or from the backup,
  and the name of the function its syntax check gave.
\<close>

theorem script_reload_last_known_good:
  assumes "script_api ho kind execute" "sc_remote script = Some r"
    and "vmod_script_reload execute os now later ctx script force_backup = Inr (result, ctx', script', os')"
  shows "if result
    then \<exists>t. t \<noteq> [] \<and> sc_code script' = Some t \<and> sc_remote script' = Some (r\<lparr>contents := Some t, tst := later\<rparr>)
      \<and> (read_remote os r = Inr (Some t) \<or> read_backup os r = Inr (Some t))
      \<and> (\<exists>c s name c' s' st. execute c s None t None False True = Inr (True, name, c', s', st)
          \<and> sc_function script' = name \<and> sc_code s = sc_code script)
    else sc_code script' = sc_code script \<and> sc_function script' = sc_function script
      \<and> sc_remote script' = Some r \<and> os' = os"
  by (rule script_reload_outcome[OF script_api_keeps[OF assms(1)] assms(2,3)])

text \<open>
  C29: On both engines, whatever calls a task made before, the accessors of its result answer, and never
  look outside the array of 128 values, except for a negative index into a table, which nothing
  rejects. A result is either a single value or a table.
\<close>

theorem result_accessors_outcome:
  assumes "script_api ho kind execute" "task_reached execute ops priv"
  shows "(vmod_script_get_table_result_value nops ops' ctx priv index = Inl err
      \<longleftrightarrow> err = Out_Of_Bounds \<and> index < 0 \<and> vmod_script_result_is_table priv)
    \<and> (vmod_script_table_result_is type priv index = Inl err
      \<longleftrightarrow> err = Out_Of_Bounds \<and> index < 0 \<and> vmod_script_result_is_table priv)
    \<and> (\<exists>r. vmod_script_get_result nops ops' ctx priv = Inr r)
    \<and> (\<exists>b. vmod_script_result_is type priv = Inr b \<and> \<not> (b \<and> vmod_script_result_is_table priv))
    \<and> vmod_script_get_table_result_length priv \<le> int MAX_RESULT_VALUES"
  by (rule result_accessors_answer[OF script_api_keeps[OF assms(1)] assms(2)])

section \<open>Witnesses\<close>

text \<open>A workspace without end, and addresses above all that are in use.\<close>

definition ample_ws :: "unit ws_ops" where
  "ample_ws = \<lparr>ws_copy = (\<lambda>w s. (w, Some s)), ws_alloc = (\<lambda>w n. (w, True)), ws_reserve_all = (\<lambda>w. 0),
     ws_release = (\<lambda>w n. w)\<rparr>"

definition ample_ops :: "(unit, string, string) host_ops" where
  "ample_ops = \<lparr>ho_ws = ample_ws, ho_hdr = \<lparr>hdr_get = (\<lambda>h n. Some h), hdr_set = (\<lambda>h n v. v)\<rparr>, ho_vre = literal_vre\<rparr>"

definition ample_ctx :: "(unit, string http_ctx) vrt_ctx" where
  "ample_ctx = \<lparr>ctx_ws = (), ctx_method = MET_OTHER, ctx_vsb = [], ctx_fails = [],
     ctx_http = \<lparr>http_req = None, http_req_top = None, http_bereq = None, http_resp = None,
       http_beresp = None, http_obj = None\<rparr>\<rparr>"

definition fresh_address :: "'l pool \<Rightarrow> nat" where
  "fresh_address p = Suc (sum_list (pool_free p @ pool_busy p))"

lemma fresh_address_fresh: "malloc_fresh fresh_address"
  unfolding malloc_fresh_def
proof (intro allI impI)
  fix m c and p :: "'l pool"
  assume ok: "pool_ok m p"
  have "pool_heap p' (fresh_address p) = None" if "lock_scan c p = Inr (r, p')" for r p'
  proof (rule ccontr)
    assume "pool_heap p' (fresh_address p) \<noteq> None"
    then obtain e where "pool_heap p' (fresh_address p) = Some e" by blast
    then have "fresh_address p \<in> dom (pool_heap p)" using lock_scan_heap[OF that] by blast
    then have "fresh_address p \<in> set (pool_free p @ pool_busy p)" using ok by (simp only: pool_ok_def)
    from member_le_sum_list[OF this] show False by (simp add: fresh_address_def)
  qed
  then show "unused_address c p (fresh_address p)"
    by (auto simp: unused_address_def split: sum.split)
qed

lemma list_lua_undisturbed:
  "lua_undisturbed (list_lua answer item :: (list_state, int, 'w, 'h, 're) lua) ll_stack (\<lambda>_. True) helpers"
  unfolding lua_undisturbed_def
proof (intro conjI exI)
  show "engines_made (list_lua answer item :: (list_state, int, 'w, 'h, 're) lua) ll_stack helpers
      (\<lambda>_. True) (\<lambda>_. True) (\<lambda>_. True) (\<lambda>_. True)"
    by (auto simp: engines_made_def set_up_calls_def run_lua_program_def enable_lua_protections_def list_lua_eval)
qed (auto simp: globals_kept_def host_readable_def functions_defined_def list_lua_eval)

lemma list_js_undisturbed:
  assumes "\<And>c. answer = Js_Object c \<Longrightarrow> c = Array_Object"
  shows "js_undisturbed (list_js answer n element) jl_stack (\<lambda>_. True) helpers"
  unfolding js_undisturbed_def
proof (intro conjI exI)
  show "js_engines_made (list_js answer n element) jl_stack helpers (\<lambda>_. True) (\<lambda>_. True) (\<lambda>_. True) (\<lambda>_. True)"
    by (auto simp: js_engines_made_def js_set_up_calls_def js_completes_def list_js_eval)
  show "js_functions_end (list_js answer n element) jl_stack (\<lambda>_. True)"
    using assms by (auto simp: js_functions_end_def list_js_eval)
qed (auto simp: js_host_calls_def js_globals_def reads_return_def js_completes_def list_js_eval)

definition sample_settings :: "engine_type \<Rightarrow> script_args" where
  "sample_settings kind = \<lparr>sa_type = Some kind, sa_max_engines = 1, sa_max_cycles = 0, sa_min_gc_cycles = 1,
      sa_enable_sandboxing = True, sa_lua_gc_step_size = 1, sa_lua_remove_loadfile_function = True,
      sa_lua_remove_dotfile_function = True, sa_lua_load_package_lib = True, sa_lua_load_io_lib = False,
      sa_lua_load_os_lib = False\<rparr>"

definition sample_engine :: "(unit, string http_ctx, string, list_state, int) execute" where
  "sample_engine = execute_lua (list_lua Lua_Table Lua_Nil :: (list_state, int, unit, string, string) lua) ample_ws
     sample_helpers id fresh_address"

definition sample_js_engine :: "(unit, string http_ctx, string, js_list, int) execute" where
  "sample_js_engine = execute_javascript (list_js (Js_Object Array_Object) 2 Js_Null :: (js_list, int, unit, string, string) duk)
     ample_ws ''h'' id fresh_address"

lemma sample_engine_api:
  "script_api ample_ops ENGINE_TYPE_LUA sample_engine" "undisturbed_api ample_ops ENGINE_TYPE_LUA sample_engine"
  "undisturbed_api ample_ops ENGINE_TYPE_JAVASCRIPT sample_js_engine"
proof -
  have ws: "ho_ws ample_ops = ample_ws" "ws_faithful ample_ws" "ws_roomy ample_ws"
    by (simp_all add: ample_ops_def ample_ws_def ws_faithful_def ws_roomy_def)
  show "script_api ample_ops ENGINE_TYPE_LUA sample_engine"
    unfolding script_api_def engine_type.case ws
    by (intro exI conjI) (rule list_lua_laws, rule sample_engine_def)
  show "undisturbed_api ample_ops ENGINE_TYPE_LUA sample_engine"
    unfolding undisturbed_api_def engine_type.case ws(1)
    by (intro exI conjI ws(2,3)) (rule fresh_address_fresh, rule list_lua_laws, rule list_lua_undisturbed, rule sample_engine_def)
  have "js_undisturbed (list_js (Js_Object Array_Object) 2 Js_Null :: (js_list, int, unit, string, string) duk) jl_stack
      (\<lambda>_. True) ''h''"
    by (rule list_js_undisturbed) simp
  then show "undisturbed_api ample_ops ENGINE_TYPE_JAVASCRIPT sample_js_engine"
    unfolding undisturbed_api_def engine_type.case ws(1)
    by (intro exI conjI ws(2,3)) (rule fresh_address_fresh, rule list_js_laws, assumption, rule sample_js_engine_def)
qed

definition sample_live_script :: "engine_type \<Rightarrow> (string, 'e) cfg_script" where
  "sample_live_script kind = new_script ''s'' Script.sample_args (sample_settings kind) kind"

lemma sample_made:
  "vmod_script__init execute (sample_os Map.empty) 1 2 ample_ctx None ''s'' Script.sample_args (sample_settings kind)
    = Inr (Some (sample_live_script kind), ample_ctx, sample_os Map.empty)"
  by (simp add: vmod_script__init_def sample_live_script_def script_check_def sample_settings_def Script.sample_args_def
      new_script_def script_numbers_ok_def location_given_def)

abbreviation sample_lua_object :: "(string, list_state) cfg_script" where
  "sample_lua_object \<equiv> sample_live_script ENGINE_TYPE_LUA"

text \<open>The first execution, on a new engine.\<close>

lemma sample_engine_first:
  fixes k :: "(unit, string, string) host"
  assumes "script = sample_lua_object\<lparr>sc_remote := rem\<rparr>" "k = host_of ample_ctx script state"
    and "\<And>name. name \<noteq> ''varnish'' \<Longrightarrow> run_on_engine (list_lua Lua_Table Lua_Nil :: (list_state, int, unit, string, string) lua)
      ample_ws code name state \<lparr>ll_stack = [], ll_known = True\<rparr> k
      = Inr (True, False, result, \<lparr>ll_stack = [], ll_known = True\<rparr>, k)"
  shows "\<exists>name ctx' script'. sample_engine ample_ctx script state code None False tc
    = Inr (True, name, ctx', script', put_state state result k)"
proof -
  let ?api = "list_lua Lua_Table Lua_Nil :: (list_state, int, unit, string, string) lua"
  let ?e = "(new_engine \<lparr>ll_stack = [], ll_known = True\<rparr>)\<lparr>eng_memory := 7\<rparr>"
  have settings: "sc_type script = ENGINE_TYPE_LUA" "sc_max_engines script = 1" "sc_max_cycles script = 0"
      "sc_min_gc_cycles script = 1" "sc_pool script = empty_pool"
    by (simp_all add: assms(1) sample_live_script_def sample_settings_def new_script_def to_unsigned_def)
  have made: "new_lua_engine ?api sample_helpers script k = Inr ?e"
    by (simp add: new_lua_engine_def list_lua_context get_lua_engine_used_memory_def settings) (simp add: list_lua_def)
  have lock: "lock_turn (sc_max_engines script) (sc_max_cycles script) (Inr ?e) (fresh_address (sc_pool script)) (sc_pool script)
      = Inr (Some 1, empty_pool\<lparr>pool_heap := [1 \<mapsto> ?e], pool_total := 1, pool_busy := [1], pool_n := 1\<rparr>)"
    by (simp add: lock_turn_def lock_scan.simps settings empty_pool_def fresh_address_def)
  note run = assms(3)[OF new_function_name_own[of id code]]
  show ?thesis
    unfolding sample_engine_def execute_lua_def execute_script_def Let_def assms(2)[symmetric] made lock
    by (simp add: execute_on_def new_engine_def run assms(2)[symmetric] lua_collect_garbage_def collect_garbage_def
        unlock_engine_def settings)
qed


text \<open>An execution that only loads compiles, and one with a task gives an empty table.\<close>

lemma sample_table_call:
  "call_function (list_lua Lua_Table Lua_Nil) ops (vmod_script_init None (Some t))
      \<lparr>ll_stack = [Lua_Function, Lua_Function, Lua_Table], ll_known = True\<rparr> k
    = Inr (True, empty_result\<lparr>nvalues := 0\<rparr>, \<lparr>ll_stack = [Lua_Table], ll_known = True\<rparr>, k)"
  by (simp add: call_function_def set_host_fields_def clear_host_fields_def host_fields_def set_lua_argv_def
      finish_call_def post_execute_def store_items.simps vmod_script_init_def get_task_state_def
      new_task_state_def reset_task_state_def list_lua_eval Let_def)

lemma sample_table_run:
  fixes k :: "(unit, string, string) host"
  assumes "name \<noteq> ''varnish''"
  shows "run_on_engine (list_lua Lua_Table Lua_Nil :: (list_state, int, unit, string, string) lua) ample_ws code name None
      \<lparr>ll_stack = [], ll_known = True\<rparr> k = Inr (True, False, None, \<lparr>ll_stack = [], ll_known = True\<rparr>, k)"
    and "run_on_engine (list_lua Lua_Table Lua_Nil :: (list_state, int, unit, string, string) lua) ample_ws code name
        (Some (vmod_script_init None (Some t))) \<lparr>ll_stack = [], ll_known = True\<rparr> k
      = Inr (True, False, Some (empty_result\<lparr>nvalues := 0\<rparr>), \<lparr>ll_stack = [], ll_known = True\<rparr>, k)"
  by (simp_all add: run_on_engine_def list_lua_push[OF assms] sample_table_call) (simp_all add: list_lua_eval)

definition sample_table_task :: "int task_state" where
  "sample_table_task = vmod_script_init None (Some ''return {}'')"

theorem result_accessors_outcome_witness:
  "\<exists>ctx' script' s. vmod_script_execute sample_engine ample_ws ample_ctx sample_lua_object (Some sample_table_task) False False
      = Inr (ctx', script', s)
    \<and> vmod_script_table_result_is IS_NIL (Some s) (-1) = Inl Out_Of_Bounds
    \<and> vmod_script_result_is IS_NIL (Some s) = Inr False"
proof -
  let ?k = "host_of ample_ctx sample_lua_object (Some sample_table_task) :: (unit, string, string) host"
  have state: "ts_code sample_table_task = Some ''return {}''" "ts_argc sample_table_task = 0"
    by (simp_all add: sample_table_task_def vmod_script_init_def get_task_state_def new_task_state_def
        reset_task_state_def Let_def)
  have script: "sample_lua_object = sample_lua_object\<lparr>sc_remote := sc_remote sample_lua_object\<rparr>" by simp
  have "\<exists>name ctx' script'. sample_engine ample_ctx sample_lua_object (Some sample_table_task)
      ''return {}'' None False False = Inr (True, name, ctx', script',
        put_state (Some sample_table_task) (Some (empty_result\<lparr>nvalues := 0\<rparr>)) ?k)"
    by (rule sample_engine_first[OF script refl]) (simp add: sample_table_run sample_table_task_def)
  then obtain name ctx' script' where run: "sample_engine ample_ctx sample_lua_object (Some sample_table_task)
      ''return {}'' None False False = Inr (True, name, ctx', script',
        put_state (Some sample_table_task) (Some (empty_result\<lparr>nvalues := 0\<rparr>)) ?k)"
    by blast
  obtain s where s: "put_state (Some sample_table_task) (Some (empty_result\<lparr>nvalues := 0\<rparr>)) ?k = Some s"
      "ts_result s = empty_result\<lparr>nvalues := 0\<rparr>" "ts_argc s = 0"
    by (simp add: put_state_def state)
  have exec: "vmod_script_execute sample_engine ample_ws ample_ctx sample_lua_object (Some sample_table_task) False False
      = Inr (ctx', script', s)"
    by (simp add: vmod_script_execute_def state run s(1) Let_def)
  have "task_reached sample_engine ample_ws (Some sample_table_task)"
    unfolding sample_table_task_def by (rule task_reached.task_init[OF task_reached.task_fresh])
  from task_reached.task_execute[OF this exec] have "task_reached sample_engine ample_ws (Some s)" .
  note outcome = result_accessors_outcome[OF sample_engine_api(1) this]
  have table: "vmod_script_result_is_table (Some s)"
    by (simp add: vmod_script_result_is_table_def table_result_def s(2,3))
  show ?thesis
    using exec outcome table by fastforce
qed

theorem script_reload_last_known_good_witness:
  "\<exists>ctx' script' os'. vmod_script_reload sample_engine (sample_os (Map.empty(''/etc/c'' \<mapsto> ''return''))) 5 6 ample_ctx
      (sample_lua_object\<lparr>sc_remote := Some sample_remote\<rparr>) False = Inr (True, ctx', script', os')
    \<and> sc_code script' = Some ''return''"
proof -
  let ?os = "sample_os (Map.empty(''/etc/c'' \<mapsto> ''return''))"
  let ?script = "sample_lua_object\<lparr>sc_remote := Some sample_remote\<rparr>"
  have "\<exists>name ctx' script'. sample_engine ample_ctx ?script None ''return'' None False True
      = Inr (True, name, ctx', script', put_state None None (host_of ample_ctx ?script (None :: int task_state option)))"
    by (rule sample_engine_first[OF refl refl]) (simp add: sample_table_run)
  then obtain name ctx' script' where run: "sample_engine ample_ctx ?script None ''return'' None False True
      = Inr (True, name, ctx', script', None)"
    by (auto simp: put_state_def)
  have read: "read_remote ?os sample_remote = Inr (Some ''return'')"
    by (simp add: sample_remote_def new_remote_def locate_def set_location_def optional_string_def read_remote_def
        read_path_def read_file_def sample_os_def c_string_def)
  have backup: "read_backup ?os sample_remote \<noteq> Inr (Some t)" for t
    by (simp add: read_backup_def sample_remote_def new_remote_def locate_def set_location_def optional_string_def
        read_file_def sample_os_def)
  obtain ctx' script' os' where reload: "vmod_script_reload sample_engine ?os 5 6 ample_ctx ?script False
      = Inr (True, ctx', script', os')"
    by (simp add: vmod_script_reload_def script_check_def check_remote_def reload_due_def load_remote_def read offer_def
        script_check_callback_def run Let_def)
  have "sc_remote ?script = Some sample_remote" by simp
  from script_reload_last_known_good[OF sample_engine_api(1) this reload] show ?thesis
    using reload read backup by (auto simp: Let_def)
qed


end
